(* ===== verification/Prelude.thy ===== *)
theory Prelude
  imports Main "HOL-Library.Finite_Map" "HOL-Library.Char_ord" "HOL-Library.List_Lexorder"
begin

text \<open>
  Shared vocabulary of the development: the Go values the components pass
  around and the few Go run-time operations they use.

  \<^item> A Go map is a finite map; reading a missing key yields the zero value of
    the element type (\<open>mapGet\<close>), and the two-value read is \<open>fmlookup\<close>.
  \<^item> A Go string is a list of characters, compared bytewise.
  \<^item> An instant (\<open>time.Time\<close>) is a number of nanoseconds since the zero time,
    so that \<open>IsZero\<close> is equality with 0; a duration is a number of nanoseconds.
  \<^item> \<open>any\<close> is a JSON-like value.
\<close>

section \<open>Collections of facts\<close>

named_theorems store_simps \<open>definitions of the operations of a component, for unfolding\<close>
named_theorems frame \<open>the parts of the state an operation leaves alone\<close>
named_theorems terminal_frame \<open>a terminal execution keeps its status under the operation\<close>

section \<open>Values\<close>

datatype any =
    ANil
  | ABool bool
  | AInt int
  | AStr string
  | AList "any list"
  | AMap "(string, any) fmap"

type_synonym data = "(string, any) fmap option"
type_synonym Time = int
type_synonym Duration = int

section \<open>Strings\<close>

definition hasPrefix :: "string \<Rightarrow> string \<Rightarrow> bool" where
  "hasPrefix s p \<longleftrightarrow> take (length p) s = p"

definition trimPrefix :: "string \<Rightarrow> string \<Rightarrow> string" where
  "trimPrefix s p = (if hasPrefix s p then drop (length p) s else s)"

lemma hasPrefix_append [simp]: "hasPrefix (p @ s) p"
  by (simp add: hasPrefix_def)

lemma hasPrefix_iff: "hasPrefix s p \<longleftrightarrow> (\<exists>r. s = p @ r)"
  by (metis append_take_drop_id append_eq_conv_conj hasPrefix_def)

lemma trimPrefix_append [simp]: "trimPrefix (p @ s) p = s"
  by (simp add: trimPrefix_def)

text \<open>Two strings joined by a separator that occurs in neither head split
  back in one way only.  Every composite key of the store rests on this.\<close>

lemma sep_append_inj:
  assumes "c \<notin> set a" "c \<notin> set b" "a @ c # x = b @ c # y"
  shows "a = b \<and> x = y"
  using assms
proof (induction a arbitrary: b)
  case Nil
  then show ?case by (cases b) auto
next
  case (Cons d a)
  then show ?case by (cases b) auto
qed

lemma hasPrefix_sep:
  assumes "c \<notin> set a" "c \<notin> set b"
  shows "hasPrefix (a @ c # x) (b @ [c]) \<longleftrightarrow> a = b"
proof
  assume "hasPrefix (a @ c # x) (b @ [c])"
  then obtain r where "a @ c # x = b @ c # r"
    by (auto simp: hasPrefix_iff)
  then show "a = b" using sep_append_inj [OF assms] by blast
next
  assume "a = b"
  then show "hasPrefix (a @ c # x) (b @ [c])"
    by (simp add: hasPrefix_iff)
qed

section \<open>Decimal printing (the verb for integers of fmt.Sprintf)\<close>

definition digit :: "nat \<Rightarrow> char" where
  "digit d = ''0123456789'' ! d"

fun natstr :: "nat \<Rightarrow> string" where
  "natstr n = (if n < 10 then [digit n] else natstr (n div 10) @ [digit (n mod 10)])"

declare natstr.simps [simp del]

definition itoa :: "int \<Rightarrow> string" where
  "itoa i = (if i < 0 then CHR ''-'' # natstr (nat (- i)) else natstr (nat i))"

definition dval :: "char \<Rightarrow> nat" where
  "dval c = of_char c - 48"

lemma less_10_cases:
  assumes "(d::nat) < 10"
  shows "d = 0 \<or> d = 1 \<or> d = 2 \<or> d = 3 \<or> d = 4 \<or> d = 5 \<or> d = 6 \<or> d = 7 \<or> d = 8 \<or> d = 9"
  using assms by arith

lemma dval_digit [simp]: "d < 10 \<Longrightarrow> dval (digit d) = d"
  by (drule less_10_cases, elim disjE) (simp_all add: digit_def dval_def)

lemma digit_plain: "d < 10 \<Longrightarrow> digit d \<noteq> CHR ''/'' \<and> digit d \<noteq> CHR ''-''"
  by (drule less_10_cases, elim disjE) (simp_all add: digit_def)

lemma unstr_natstr: "foldl (\<lambda>a c. 10 * a + dval c) 0 (natstr n) = n"
proof (induction n rule: natstr.induct)
  case (1 n)
  show ?case
  proof (cases "n < 10")
    case True
    then show ?thesis by (simp add: natstr.simps [of n])
  next
    case False
    then show ?thesis using 1 by (simp add: natstr.simps [of n])
  qed
qed

lemma natstr_inj [simp]: "natstr m = natstr n \<longleftrightarrow> m = n"
  by (metis unstr_natstr)

lemma natstr_plain: "CHR ''/'' \<notin> set (natstr n) \<and> CHR ''-'' \<notin> set (natstr n)"
proof (induction n rule: natstr.induct)
  case (1 n)
  have "n mod 10 < 10" by simp
  then show ?case
    using 1 digit_plain [of n] digit_plain [of "n mod 10"]
    by (cases "n < 10") (auto simp: natstr.simps [of n])
qed

lemma natstr_digits: "set (natstr n) \<subseteq> set ''0123456789''"
proof (induction n rule: natstr.induct)
  case (1 n)
  have d: "digit d \<in> set ''0123456789''" if "d < 10" for d
    using less_10_cases [OF that] by (elim disjE) (simp_all add: digit_def)
  have "n mod 10 < 10" by simp
  then show ?case using 1 d [of n] d [of "n mod 10"]
    by (cases "n < 10") (simp_all add: natstr.simps [of n])
qed

lemma itoa_inj [simp]: "itoa i = itoa j \<longleftrightarrow> i = j"
proof
  assume eq: "itoa i = itoa j"
  have no: "CHR ''-'' # xs \<noteq> natstr k" for xs k
    using natstr_plain [of k] by (metis list.set_intros(1))
  show "i = j"
    using eq no no [symmetric] by (auto simp: itoa_def split: if_splits)
qed simp

lemma itoa_no_slash [simp]: "CHR ''/'' \<notin> set (itoa i)"
  using natstr_plain by (auto simp: itoa_def)

section \<open>Maps\<close>

text \<open>Reading with the zero value, and the keys in sorted order.\<close>

definition mapGet :: "'v \<Rightarrow> ('k, 'v) fmap \<Rightarrow> 'k \<Rightarrow> 'v" where
  "mapGet z m k = (case fmlookup m k of None \<Rightarrow> z | Some v \<Rightarrow> v)"

lemma mapGet_upd [simp]: "mapGet z (fmupd k v m) k' = (if k = k' then v else mapGet z m k')"
  by (simp add: mapGet_def)

lemma mapGet_drop [simp]: "mapGet z (fmdrop k m) k' = (if k = k' then z else mapGet z m k')"
  by (simp add: mapGet_def)

lemma mapGet_empty [simp]: "mapGet z fmempty k = z"
  by (simp add: mapGet_def)

lemma mapGet_Some: "fmlookup m k = Some v \<Longrightarrow> mapGet z m k = v"
  by (simp add: mapGet_def)

lemma mapGet_None: "fmlookup m k = None \<Longrightarrow> mapGet z m k = z"
  by (simp add: mapGet_def)

definition hasKey :: "('k, 'v) fmap \<Rightarrow> 'k \<Rightarrow> bool" where
  "hasKey m k \<longleftrightarrow> fmlookup m k \<noteq> None"

lemma hasKey_upd [simp]: "hasKey (fmupd k v m) k' \<longleftrightarrow> k = k' \<or> hasKey m k'"
  by (simp add: hasKey_def)

lemma hasKey_drop [simp]: "hasKey (fmdrop k m) k' \<longleftrightarrow> k \<noteq> k' \<and> hasKey m k'"
  by (simp add: hasKey_def)

lemma hasKey_empty [simp]: "\<not> hasKey fmempty k"
  by (simp add: hasKey_def)

definition sortedKeys :: "('k::linorder, 'v) fmap \<Rightarrow> 'k list" where
  "sortedKeys m = sorted_list_of_fset (fmdom m)"

lemma set_sortedKeys [simp]: "set (sortedKeys m) = {k. hasKey m k}"
  by (auto simp: sortedKeys_def hasKey_def sorted_list_of_fset_simps fmlookup_dom'_iff
      simp flip: fmdom'_alt_def)

lemma distinct_sortedKeys [simp]: "distinct (sortedKeys m)"
  by (simp add: sortedKeys_def sorted_list_of_fset.rep_eq)

lemma sorted_sortedKeys [simp]: "sorted (sortedKeys m)"
  by (simp add: sortedKeys_def sorted_list_of_fset.rep_eq)

text \<open>The delete loop the store uses to drop every entry of one execution.\<close>

definition dropPrefix :: "(string, 'v) fmap \<Rightarrow> string \<Rightarrow> (string, 'v) fmap" where
  "dropPrefix m p = fmfilter (\<lambda>k. \<not> hasPrefix k p) m"

lemma dropPrefix_lookup [simp]:
  "fmlookup (dropPrefix m p) k = (if hasPrefix k p then None else fmlookup m k)"
  by (simp add: dropPrefix_def)

text \<open>Keeping the entries of a map that satisfy a test on key and value.\<close>

definition mapFilter :: "('k \<Rightarrow> 'v \<Rightarrow> bool) \<Rightarrow> ('k, 'v) fmap \<Rightarrow> ('k, 'v) fmap" where
  "mapFilter P m = fmfilter (\<lambda>k. case fmlookup m k of None \<Rightarrow> False | Some v \<Rightarrow> P k v) m"

lemma mapFilter_lookup [simp]:
  "fmlookup (mapFilter P m) k =
     (case fmlookup m k of None \<Rightarrow> None | Some v \<Rightarrow> if P k v then Some v else None)"
  by (simp add: mapFilter_def split: option.splits)

lemma mapFilter_empty [simp]: "mapFilter P fmempty = fmempty"
  by (rule fmap_ext) simp

lemma fmap_empty_iff: "m = fmempty \<longleftrightarrow> (\<forall>k. fmlookup m k = None)"
  by (metis fmap_ext fmempty_lookup)

lemma fmupd_not_empty [simp]: "fmupd k v m \<noteq> fmempty" "fmempty \<noteq> fmupd k v m"
  by (metis fmempty_lookup fmupd_lookup option.distinct(1))+

lemma sortedKeys_empty [simp]: "sortedKeys fmempty = []"
proof -
  have "set (sortedKeys fmempty) = {}" by simp
  then show ?thesis by (metis set_empty)
qed

section \<open>Folds\<close>

lemma fold_inv:
  assumes "\<And>x s. x \<in> set xs \<Longrightarrow> P s \<Longrightarrow> P (f x s)" "P s"
  shows "P (fold f xs s)"
  using assms by (induction xs arbitrary: s) simp_all

lemma fold_same:
  assumes "\<And>x s. g (f x s) = g s"
  shows "g (fold f xs s) = g s"
  by (induction xs arbitrary: s) (simp_all add: assms)

section \<open>Slices\<close>

text \<open>\<open>if limit > 0 && len(xs) > limit { xs = xs[:limit] }\<close>\<close>

definition clip :: "int \<Rightarrow> 'a list \<Rightarrow> 'a list" where
  "clip limit xs = (if limit > 0 \<and> int (length xs) > limit then take (nat limit) xs else xs)"

lemma set_clip: "set (clip limit xs) \<subseteq> set xs"
  by (auto simp: clip_def dest: in_set_takeD)

lemma clip_Nil [simp]: "clip limit [] = []"
  by (simp add: clip_def)

lemma length_clip: "limit > 0 \<Longrightarrow> int (length (clip limit xs)) \<le> limit"
  by (simp add: clip_def)

lemma distinct_clip: "distinct xs \<Longrightarrow> distinct (clip limit xs)"
  by (simp add: clip_def)

section \<open>Instants\<close>

definition zeroTime :: Time where
  "zeroTime = 0"

definition IsZero :: "Time \<Rightarrow> bool" where
  "IsZero t \<longleftrightarrow> t = 0"

text \<open>Nanoseconds from the zero time (1 January of the year 1, UTC) to the Unix
  epoch, and \<open>UnixMilli\<close>, which rounds towards minus infinity.\<close>

definition unixEpoch :: Time where
  "unixEpoch = 62135596800000000000"

definition UnixMilli :: "Time \<Rightarrow> int" where
  "UnixMilli t = (t - unixEpoch) div 1000000"

definition time_UnixMilli :: "int \<Rightarrow> Time" where
  "time_UnixMilli ms = unixEpoch + ms * 1000000"

lemma UnixMilli_time [simp]: "UnixMilli (time_UnixMilli ms) = ms"
  by (simp add: UnixMilli_def time_UnixMilli_def)

lemma UnixMilli_mono: "s \<le> t \<Longrightarrow> UnixMilli s \<le> UnixMilli t"
  by (simp add: UnixMilli_def zdiv_mono1)

lemma time_UnixMilli_le: "time_UnixMilli (UnixMilli t) \<le> t"
  by (simp add: UnixMilli_def time_UnixMilli_def minus_mod_eq_mult_div [symmetric]
      mult.commute)

section \<open>Results\<close>

type_synonym ('e, 'a) result = "'e + 'a"

definition isOk :: "('e, 'a) result \<Rightarrow> bool" where
  "isOk r \<longleftrightarrow> (case r of Inl _ \<Rightarrow> False | Inr _ \<Rightarrow> True)"

lemma isOk_simps [simp]: "\<not> isOk (Inl e)" "isOk (Inr a)"
  by (simp_all add: isOk_def)

end
