(* ===== verification/GraphModel.thy ===== *)
theory GraphModel
  imports Prelude "HOL-Library.Monad_Syntax" "HOL-Library.Product_Lexorder"
begin

text \<open>
  The compiled graph (engine/graph/graph.go) and its durable units
  (engine/graph/unit.go).  A Go index expression that is out of range panics;
  \<open>idx\<close> returns \<^term>\<open>None\<close> there, and an operation of type option is one
  that can panic.  The node-body, sub-workflow and supply packages of a node are
  not part of the record: no operation modelled here reads them.
\<close>

section \<open>Data\<close>

record RunnerSelector =
  rs_Mode :: string
  rs_MatchLabels :: "(string, string) fmap"

text \<open>The retry multiplier is a float64 that no operation below computes with,
  so it is left out.\<close>

record RetrySettings =
  rt_Enabled :: "bool option"
  rt_MaxAttempts :: int
  rt_Strategy :: string
  rt_InitialInterval :: int
  rt_MaxInterval :: int

definition IsEnabled :: "RetrySettings option \<Rightarrow> bool" where
  "IsEnabled r = (case r of None \<Rightarrow> False
     | Some s \<Rightarrow> (rt_Enabled s = None \<or> rt_Enabled s = Some True) \<and> rt_MaxAttempts s > 0)"

record ConcurrencySettings =
  cs_Limit :: int
  cs_Mode :: string
  cs_MaxQueued :: int
  cs_QueueTimeout :: Duration

record NodeMeta =
  nm_Name :: string
  nm_Type :: string
  nm_Kind :: string
  nm_Version :: int
  nm_OnError :: string
  nm_PrivateOutput :: bool
  nm_RunnerSelector :: "RunnerSelector option"
  nm_MergeMode :: string
  nm_Parameters :: "(string, any) fmap"
  nm_PortOuts :: "string list"
  nm_Retry :: "RetrySettings option"
  nm_Timeout :: Duration
  nm_GroupIdx :: int
  nm_ActivationReplicas :: int
  nm_PinOutput :: data
  nm_Disabled :: bool

record Edge =
  e_SrcIdx :: int
  e_DstIdx :: int
  e_SrcPort :: string
  e_DstPort :: string

datatype UnitKind = UnitNode | UnitGroup

record UnitMeta =
  um_Kind :: UnitKind
  um_Name :: string
  um_NodeIdx :: int
  um_GroupIdx :: int
  um_RunnerSelector :: "RunnerSelector option"
  um_Retry :: "RetrySettings option"
  um_Timeout :: Duration
  um_ActivationReplicas :: int

record BoundaryEndpoint =
  be_NodeIdx :: int
  be_Port :: string

record UnitEdge =
  ue_SrcUnit :: int
  ue_DstUnit :: int
  ue_Src :: BoundaryEndpoint
  ue_Dst :: BoundaryEndpoint
  ue_ErrorEdge :: bool

record BoundaryEdge =
  bd_Src :: BoundaryEndpoint
  bd_Dst :: BoundaryEndpoint
  bd_SrcUnit :: int
  bd_DstUnit :: int

record GroupMeta =
  gm_Name :: string
  gm_Members :: "int list"
  gm_EntryIdx :: int
  gm_UnitIdx :: int
  gm_Trigger :: bool
  gm_BoundaryInputs :: "BoundaryEdge list"
  gm_BoundaryOutputs :: "BoundaryEdge list"
  gm_RunnerSelector :: "RunnerSelector option"
  gm_OnError :: string
  gm_ErrorOutputs :: "BoundaryEndpoint list"
  gm_Retry :: "RetrySettings option"
  gm_Timeout :: Duration
  gm_Mode :: string
  gm_ActivationReplicas :: int

record Graph =
  g_name :: string
  g_nodes :: "NodeMeta list"
  g_index :: "(string, int) fmap"
  g_outEdges :: "Edge list list"
  g_inEdges :: "Edge list list"
  g_inDegree :: "int list"
  g_allowCycles :: bool
  g_startIdx :: int
  g_maxAutoDepth :: int
  g_transient :: bool
  g_timeout :: Duration
  g_concurrency :: "ConcurrencySettings option"
  g_hasDisabled :: bool
  g_groups :: "GroupMeta list"
  g_units :: "UnitMeta list"
  g_unitOutEdges :: "UnitEdge list list"
  g_unitInEdges :: "UnitEdge list list"
  g_unitInDegree :: "int list"
  g_nodeUnit :: "int list"

section \<open>Index expressions and accessors\<close>

definition idx :: "'a list \<Rightarrow> int \<Rightarrow> 'a option" where
  "idx xs i = (if 0 \<le> i \<and> i < int (length xs) then Some (xs ! nat i) else None)"

lemma idx_Some_iff: "idx xs i = Some x \<longleftrightarrow> 0 \<le> i \<and> i < int (length xs) \<and> x = xs ! nat i"
  by (auto simp: idx_def)

lemma idx_nat [simp]: "n < length xs \<Longrightarrow> idx xs (int n) = Some (xs ! n)"
  by (simp add: idx_def)

definition NodeCount :: "Graph \<Rightarrow> int" where
  "NodeCount g = int (length (g_nodes g))"

definition UnitCount :: "Graph \<Rightarrow> int" where
  "UnitCount g = int (length (g_units g))"

definition NodeIndex :: "Graph \<Rightarrow> string \<Rightarrow> int option" where
  "NodeIndex g name = fmlookup (g_index g) name"

definition NodeDisabled :: "Graph \<Rightarrow> int \<Rightarrow> bool" where
  "NodeDisabled g i = (if i < 0 \<or> i \<ge> NodeCount g then False else nm_Disabled (g_nodes g ! nat i))"

definition PinnedOutput :: "Graph \<Rightarrow> int \<Rightarrow> data" where
  "PinnedOutput g i = (if i < 0 \<or> i \<ge> NodeCount g then None else nm_PinOutput (g_nodes g ! nat i))"

definition UnitKindAt :: "Graph \<Rightarrow> int \<Rightarrow> UnitKind option" where
  "UnitKindAt g i = map_option um_Kind (idx (g_units g) i)"

definition UnitNodeIndex :: "Graph \<Rightarrow> int \<Rightarrow> int option" where
  "UnitNodeIndex g i = do {
     u \<leftarrow> idx (g_units g) i;
     if um_Kind u \<noteq> UnitNode then None else Some (um_NodeIdx u) }"

definition GroupMetaAt :: "Graph \<Rightarrow> int \<Rightarrow> GroupMeta option" where
  "GroupMetaAt g i = do {
     u \<leftarrow> idx (g_units g) i;
     if um_Kind u \<noteq> UnitGroup then None else idx (g_groups g) (um_GroupIdx u) }"

definition UnitMergeMode :: "Graph \<Rightarrow> int \<Rightarrow> string option" where
  "UnitMergeMode g i = do {
     u \<leftarrow> idx (g_units g) i;
     if um_Kind u = UnitGroup then Some ''''
     else map_option nm_MergeMode (idx (g_nodes g) (um_NodeIdx u)) }"

end
