(* ===== verification/EngineTypes.thy ===== *)
theory EngineTypes
  imports GraphModel
begin

text \<open>
  The engine's data types: statuses (types/execution.go), suspension and signals
  (types/suspend.go), tasks, leases and snapshots (engine/types.go), and the
  requests and results of the atomic store interface (engine/atomic.go).

  A Go pointer field is an option.  A string-typed enumeration is a datatype
  whose extra constructor \<open>...Empty\<close> is the empty string, the zero value.
\<close>

type_synonym ExecutionID = string
type_synonym LeaseID = string
type_synonym LeaseToken = string

section \<open>Statuses\<close>

datatype ExecutionStatus =
    ExecutionStatusEmpty
  | ExecutionStatusPending
  | ExecutionStatusRunning
  | ExecutionStatusSuccess
  | ExecutionStatusFailed
  | ExecutionStatusCanceling
  | ExecutionStatusCanceled
  | ExecutionStatusTimeout
  | ExecutionStatusQueued
  | ExecutionStatusPaused

datatype NodeStatus =
    NodeStatusEmpty
  | NodeStatusPending
  | NodeStatusRunning
  | NodeStatusCommitting
  | NodeStatusSuccess
  | NodeStatusFailed
  | NodeStatusSkipped
  | NodeStatusSuspended
  | NodeStatusContinued
  | NodeStatusCanceled
  | NodeStatusWaiting
  | NodeStatusPinned
  | NodeStatusExpired

fun IsTerminalExecutionStatus :: "ExecutionStatus \<Rightarrow> bool" where
  "IsTerminalExecutionStatus ExecutionStatusSuccess = True"
| "IsTerminalExecutionStatus ExecutionStatusFailed = True"
| "IsTerminalExecutionStatus ExecutionStatusCanceled = True"
| "IsTerminalExecutionStatus ExecutionStatusTimeout = True"
| "IsTerminalExecutionStatus _ = False"

fun IsTerminalNodeStatus :: "NodeStatus \<Rightarrow> bool" where
  "IsTerminalNodeStatus NodeStatusSuccess = True"
| "IsTerminalNodeStatus NodeStatusFailed = True"
| "IsTerminalNodeStatus NodeStatusSkipped = True"
| "IsTerminalNodeStatus NodeStatusCanceled = True"
| "IsTerminalNodeStatus NodeStatusContinued = True"
| "IsTerminalNodeStatus NodeStatusPinned = True"
| "IsTerminalNodeStatus _ = False"

definition TriggerKindFromNodeType :: "string \<Rightarrow> string" where
  "TriggerKindFromNodeType nodeType =
     (if nodeType = ''xflow.trigger.timer'' then ''timer''
      else if nodeType = ''xflow.trigger.cron'' then ''cron''
      else if nodeType = ''xflow.trigger.webhook'' then ''webhook''
      else if nodeType = ''xflow.trigger.kafka'' then ''kafka''
      else if nodeType = ''xflow.trigger.redis'' then ''redis''
      else '''')"

section \<open>Suspension and signals\<close>

datatype SuspendMode = ModeSignal | ModeTimer | ModeMultiSignal

record SuspendSpec =
  ss_Mode :: SuspendMode
  ss_Signals :: "string list"
  ss_Quorum :: int
  ss_Timer :: Duration
  ss_Timeout :: Duration
  ss_StripFromOutput :: "string list"

datatype SignalTrigger = SignalReceived | TimeoutFired | TimerFired

record SignalPayload =
  sp_Triggered :: SignalTrigger
  sp_Name :: string
  sp_Data :: data
  sp_All :: "(string, data) fmap option"

section \<open>Tasks and leases\<close>

datatype TaskType =
    TaskTypeNodeExec
  | TaskTypeNodeResume
  | TaskTypeNodeAdvance
  | TaskTypeNodeSkip
  | TaskTypeNodeBatch
  | TaskTypeGroupExec
  | TaskTypeSubWorkflow
  | TaskTypeMergeCancel

record Task =
  t_ExecutionID :: ExecutionID
  t_NodeName :: string
  t_NodeIdx :: int
  t_Type :: TaskType
  t_Payload :: "SignalPayload option"
  t_AutoDepth :: int
  t_ActivationID :: int
  t_Port :: "string option"
  t_UnitIdx :: int
  t_DeliverableAt :: Time
  t_IntentCreatedAt :: Time
  t_Generation :: int

text \<open>The zero task, the base of every Go composite literal that names only
  some of the fields.\<close>

definition emptyTask :: Task where
  "emptyTask = \<lparr> t_ExecutionID = '''', t_NodeName = '''', t_NodeIdx = 0, t_Type = TaskTypeNodeExec,
     t_Payload = None, t_AutoDepth = 0, t_ActivationID = 0, t_Port = None, t_UnitIdx = 0,
     t_DeliverableAt = 0, t_IntentCreatedAt = 0, t_Generation = 0 \<rparr>"

datatype CommitOutcome =
    CommitOutcomeEmpty
  | CommitOutcomeAccepted
  | CommitOutcomeDuplicateTerminal
  | CommitOutcomeStaleToken
  | CommitOutcomeExecutionInactive
  | CommitOutcomeTransientError

fun ReleasesLeasedCapacity :: "CommitOutcome \<Rightarrow> bool" where
  "ReleasesLeasedCapacity CommitOutcomeAccepted = True"
| "ReleasesLeasedCapacity CommitOutcomeDuplicateTerminal = True"
| "ReleasesLeasedCapacity CommitOutcomeStaleToken = True"
| "ReleasesLeasedCapacity CommitOutcomeExecutionInactive = True"
| "ReleasesLeasedCapacity _ = False"

text \<open>The fields of a lease the store reads; the runner-facing payloads (input,
  trace carrier, group and sub-graph packages) are not part of it.\<close>

record TaskLease =
  tl_LeaseID :: LeaseID
  tl_LeaseToken :: LeaseToken
  tl_Attempt :: int
  tl_Task :: Task
  tl_IssuedAt :: Time
  tl_TTL :: Duration
  tl_ExecutionDeadline :: Time

definition Deadline :: "TaskLease \<Rightarrow> Time" where
  "Deadline l = (if IsZero (tl_IssuedAt l) \<or> tl_TTL l \<le> 0 then zeroTime
                 else tl_IssuedAt l + tl_TTL l)"

section \<open>Snapshots\<close>

record ExecutionSnapshot =
  es_ID :: ExecutionID
  es_Graph :: "Graph option"
  es_Status :: ExecutionStatus
  es_Params :: data
  es_WorkflowID :: string
  es_WorkflowVersion :: string
  es_DefinitionHash :: string
  es_CreatedAt :: Time
  es_UpdatedAt :: Time
  es_Deadline :: Time
  es_RuntimeVars :: data
  es_Scope :: data
  es_TraceID :: string
  es_SpanID :: string
  es_ParentID :: ExecutionID
  es_ParentNode :: string
  es_Depth :: int
  es_RerunFrom :: string
  es_Namespace :: string
  es_TriggerKind :: string
  es_Error :: string
  es_TestRun :: bool

text \<open>The zero snapshot.\<close>

definition zeroExecution :: ExecutionSnapshot where
  "zeroExecution = \<lparr> es_ID = '''', es_Graph = None, es_Status = ExecutionStatusEmpty, es_Params = None,
     es_WorkflowID = '''', es_WorkflowVersion = '''', es_DefinitionHash = '''', es_CreatedAt = zeroTime,
     es_UpdatedAt = zeroTime, es_Deadline = zeroTime, es_RuntimeVars = None, es_Scope = None, es_TraceID = '''',
     es_SpanID = '''', es_ParentID = '''', es_ParentNode = '''', es_Depth = 0, es_RerunFrom = '''',
     es_Namespace = '''', es_TriggerKind = '''', es_Error = '''', es_TestRun = False \<rparr>"

definition ExecutionTriggerKind :: "ExecutionSnapshot option \<Rightarrow> string" where
  "ExecutionTriggerKind s = (case s of None \<Rightarrow> ''''
     | Some e \<Rightarrow> if es_TriggerKind e \<noteq> '''' then es_TriggerKind e
                 else if es_RerunFrom e \<noteq> '''' then ''rerun''
                 else if es_ParentID e \<noteq> '''' then ''subworkflow''
                 else ''api'')"

definition TerminalExecutionError :: "ExecutionStatus \<Rightarrow> string \<Rightarrow> string \<Rightarrow> string" where
  "TerminalExecutionError status nodeErr cyclicErr =
     (if status \<noteq> ExecutionStatusFailed then ''''
      else if cyclicErr \<noteq> '''' then cyclicErr
      else nodeErr)"

record NodeSnapshot =
  ns_ExecutionID :: ExecutionID
  ns_Name :: string
  ns_NodeIdx :: int
  ns_UnitIdx :: int
  ns_Status :: NodeStatus
  ns_LeaseID :: LeaseID
  ns_LeaseToken :: LeaseToken
  ns_Attempt :: int
  ns_ActivationID :: int
  ns_AutoDepth :: int
  ns_LeaseIssuedAt :: Time
  ns_LeaseTTL :: Duration
  ns_LeaseTaskType :: TaskType
  ns_LeasePayload :: "SignalPayload option"
  ns_LeaseGeneration :: int
  ns_CommittedLeaseToken :: LeaseToken
  ns_CommittedAttempt :: int
  ns_StartedAt :: Time
  ns_FinishedAt :: Time
  ns_Output :: data
  ns_PrivateOutput :: bool
  ns_Port :: string
  ns_Error :: string
  ns_ErrorDetails :: data
  ns_ChildExecutionID :: ExecutionID

definition emptyNode :: NodeSnapshot where
  "emptyNode = \<lparr> ns_ExecutionID = '''', ns_Name = '''', ns_NodeIdx = 0, ns_UnitIdx = 0,
     ns_Status = NodeStatusEmpty, ns_LeaseID = '''', ns_LeaseToken = '''', ns_Attempt = 0,
     ns_ActivationID = 0, ns_AutoDepth = 0, ns_LeaseIssuedAt = 0, ns_LeaseTTL = 0,
     ns_LeaseTaskType = TaskTypeNodeExec, ns_LeasePayload = None, ns_LeaseGeneration = 0,
     ns_CommittedLeaseToken = '''', ns_CommittedAttempt = 0, ns_StartedAt = 0, ns_FinishedAt = 0,
     ns_Output = None, ns_PrivateOutput = False, ns_Port = '''', ns_Error = '''',
     ns_ErrorDetails = None, ns_ChildExecutionID = '''' \<rparr>"

record ExpiredLease =
  xl_ExecutionID :: ExecutionID
  xl_NodeName :: string
  xl_NodeIdx :: int
  xl_UnitIdx :: int
  xl_LeaseID :: LeaseID
  xl_LeaseToken :: LeaseToken
  xl_IssuedAt :: Time
  xl_TTL :: Duration
  xl_ActivationID :: int
  xl_AutoDepth :: int
  xl_TaskType :: TaskType
  xl_Payload :: "SignalPayload option"
  xl_Generation :: int

record SubExecution =
  sx_ParentExecID :: ExecutionID
  sx_ParentNode :: string
  sx_ChildExecID :: ExecutionID
  sx_BatchIndex :: int
  sx_Status :: ExecutionStatus
  sx_Result :: data

record ExecutionEvent =
  ev_ExecutionID :: ExecutionID
  ev_Status :: ExecutionStatus
  ev_Error :: string
  ev_Data :: data

section \<open>The atomic store interface\<close>

record OutboxEntry =
  oe_ID :: string
  oe_Task :: Task
  oe_AvailableAt :: Time
  oe_CreatedAt :: Time
  oe_Attempts :: int
  oe_LeasedFromScoreMs :: int
  oe_LeaseDeadlineMs :: int

record DownstreamArrival =
  da_NodeName :: string
  da_NodeIdx :: int
  da_UnitIdx :: int
  da_ArrivalCount :: int
  da_ActiveCount :: int
  da_MergeMode :: string
  da_ExecTaskType :: TaskType

record CommitNodeRequest =
  cn_ExecutionID :: ExecutionID
  cn_NodeName :: string
  cn_NodeIdx :: int
  cn_UnitIdx :: int
  cn_ActivationID :: int
  cn_AutoDepth :: int
  cn_LeaseID :: LeaseID
  cn_LeaseToken :: LeaseToken
  cn_Attempt :: int
  cn_Status :: NodeStatus
  cn_Output :: data
  cn_StoreOutput :: bool
  cn_ReclaimOutputNames :: "string list"
  cn_PrivateOutput :: bool
  cn_Port :: string
  cn_Error :: string
  cn_ErrorDetails :: data
  cn_System :: bool
  cn_Fatal :: bool
  cn_AdvanceTask :: "Task option"
  cn_MergeCancel :: "Task option"
  cn_Arrivals :: "DownstreamArrival list"
  cn_AllowCycles :: bool
  cn_CyclicOutbox :: "OutboxEntry list"
  cn_CyclicComplete :: bool
  cn_CyclicFinalStatus :: ExecutionStatus
  cn_CyclicFinalError :: string

record SkippedUnit =
  su_NodeName :: string
  su_Count :: int

record CommitNodeResult =
  cr_Outcome :: CommitOutcome
  cr_Applied :: bool
  cr_ExecutionDone :: bool
  cr_ExecutionStatus :: ExecutionStatus
  cr_OutboxIDs :: "string list"
  cr_Skipped :: "SkippedUnit list"

record AdvanceNodeRequest =
  an_ExecutionID :: ExecutionID
  an_NodeName :: string
  an_NodeIdx :: int
  an_ActivationID :: int
  an_AutoDepth :: int
  an_Arrivals :: "DownstreamArrival list"

record AdvanceNodeResult =
  ar_Applied :: bool
  ar_OutboxIDs :: "string list"
  ar_Skipped :: "SkippedUnit list"

section \<open>Errors\<close>

datatype CommitRequestError =
    ArrivalsOnCyclic
  | ArrivalsOnFatal
  | ArrivalsWithAdvance
  | MergeCancelWithAdvance
  | MergeCancelMisplaced
  | ReclaimMisplaced
  | FatalOnCyclic
  | AdvanceOnCyclic
  | CyclicOutboxOnAcyclic
  | CyclicCompleteOnAcyclic

datatype StoreError =
    ErrConcurrencyLimit
  | ErrConcurrencyQueueFull
  | ErrInvalidLeaseToken
  | ErrExecutionNotPausable
  | ErrExecutionNotPaused
  | ErrStoreCreate
  | ErrStoreExecutionExists
  | ErrEmptyOutboxID
  | ErrCommitRequest CommitRequestError
  | ErrOther string

text \<open>The checks of \<open>CommitNodeRequest.Validate\<close>, in the order of the source.\<close>

definition onlySuccessfulAcyclic :: "CommitNodeRequest \<Rightarrow> bool" where
  "onlySuccessfulAcyclic r \<longleftrightarrow>
     \<not> (cn_AllowCycles r \<or> cn_Fatal r \<or> cn_System r \<or> cn_Status r \<noteq> NodeStatusSuccess)"

definition Validate :: "CommitNodeRequest \<Rightarrow> CommitRequestError option" where
  "Validate r =
     (if cn_Arrivals r \<noteq> [] \<and> cn_AllowCycles r then Some ArrivalsOnCyclic
      else if cn_Arrivals r \<noteq> [] \<and> cn_Fatal r then Some ArrivalsOnFatal
      else if cn_Arrivals r \<noteq> [] \<and> cn_AdvanceTask r \<noteq> None then Some ArrivalsWithAdvance
      else if cn_MergeCancel r \<noteq> None \<and> cn_AdvanceTask r \<noteq> None then Some MergeCancelWithAdvance
      else if cn_MergeCancel r \<noteq> None \<and> \<not> onlySuccessfulAcyclic r then Some MergeCancelMisplaced
      else if cn_ReclaimOutputNames r \<noteq> [] \<and> \<not> onlySuccessfulAcyclic r then Some ReclaimMisplaced
      else if cn_AllowCycles r then
        (if cn_Fatal r then Some FatalOnCyclic
         else if cn_AdvanceTask r \<noteq> None then Some AdvanceOnCyclic
         else None)
      else if cn_CyclicOutbox r \<noteq> [] then Some CyclicOutboxOnAcyclic
      else if cn_CyclicComplete r then Some CyclicCompleteOnAcyclic
      else None)"

section \<open>Facts about statuses and requests\<close>

lemma terminal_statuses:
  "IsTerminalExecutionStatus s \<longleftrightarrow>
     s \<in> {ExecutionStatusSuccess, ExecutionStatusFailed, ExecutionStatusCanceled, ExecutionStatusTimeout}"
  by (cases s) auto

lemma Validate_one_scheduler:
  assumes "Validate r = None"
  shows "(cn_AllowCycles r \<longrightarrow> cn_Arrivals r = [] \<and> cn_AdvanceTask r = None \<and> \<not> cn_Fatal r)
       \<and> (\<not> cn_AllowCycles r \<longrightarrow> cn_CyclicOutbox r = [] \<and> \<not> cn_CyclicComplete r)
       \<and> (cn_Arrivals r = [] \<or> cn_AdvanceTask r = None)"
  using assms by (auto simp: Validate_def split: if_splits)

end
