(* ===== verification/MemoryState.thy ===== *)
theory MemoryState
  imports EngineTypes
begin

text \<open>
  The state of the in-memory store (backend/providers/local/memory_state.go), its
  key builders, the execution event channels and the bookkeeping of the durable
  mirror (store_mirror.go).

  Every exported operation of the store runs its state change in one critical
  section; an operation of the model is that critical section, as a function on
  the record.  \<open>now\<close> is the wall clock the section reads.  Three fields are
  not fields of the Go struct: \<open>chans\<close> and \<open>nextChan\<close> are the heap of the event
  channels the struct points to, and \<open>panicked\<close> records that a Go run-time panic
  (a send on, or a close of, a closed channel) would have happened.  A slot set
  is named by its key instead of by a pointer: \<open>slotHolders\<close> and the queue
  entries hold the key of the set in \<open>workflowSlots\<close>.
\<close>

section \<open>Component records\<close>

record execEntry =
  snap :: ExecutionSnapshot
  closed :: bool

record memoryDeadLetterMeta =
  dm_node :: string
  dm_activation :: string
  dm_intent :: string

record memoryOutboxEntry =
  mo_entry :: OutboxEntry
  mo_leasedUntil :: Time
  mo_deadMeta :: "memoryDeadLetterMeta option"

datatype DeadLetterReplayOutcome =
    ReplayReplayed
  | ReplayAlreadyReplayed
  | ReplayNotFound
  | ReplayRejectedTerminal
  | ReplayRejectedInactive
  | ReplayRejectedNodeTerminal
  | ReplayRejectedActivationMismatch
  | ReplayRejectedMetadataMissing

record memoryReplayReceipt =
  rr_auditID :: string
  rr_node :: string
  rr_activation :: string
  rr_entryID :: string
  rr_operator :: string
  rr_reason :: string
  rr_outcome :: DeadLetterReplayOutcome
  rr_occurredAtMs :: int

record workflowSlot =
  ws_key :: string
  ws_holders :: "ExecutionID fset"
  ws_limit :: int
  ws_queued :: "ExecutionID list"

record queuedExecution =
  qe_slot :: string
  qe_deadline :: Time

record SubWorkflowLink =
  sl_ChildExecutionID :: ExecutionID
  sl_ParentNode :: string
  sl_Generation :: int
  sl_Depth :: int
  sl_WaitDeadline :: Time
  sl_LeaseID :: LeaseID
  sl_LeaseToken :: LeaseToken
  sl_Attempt :: int
  sl_ActivationID :: int

record SubWorkflowConclusion =
  sc_ChildExecutionID :: ExecutionID
  sc_Status :: ExecutionStatus
  sc_Error :: string
  sc_Output :: data

datatype groupUnitStatus =
    groupUnitPending
  | groupUnitRunning
  | groupUnitDone
  | groupUnitSuspended

record groupUnitState =
  gu_status :: groupUnitStatus
  gu_leaseID :: LeaseID
  gu_leaseToken :: LeaseToken
  gu_attempt :: int
  gu_deadline :: Time
  gu_committedToken :: LeaseToken
  gu_execID :: ExecutionID
  gu_unitIdx :: int
  gu_groupName :: string
  gu_entryNodeIdx :: int
  gu_activationID :: int
  gu_issuedAt :: Time
  gu_ttl :: Duration

record admissionEntry =
  ae_executionID :: ExecutionID
  ae_resultHash :: string

record idempotencyClaim =
  ic_fingerprint :: string
  ic_token :: string
  ic_confirmed :: bool
  ic_leaseUntil :: Time
  ic_expiresAt :: Time

record eventChan =
  ch_buf :: "ExecutionEvent list"
  ch_closed :: bool

section \<open>The store\<close>

record memoryState =
  executions :: "(ExecutionID, execEntry) fmap"
  nodes :: "(string, NodeSnapshot) fmap"
  inDegrees :: "(string, int) fmap"
  activeIns :: "(string, int) fmap"
  remaining :: "(ExecutionID, int) fmap"
  failed :: "(ExecutionID, int) fmap"
  advanced :: "(string, bool) fmap"
  scheduled :: "(string, string) fmap"
  outbox :: "(ExecutionID, (string, memoryOutboxEntry) fmap) fmap"
  deadOutbox :: "(ExecutionID, (string, memoryOutboxEntry) fmap) fmap"
  replayReceipts :: "(ExecutionID, (string, memoryReplayReceipt) fmap) fmap"
  replayEntryIdx :: "(ExecutionID, (string, string) fmap) fmap"
  outputs :: "(string, data) fmap"
  privateOutputs :: "(string, bool) fmap"
  suspended :: "(string, SuspendSpec) fmap"
  signals :: "(string, data) fmap"
  signalSets :: "(string, (string, data) fmap) fmap"
  resumed :: "(string, bool) fmap"
  subExecs :: "(string, SubExecution list) fmap"
  subWorkflowLinks :: "(string, SubWorkflowLink) fmap"
  subWorkflowConclusions :: "(string, SubWorkflowConclusion) fmap"
  groupUnits :: "(string, groupUnitState) fmap"
  admissions :: "(string, admissionEntry) fmap"
  idempotency :: "(ExecutionID, idempotencyClaim) fmap"
  workflowSlots :: "(string, workflowSlot) fmap"
  slotHolders :: "(ExecutionID, string) fmap"
  queued :: "(ExecutionID, queuedExecution) fmap"
  doneCh :: "(ExecutionID, bool) fmap"
  eventWatchers :: "(ExecutionID, nat list) fmap"
  cancelingSince :: "(ExecutionID, Time) fmap"
  db :: bool
  mirrorLocks :: "(ExecutionID, int) fmap"
  mirrorSkip :: "(ExecutionID, bool) fmap"
  mirrorCreatePending :: "(ExecutionID, bool) fmap"
  mirrorConflict :: "(ExecutionID, bool) fmap"
  rolledBack :: "(ExecutionID, bool) fmap"
  deadlines :: "(ExecutionID, Time) fmap"
  chans :: "(nat, eventChan) fmap"
  nextChan :: nat
  panicked :: bool

definition newMemoryState :: "bool \<Rightarrow> memoryState" where
  "newMemoryState withStore = \<lparr>
     executions = fmempty, nodes = fmempty, inDegrees = fmempty, activeIns = fmempty,
     remaining = fmempty, failed = fmempty, advanced = fmempty, scheduled = fmempty,
     outbox = fmempty, deadOutbox = fmempty, replayReceipts = fmempty, replayEntryIdx = fmempty,
     outputs = fmempty, privateOutputs = fmempty, suspended = fmempty, signals = fmempty,
     signalSets = fmempty, resumed = fmempty, subExecs = fmempty, subWorkflowLinks = fmempty,
     subWorkflowConclusions = fmempty, groupUnits = fmempty, admissions = fmempty,
     idempotency = fmempty, workflowSlots = fmempty, slotHolders = fmempty, queued = fmempty,
     doneCh = fmempty, eventWatchers = fmempty, cancelingSince = fmempty, db = withStore,
     mirrorLocks = fmempty, mirrorSkip = fmempty, mirrorCreatePending = fmempty,
     mirrorConflict = fmempty, rolledBack = fmempty, deadlines = fmempty,
     chans = fmempty, nextChan = 0, panicked = False \<rparr>"

section \<open>Keys\<close>

definition memoryNodeKey :: "ExecutionID \<Rightarrow> string \<Rightarrow> string" where
  "memoryNodeKey eid name = eid @ ''/'' @ name"

definition memoryCounterKey :: "ExecutionID \<Rightarrow> int \<Rightarrow> string" where
  "memoryCounterKey eid unitIdx = eid @ ''/'' @ itoa unitIdx"

definition memoryAdvanceKey :: "ExecutionID \<Rightarrow> string \<Rightarrow> int \<Rightarrow> string" where
  "memoryAdvanceKey eid name activationID = eid @ ''/'' @ name @ ''/'' @ itoa activationID"

definition intentID :: "string \<Rightarrow> ExecutionID \<Rightarrow> string \<Rightarrow> int \<Rightarrow> string" where
  "intentID kind eid name activationID = kind @ ''/'' @ eid @ ''/'' @ name @ ''/'' @ itoa activationID"

definition advanceOutboxID :: "ExecutionID \<Rightarrow> string \<Rightarrow> int \<Rightarrow> string" where
  "advanceOutboxID eid name activationID = intentID ''advance'' eid name activationID"

definition mergeCancelOutboxID :: "ExecutionID \<Rightarrow> string \<Rightarrow> int \<Rightarrow> string" where
  "mergeCancelOutboxID eid name activationID = intentID ''mergecancel'' eid name activationID"

definition executeOutboxID :: "ExecutionID \<Rightarrow> string \<Rightarrow> int \<Rightarrow> string" where
  "executeOutboxID eid name activationID = intentID ''execute'' eid name activationID"

definition skipOutboxID :: "ExecutionID \<Rightarrow> string \<Rightarrow> int \<Rightarrow> string" where
  "skipOutboxID eid name activationID = intentID ''skip'' eid name activationID"

text \<open>The hold stamped on intents that must not be delivered yet: midnight of
  1 January 9999.\<close>

definition queuedOutboxHold :: Time where
  "queuedOutboxHold = 315506361600000000000"

lemma queuedOutboxHold_nonzero [simp]: "queuedOutboxHold \<noteq> 0" "\<not> IsZero queuedOutboxHold"
  by (simp_all add: queuedOutboxHold_def IsZero_def)

text \<open>Execution identifiers never contain the separator; then a composite key
  names one execution and one node, counter or activation.\<close>

definition plainID :: "ExecutionID \<Rightarrow> bool" where
  "plainID eid \<longleftrightarrow> CHR ''/'' \<notin> set eid"

lemma memoryNodeKey_inj:
  "plainID a \<Longrightarrow> plainID b \<Longrightarrow> memoryNodeKey a x = memoryNodeKey b y \<longleftrightarrow> a = b \<and> x = y"
  using sep_append_inj [of "CHR ''/''" a b x y] by (auto simp: memoryNodeKey_def plainID_def)

lemma memoryCounterKey_inj:
  "plainID a \<Longrightarrow> plainID b \<Longrightarrow> memoryCounterKey a i = memoryCounterKey b j \<longleftrightarrow> a = b \<and> i = j"
  using sep_append_inj [of "CHR ''/''" a b "itoa i" "itoa j"]
  by (auto simp: memoryCounterKey_def plainID_def)

lemma memoryCounterKey_same [simp]: "memoryCounterKey a i = memoryCounterKey a j \<longleftrightarrow> i = j"
  by (simp add: memoryCounterKey_def)

lemma memoryNodeKey_same [simp]: "memoryNodeKey a x = memoryNodeKey a y \<longleftrightarrow> x = y"
  by (simp add: memoryNodeKey_def)

lemma memoryNodeKey_prefix:
  "plainID a \<Longrightarrow> plainID b \<Longrightarrow> hasPrefix (memoryNodeKey a x) (b @ ''/'') \<longleftrightarrow> a = b"
  using hasPrefix_sep [of "CHR ''/''" a b x] by (simp add: memoryNodeKey_def plainID_def)

lemma last_sep_split:
  assumes "c \<notin> set x" "c \<notin> set y" "a @ c # x = b @ c # y"
  shows "a = b \<and> x = y"
proof -
  have "rev x @ c # rev a = rev y @ c # rev b"
    using arg_cong [OF assms(3), of rev] by simp
  then show ?thesis
    using sep_append_inj [of c "rev x" "rev y" "rev a" "rev b"] assms(1,2) by simp
qed

lemma intentID_inj:
  assumes "plainID a" "plainID b" "intentID k a x i = intentID k b y j"
  shows "a = b \<and> x = y \<and> i = j"
proof -
  have "a @ CHR ''/'' # (x @ CHR ''/'' # itoa i) = b @ CHR ''/'' # (y @ CHR ''/'' # itoa j)"
    using assms(3) by (simp add: intentID_def)
  then have "a = b \<and> x @ CHR ''/'' # itoa i = y @ CHR ''/'' # itoa j"
    using sep_append_inj [of "CHR ''/''" a b] assms(1,2) by (simp add: plainID_def)
  then show ?thesis
    using last_sep_split [of "CHR ''/''" "itoa i" "itoa j" x y] by simp
qed

section \<open>Reads\<close>

definition outboxOf :: "memoryState \<Rightarrow> ExecutionID \<Rightarrow> (string, memoryOutboxEntry) fmap" where
  "outboxOf s eid = mapGet fmempty (outbox s) eid"

definition statusOf :: "memoryState \<Rightarrow> ExecutionID \<Rightarrow> ExecutionStatus option" where
  "statusOf s eid = map_option (\<lambda>e. es_Status (snap e)) (fmlookup (executions s) eid)"

definition isTerminalStatus :: "ExecutionStatus \<Rightarrow> bool" where
  "isTerminalStatus st = IsTerminalExecutionStatus st"

definition isTerminalNode :: "NodeStatus \<Rightarrow> bool" where
  "isTerminalNode st = IsTerminalNodeStatus st"

definition GetExecution :: "memoryState \<Rightarrow> ExecutionID \<Rightarrow> ExecutionSnapshot option" where
  "GetExecution s eid = map_option snap (fmlookup (executions s) eid)"

definition GetExecutionStatus :: "memoryState \<Rightarrow> ExecutionID \<Rightarrow> ExecutionStatus \<times> bool" where
  "GetExecutionStatus s eid = (case fmlookup (executions s) eid of
      None \<Rightarrow> (ExecutionStatusEmpty, False)
    | Some e \<Rightarrow> (es_Status (snap e), True))"

definition GetExecutionStatuses :: "memoryState \<Rightarrow> ExecutionID list \<Rightarrow> ExecutionStatus list" where
  "GetExecutionStatuses s ids = map (\<lambda>eid. case fmlookup (executions s) eid of
      None \<Rightarrow> ExecutionStatusEmpty | Some e \<Rightarrow> es_Status (snap e)) ids"

definition LoadGraph :: "memoryState \<Rightarrow> ExecutionID \<Rightarrow> Graph option" where
  "LoadGraph s eid = (case fmlookup (executions s) eid of None \<Rightarrow> None | Some e \<Rightarrow> es_Graph (snap e))"

section \<open>Channels and events\<close>

definition chanCap :: nat where
  "chanCap = 8"

text \<open>A select with a default: the event is dropped when the buffer is full.\<close>

definition trySend :: "ExecutionEvent \<Rightarrow> nat \<Rightarrow> memoryState \<Rightarrow> memoryState" where
  "trySend ev c s = (case fmlookup (chans s) c of
      None \<Rightarrow> s
    | Some ch \<Rightarrow>
        if ch_closed ch then s\<lparr>panicked := True\<rparr>
        else if length (ch_buf ch) < chanCap
          then s\<lparr>chans := fmupd c (ch\<lparr>ch_buf := ch_buf ch @ [ev]\<rparr>) (chans s)\<rparr>
          else s)"

definition closeChan :: "nat \<Rightarrow> memoryState \<Rightarrow> memoryState" where
  "closeChan c s = (case fmlookup (chans s) c of
      None \<Rightarrow> s
    | Some ch \<Rightarrow>
        if ch_closed ch then s\<lparr>panicked := True\<rparr>
        else s\<lparr>chans := fmupd c (ch\<lparr>ch_closed := True\<rparr>) (chans s)\<rparr>)"

definition publishLocked :: "ExecutionEvent \<Rightarrow> memoryState \<Rightarrow> memoryState" where
  "publishLocked ev s =
     (let ws = mapGet [] (eventWatchers s) (ev_ExecutionID ev);
          s1 = fold (trySend ev) ws s
      in if isTerminalStatus (ev_Status ev)
         then (fold closeChan ws s1)\<lparr>eventWatchers := fmdrop (ev_ExecutionID ev) (eventWatchers s1)\<rparr>
         else s1)"

definition WatchExecution :: "ExecutionID \<Rightarrow> memoryState \<Rightarrow> nat \<times> memoryState" where
  "WatchExecution eid s =
     (nextChan s,
      s\<lparr>chans := fmupd (nextChan s) \<lparr>ch_buf = [], ch_closed = False\<rparr> (chans s),
        eventWatchers := fmupd eid (mapGet [] (eventWatchers s) eid @ [nextChan s]) (eventWatchers s),
        nextChan := nextChan s + 1\<rparr>)"

definition removeWatcherLocked :: "ExecutionID \<Rightarrow> nat \<Rightarrow> memoryState \<Rightarrow> memoryState" where
  "removeWatcherLocked eid c s =
     (let ws = mapGet [] (eventWatchers s) eid
      in if c \<in> set ws
         then closeChan c (s\<lparr>eventWatchers := fmupd eid (remove1 c ws) (eventWatchers s)\<rparr>)
         else s)"

definition waitDone :: "ExecutionID \<Rightarrow> memoryState \<Rightarrow> memoryState" where
  "waitDone eid s = (if hasKey (doneCh s) eid then s else s\<lparr>doneCh := fmupd eid False (doneCh s)\<rparr>)"

text \<open>Closing the done channel of an execution, a panic when it is closed
  already.\<close>

definition closeDone :: "ExecutionID \<Rightarrow> memoryState \<Rightarrow> memoryState" where
  "closeDone eid s = (case fmlookup (doneCh s) eid of
      None \<Rightarrow> s
    | Some True \<Rightarrow> s\<lparr>panicked := True\<rparr>
    | Some False \<Rightarrow> s\<lparr>doneCh := fmupd eid True (doneCh s)\<rparr>)"

section \<open>Frames\<close>

text \<open>What an operation leaves alone is stated by erasing what it may change:
  an equation between erased states.  The selectors of the other fields follow.\<close>

text \<open>Everything but the event channels.\<close>

definition eraseEvents :: "memoryState \<Rightarrow> memoryState" where
  "eraseEvents s = s\<lparr>eventWatchers := fmempty,
     chans := fmempty,
     panicked := False\<rparr>"

lemma eraseEvents_sel:
  "executions (eraseEvents s) = executions s"
  "nodes (eraseEvents s) = nodes s"
  "inDegrees (eraseEvents s) = inDegrees s"
  "activeIns (eraseEvents s) = activeIns s"
  "remaining (eraseEvents s) = remaining s"
  "failed (eraseEvents s) = failed s"
  "advanced (eraseEvents s) = advanced s"
  "scheduled (eraseEvents s) = scheduled s"
  "outbox (eraseEvents s) = outbox s"
  "deadOutbox (eraseEvents s) = deadOutbox s"
  "replayReceipts (eraseEvents s) = replayReceipts s"
  "replayEntryIdx (eraseEvents s) = replayEntryIdx s"
  "outputs (eraseEvents s) = outputs s"
  "privateOutputs (eraseEvents s) = privateOutputs s"
  "suspended (eraseEvents s) = suspended s"
  "signals (eraseEvents s) = signals s"
  "signalSets (eraseEvents s) = signalSets s"
  "resumed (eraseEvents s) = resumed s"
  "subExecs (eraseEvents s) = subExecs s"
  "subWorkflowLinks (eraseEvents s) = subWorkflowLinks s"
  "subWorkflowConclusions (eraseEvents s) = subWorkflowConclusions s"
  "groupUnits (eraseEvents s) = groupUnits s"
  "admissions (eraseEvents s) = admissions s"
  "idempotency (eraseEvents s) = idempotency s"
  "workflowSlots (eraseEvents s) = workflowSlots s"
  "slotHolders (eraseEvents s) = slotHolders s"
  "queued (eraseEvents s) = queued s"
  "doneCh (eraseEvents s) = doneCh s"
  "cancelingSince (eraseEvents s) = cancelingSince s"
  "db (eraseEvents s) = db s"
  "mirrorLocks (eraseEvents s) = mirrorLocks s"
  "mirrorSkip (eraseEvents s) = mirrorSkip s"
  "mirrorCreatePending (eraseEvents s) = mirrorCreatePending s"
  "mirrorConflict (eraseEvents s) = mirrorConflict s"
  "rolledBack (eraseEvents s) = rolledBack s"
  "deadlines (eraseEvents s) = deadlines s"
  "nextChan (eraseEvents s) = nextChan s"
  by (simp_all add: eraseEvents_def)

lemma eraseEvents_D:
  assumes "eraseEvents s = eraseEvents t"
  shows "executions s = executions t"
    "nodes s = nodes t"
    "inDegrees s = inDegrees t"
    "activeIns s = activeIns t"
    "remaining s = remaining t"
    "failed s = failed t"
    "advanced s = advanced t"
    "scheduled s = scheduled t"
    "outbox s = outbox t"
    "deadOutbox s = deadOutbox t"
    "replayReceipts s = replayReceipts t"
    "replayEntryIdx s = replayEntryIdx t"
    "outputs s = outputs t"
    "privateOutputs s = privateOutputs t"
    "suspended s = suspended t"
    "signals s = signals t"
    "signalSets s = signalSets t"
    "resumed s = resumed t"
    "subExecs s = subExecs t"
    "subWorkflowLinks s = subWorkflowLinks t"
    "subWorkflowConclusions s = subWorkflowConclusions t"
    "groupUnits s = groupUnits t"
    "admissions s = admissions t"
    "idempotency s = idempotency t"
    "workflowSlots s = workflowSlots t"
    "slotHolders s = slotHolders t"
    "queued s = queued t"
    "doneCh s = doneCh t"
    "cancelingSince s = cancelingSince t"
    "db s = db t"
    "mirrorLocks s = mirrorLocks t"
    "mirrorSkip s = mirrorSkip t"
    "mirrorCreatePending s = mirrorCreatePending t"
    "mirrorConflict s = mirrorConflict t"
    "rolledBack s = rolledBack t"
    "deadlines s = deadlines t"
    "nextChan s = nextChan t"
  by (metis assms eraseEvents_sel)+


lemma trySend_frame: "eraseEvents (trySend ev k s) = eraseEvents s"
  by (simp add: trySend_def eraseEvents_def split: option.split)

lemma closeChan_frame: "eraseEvents (closeChan k s) = eraseEvents s"
  by (simp add: closeChan_def eraseEvents_def split: option.split)

lemma publishLocked_frame: "eraseEvents (publishLocked ev s) = eraseEvents s"
proof -
  have "eraseEvents (s\<lparr>eventWatchers := w\<rparr>) = eraseEvents s" for s w by (simp add: eraseEvents_def)
  then show ?thesis
    by (simp add: publishLocked_def Let_def fold_same [of eraseEvents] trySend_frame closeChan_frame)
qed

lemmas publishLocked_sel [simp] = eraseEvents_D [OF publishLocked_frame]

end
