(* ===== verification/OutboxStore.thy ===== *)
theory OutboxStore
  imports MemoryState
begin

text \<open>
  The durable outbox of the store: delivery intents, their leases, and the
  dead letters (backend/providers/local/atomic_state.go).
\<close>

section \<open>Writing and reading intents\<close>

definition newOutboxEntry :: "Time \<Rightarrow> OutboxEntry \<Rightarrow> memoryOutboxEntry" where
  "newOutboxEntry now entry =
     \<lparr> mo_entry = entry\<lparr>oe_CreatedAt := (if IsZero (oe_CreatedAt entry) then now else oe_CreatedAt entry)\<rparr>,
       mo_leasedUntil = zeroTime, mo_deadMeta = None \<rparr>"

definition putOutboxEntryLocked :: "Time \<Rightarrow> ExecutionID \<Rightarrow> OutboxEntry \<Rightarrow> memoryState \<Rightarrow> bool \<times> memoryState" where
  "putOutboxEntryLocked now eid entry s =
     (if oe_ID entry = '''' then (False, s)
      else if hasKey (outboxOf s eid) (oe_ID entry) then (False, s)
      else (True, s\<lparr>outbox := fmupd eid (fmupd (oe_ID entry) (newOutboxEntry now entry) (outboxOf s eid)) (outbox s)\<rparr>))"

definition mkOutboxEntry :: "string \<Rightarrow> Task \<Rightarrow> Time \<Rightarrow> OutboxEntry" where
  "mkOutboxEntry entryID task availableAt =
     \<lparr> oe_ID = entryID, oe_Task = task, oe_AvailableAt = availableAt, oe_CreatedAt = zeroTime,
       oe_Attempts = 0, oe_LeasedFromScoreMs = 0, oe_LeaseDeadlineMs = 0 \<rparr>"

definition putOutboxLocked :: "Time \<Rightarrow> ExecutionID \<Rightarrow> string \<Rightarrow> Task \<Rightarrow> Time \<Rightarrow> memoryState \<Rightarrow> bool \<times> memoryState" where
  "putOutboxLocked now eid entryID task availableAt s =
     putOutboxEntryLocked now eid (mkOutboxEntry entryID task availableAt) s"

text \<open>\<open>delete(entries, ...)\<close> followed by dropping the execution's map when it is
  empty.\<close>

definition storeEntries :: "ExecutionID \<Rightarrow> (string, 'v) fmap \<Rightarrow>
    (ExecutionID, (string, 'v) fmap) fmap \<Rightarrow> (ExecutionID, (string, 'v) fmap) fmap" where
  "storeEntries eid es m = (if es = fmempty then fmdrop eid m else fmupd eid es m)"

text \<open>An in-place update of the entries of one execution; a missing map has
  nothing to update.\<close>

definition updEntries :: "((string, memoryOutboxEntry) fmap \<Rightarrow> (string, memoryOutboxEntry) fmap) \<Rightarrow>
    ExecutionID \<Rightarrow> memoryState \<Rightarrow> memoryState" where
  "updEntries f eid s = (case fmlookup (outbox s) eid of
      None \<Rightarrow> s
    | Some es \<Rightarrow> s\<lparr>outbox := fmupd eid (f es) (outbox s)\<rparr>)"

definition setAvailableAt :: "Time \<Rightarrow> memoryOutboxEntry \<Rightarrow> memoryOutboxEntry" where
  "setAvailableAt t h = h\<lparr>mo_entry := (mo_entry h)\<lparr>oe_AvailableAt := t\<rparr>\<rparr>"

definition availableAt :: "memoryOutboxEntry \<Rightarrow> Time" where
  "availableAt h = oe_AvailableAt (mo_entry h)"

definition isHeld :: "memoryOutboxEntry \<Rightarrow> bool" where
  "isHeld h \<longleftrightarrow> availableAt h = queuedOutboxHold"

definition dispatchHeldLocked :: "memoryState \<Rightarrow> ExecutionID \<Rightarrow> bool" where
  "dispatchHeldLocked s eid \<longleftrightarrow> statusOf s eid = Some ExecutionStatusPaused"

definition isDue :: "Time \<Rightarrow> memoryOutboxEntry \<Rightarrow> bool" where
  "isDue before h \<longleftrightarrow> \<not> mo_leasedUntil h > before \<and>
     (IsZero (availableAt h) \<or> \<not> availableAt h > before)"

definition readyOutboxIDsLocked :: "memoryState \<Rightarrow> ExecutionID \<Rightarrow> Time \<Rightarrow> int \<Rightarrow> string list" where
  "readyOutboxIDsLocked s eid before limit =
     (let entries = outboxOf s eid
      in if entries = fmempty \<or> limit = 0 \<or> dispatchHeldLocked s eid then []
         else clip limit (sortedKeys (mapFilter (\<lambda>_ h. isDue before h) entries)))"

definition ListOutbox :: "memoryState \<Rightarrow> ExecutionID \<Rightarrow> Time \<Rightarrow> int \<Rightarrow> OutboxEntry list" where
  "ListOutbox s eid before limit =
     map (\<lambda>i. mo_entry (the (fmlookup (outboxOf s eid) i))) (readyOutboxIDsLocked s eid before limit)"

section \<open>Delivery leases\<close>

definition OutboxDeliveryLeaseTTL :: Duration where
  "OutboxDeliveryLeaseTTL = 5000000000"

definition leaseOne :: "Time \<Rightarrow> ExecutionID \<Rightarrow> string \<Rightarrow> memoryState \<times> OutboxEntry list \<Rightarrow> memoryState \<times> OutboxEntry list" where
  "leaseOne now eid i st = (case st of (s, out) \<Rightarrow>
     (case fmlookup (outboxOf s eid) i of
        None \<Rightarrow> (s, out)
      | Some h \<Rightarrow>
          let h' = h\<lparr>mo_leasedUntil := now + OutboxDeliveryLeaseTTL\<rparr>
          in (s\<lparr>outbox := fmupd eid (fmupd i h' (outboxOf s eid)) (outbox s)\<rparr>,
              out @ [(mo_entry h')\<lparr>oe_LeaseDeadlineMs := UnixMilli (mo_leasedUntil h')\<rparr>])))"

definition LeaseOutbox :: "memoryState \<Rightarrow> ExecutionID \<Rightarrow> Time \<Rightarrow> int \<Rightarrow> memoryState \<times> OutboxEntry list" where
  "LeaseOutbox s eid now limit =
     fold (leaseOne now eid) (readyOutboxIDsLocked s eid now limit) (s, [])"

definition renewOne :: "Time \<Rightarrow> ExecutionID \<Rightarrow> OutboxEntry \<Rightarrow> memoryState \<times> OutboxEntry list \<Rightarrow> memoryState \<times> OutboxEntry list" where
  "renewOne now eid entry st = (case st of (s, out) \<Rightarrow>
     (case fmlookup (outboxOf s eid) (oe_ID entry) of
        None \<Rightarrow> (s, out)
      | Some h \<Rightarrow>
          if \<not> mo_leasedUntil h > now then (s, out)
          else if UnixMilli (mo_leasedUntil h) \<noteq> oe_LeaseDeadlineMs entry then (s, out)
          else
            let deadline = now + OutboxDeliveryLeaseTTL; h' = h\<lparr>mo_leasedUntil := deadline\<rparr>
            in (s\<lparr>outbox := fmupd eid (fmupd (oe_ID entry) h' (outboxOf s eid)) (outbox s)\<rparr>,
                out @ [(mo_entry h')\<lparr>oe_LeasedFromScoreMs := oe_LeasedFromScoreMs entry,
                                    oe_LeaseDeadlineMs := UnixMilli deadline\<rparr>])))"

definition RenewOutbox :: "memoryState \<Rightarrow> ExecutionID \<Rightarrow> OutboxEntry list \<Rightarrow> Time \<Rightarrow> memoryState \<times> OutboxEntry list" where
  "RenewOutbox s eid renew now = fold (renewOne now eid) renew (s, [])"

definition AckOutbox :: "ExecutionID \<Rightarrow> string \<Rightarrow> memoryState \<Rightarrow> memoryState" where
  "AckOutbox eid entryID s = (case fmlookup (outbox s) eid of
      None \<Rightarrow> s
    | Some es \<Rightarrow> s\<lparr>outbox := storeEntries eid (fmdrop entryID es) (outbox s)\<rparr>)"

definition ReleaseOutbox :: "ExecutionID \<Rightarrow> OutboxEntry \<Rightarrow> memoryState \<Rightarrow> memoryState" where
  "ReleaseOutbox eid entry s = (case fmlookup (outboxOf s eid) (oe_ID entry) of
      None \<Rightarrow> s
    | Some h \<Rightarrow> s\<lparr>outbox := fmupd eid (fmupd (oe_ID entry) (h\<lparr>mo_leasedUntil := zeroTime\<rparr>) (outboxOf s eid)) (outbox s)\<rparr>)"

section \<open>Failures and dead letters\<close>

record OutboxDeliveryFailure =
  of_Attempts :: int
  of_DeadLettered :: bool

definition DefaultOutboxMaxDeliveryAttempts :: int where
  "DefaultOutboxMaxDeliveryAttempts = 10"

text \<open>The intent of an entry is the part of its identifier before the first
  separator; an identifier without one has the empty intent.\<close>

definition deadLetterIntent :: "string \<Rightarrow> string" where
  "deadLetterIntent entryID =
     (if CHR ''/'' \<in> set entryID then takeWhile (\<lambda>c. c \<noteq> CHR ''/'') entryID else '''')"

definition deadOf :: "memoryState \<Rightarrow> ExecutionID \<Rightarrow> (string, memoryOutboxEntry) fmap" where
  "deadOf s eid = mapGet fmempty (deadOutbox s) eid"

definition countAttempt :: "memoryOutboxEntry \<Rightarrow> memoryOutboxEntry" where
  "countAttempt h = h\<lparr>mo_entry := (mo_entry h)\<lparr>oe_Attempts := oe_Attempts (mo_entry h) + 1\<rparr>\<rparr>"

definition RecordOutboxFailure :: "ExecutionID \<Rightarrow> OutboxEntry \<Rightarrow> int \<Rightarrow> memoryState \<Rightarrow> memoryState \<times> OutboxDeliveryFailure" where
  "RecordOutboxFailure eid entry maxAttempts s =
     (let entryID = oe_ID entry; entries = outboxOf s eid
      in case fmlookup entries entryID of
           None \<Rightarrow> (s, \<lparr>of_Attempts = 0, of_DeadLettered = False\<rparr>)
         | Some stored0 \<Rightarrow>
             let maxA = (if maxAttempts \<le> 0 then DefaultOutboxMaxDeliveryAttempts else maxAttempts);
                 stored = countAttempt stored0;
                 attempts = oe_Attempts (mo_entry stored)
             in if attempts \<ge> maxA
                then (s\<lparr>outbox := storeEntries eid (fmdrop entryID entries) (outbox s),
                        deadOutbox := fmupd eid
                          (fmupd entryID
                             (stored\<lparr>mo_deadMeta := Some \<lparr>dm_node = t_NodeName (oe_Task entry),
                                dm_activation = itoa (t_ActivationID (oe_Task entry)),
                                dm_intent = deadLetterIntent entryID\<rparr>\<rparr>)
                             (deadOf s eid)) (deadOutbox s),
                        replayEntryIdx := (case fmlookup (replayEntryIdx s) eid of
                            None \<Rightarrow> replayEntryIdx s
                          | Some ix \<Rightarrow> fmupd eid (fmdrop entryID ix) (replayEntryIdx s))\<rparr>,
                      \<lparr>of_Attempts = attempts, of_DeadLettered = True\<rparr>)
                else (s\<lparr>outbox := fmupd eid (fmupd entryID stored entries) (outbox s)\<rparr>,
                      \<lparr>of_Attempts = attempts, of_DeadLettered = False\<rparr>))"

section \<open>Metrics and listings\<close>

record OutboxMetricsSnapshot =
  om_Pending :: int
  om_OldestPendingAt :: Time
  om_DeadLettered :: int
  om_Ready :: int
  om_DecodeFailures :: int

definition allEntries :: "(ExecutionID, (string, memoryOutboxEntry) fmap) fmap \<Rightarrow> memoryOutboxEntry list" where
  "allEntries m = concat (map (\<lambda>eid. let es = mapGet fmempty m eid
                                    in map (\<lambda>i. the (fmlookup es i)) (sortedKeys es)) (sortedKeys m))"

definition createdOrAvailable :: "OutboxEntry \<Rightarrow> Time" where
  "createdOrAvailable e = (if IsZero (oe_CreatedAt e) then oe_AvailableAt e else oe_CreatedAt e)"

definition countPending :: "Time \<Rightarrow> memoryOutboxEntry \<Rightarrow> OutboxMetricsSnapshot \<Rightarrow> OutboxMetricsSnapshot" where
  "countPending now h m =
     (let at = availableAt h; c = createdOrAvailable (mo_entry h)
      in m\<lparr>om_Pending := om_Pending m + 1,
           om_Ready := om_Ready m + (if IsZero at \<or> \<not> at > now then 1 else 0),
           om_OldestPendingAt :=
             (if \<not> IsZero c \<and> (IsZero (om_OldestPendingAt m) \<or> c < om_OldestPendingAt m) then c
              else om_OldestPendingAt m)\<rparr>)"

definition OutboxMetrics :: "memoryState \<Rightarrow> Time \<Rightarrow> OutboxMetricsSnapshot" where
  "OutboxMetrics s now =
     (fold (countPending now) (allEntries (outbox s))
        \<lparr>om_Pending = 0, om_OldestPendingAt = zeroTime, om_DeadLettered = 0, om_Ready = 0, om_DecodeFailures = 0\<rparr>)
     \<lparr>om_DeadLettered := int (length (allEntries (deadOutbox s)))\<rparr>"

definition allOutboxEntriesHeld :: "(string, memoryOutboxEntry) fmap \<Rightarrow> bool" where
  "allOutboxEntriesHeld es \<longleftrightarrow> mapFilter (\<lambda>_ h. \<not> isHeld h) es = fmempty"

definition ListOutboxExecutions :: "memoryState \<Rightarrow> int \<Rightarrow> ExecutionID list" where
  "ListOutboxExecutions s limit =
     clip limit (sortedKeys (mapFilter (\<lambda>_ es. \<not> (es = fmempty \<or> allOutboxEntriesHeld es)) (outbox s)))"

record DeadLetterPage =
  dp_Cursor :: string
  dp_Limit :: int

record DeadLetterList =
  dl_Entries :: "OutboxEntry list"
  dl_NextCursor :: string

text \<open>The dead letters of an execution in an order \<open>sort.Slice\<close> may produce: the
  Go sort is not stable and starts from a map iteration, so entries with equal
  instants come out in any order.\<close>

definition deadLetterOrder :: "memoryState \<Rightarrow> ExecutionID \<Rightarrow> string list \<Rightarrow> bool" where
  "deadLetterOrder s eid ids \<longleftrightarrow>
     distinct ids \<and> set ids = set (sortedKeys (deadOf s eid)) \<and>
     sorted (map (\<lambda>i. createdOrAvailable (mo_entry (the (fmlookup (deadOf s eid) i)))) ids)"

definition afterCursor :: "string \<Rightarrow> OutboxEntry list \<Rightarrow> OutboxEntry list" where
  "afterCursor cursor out =
     (if cursor = '''' then out else tl (dropWhile (\<lambda>e. oe_ID e \<noteq> cursor) out))"

definition pageLimit :: "int \<Rightarrow> int" where
  "pageLimit l = (let l1 = (if l \<le> 0 then 100 else l) in if l1 > 500 then 500 else l1)"

definition ListDeadLetters :: "memoryState \<Rightarrow> ExecutionID \<Rightarrow> DeadLetterPage \<Rightarrow> string list \<Rightarrow> DeadLetterList" where
  "ListDeadLetters s eid page ids =
     (let limit = pageLimit (dp_Limit page);
          out = map (\<lambda>i. mo_entry (the (fmlookup (deadOf s eid) i))) ids;
          page2 = afterCursor (dp_Cursor page) out
      in if int (length page2) > limit
         then \<lparr>dl_Entries = take (nat limit) page2, dl_NextCursor = oe_ID (page2 ! nat (limit - 1))\<rparr>
         else \<lparr>dl_Entries = page2, dl_NextCursor = ''''\<rparr>)"

section \<open>Replay\<close>

record ReplayDeadLetterRequest =
  rq_ExecutionID :: ExecutionID
  rq_EntryID :: string
  rq_RequestID :: string
  rq_Operator :: string
  rq_Reason :: string

record ReplayDeadLetterResult =
  rp_Outcome :: DeadLetterReplayOutcome
  rp_AuditID :: string
  rp_ExecutionID :: ExecutionID
  rp_NodeID :: string
  rp_ActivationID :: string

definition replayNotFound :: "ExecutionID \<Rightarrow> ReplayDeadLetterResult" where
  "replayNotFound eid = \<lparr>rp_Outcome = ReplayNotFound, rp_AuditID = '''', rp_ExecutionID = eid,
     rp_NodeID = '''', rp_ActivationID = ''''\<rparr>"

definition receiptResult :: "memoryReplayReceipt \<Rightarrow> ExecutionID \<Rightarrow> ReplayDeadLetterResult" where
  "receiptResult r eid =
     \<lparr>rp_Outcome = (if rr_outcome r = ReplayReplayed then ReplayAlreadyReplayed else rr_outcome r),
      rp_AuditID = rr_auditID r, rp_ExecutionID = eid, rp_NodeID = rr_node r,
      rp_ActivationID = rr_activation r\<rparr>"

definition receiptsOf :: "memoryState \<Rightarrow> ExecutionID \<Rightarrow> (string, memoryReplayReceipt) fmap" where
  "receiptsOf s eid = mapGet fmempty (replayReceipts s) eid"

definition entryIdxOf :: "memoryState \<Rightarrow> ExecutionID \<Rightarrow> (string, string) fmap" where
  "entryIdxOf s eid = mapGet fmempty (replayEntryIdx s) eid"

definition mkReceipt :: "Time \<Rightarrow> ReplayDeadLetterRequest \<Rightarrow> string \<Rightarrow> memoryDeadLetterMeta \<Rightarrow>
    DeadLetterReplayOutcome \<Rightarrow> memoryReplayReceipt" where
  "mkReceipt now req auditID meta outcome =
     \<lparr>rr_auditID = auditID, rr_node = dm_node meta, rr_activation = dm_activation meta,
      rr_entryID = rq_EntryID req, rr_operator = rq_Operator req, rr_reason = rq_Reason req,
      rr_outcome = outcome, rr_occurredAtMs = UnixMilli now\<rparr>"

definition writeReplayReceiptLocked :: "Time \<Rightarrow> ReplayDeadLetterRequest \<Rightarrow> string \<Rightarrow> string \<Rightarrow>
    memoryDeadLetterMeta \<Rightarrow> DeadLetterReplayOutcome \<Rightarrow> memoryState \<Rightarrow> memoryState" where
  "writeReplayReceiptLocked now req requestID auditID meta outcome s =
     s\<lparr>replayReceipts := fmupd (rq_ExecutionID req)
         (fmupd requestID (mkReceipt now req auditID meta outcome) (receiptsOf s (rq_ExecutionID req)))
         (replayReceipts s)\<rparr>"

fun replayIntentAllowsNode :: "string \<Rightarrow> NodeSnapshot option \<Rightarrow> bool" where
  "replayIntentAllowsNode intent None = (intent \<in> {''root'', ''execute'', ''skip''})"
| "replayIntentAllowsNode intent (Some node) =
     (case ns_Status node of
        NodeStatusPending \<Rightarrow> intent \<in> {''root'', ''retry'', ''requeue'', ''resume'', ''execute'', ''skip''}
      | NodeStatusRunning \<Rightarrow> intent \<in> {''root'', ''retry'', ''requeue'', ''execute'', ''skip''}
      | NodeStatusCommitting \<Rightarrow> intent \<in> {''root'', ''retry'', ''requeue'', ''execute'', ''skip''}
      | NodeStatusWaiting \<Rightarrow> intent \<in> {''root'', ''retry'', ''requeue'', ''execute'', ''skip''}
      | NodeStatusSuspended \<Rightarrow> intent = ''resume''
      | _ \<Rightarrow> False)"

text \<open>The guards 3 to 6 of the source, in its order: \<^term>\<open>None\<close> when the entry
  may be replayed, and otherwise the rejection.  \<open>strconv.Itoa(node.ActivationID)\<close>
  with an absent node is unreachable behind the guards.\<close>

definition replayGuard :: "memoryState \<Rightarrow> ExecutionID \<Rightarrow> memoryDeadLetterMeta \<Rightarrow> DeadLetterReplayOutcome option" where
  "replayGuard s eid meta =
     (let node = fmlookup (nodes s) (memoryNodeKey eid (dm_node meta));
          nodeTerminal = (case node of None \<Rightarrow> False | Some n \<Rightarrow> isTerminalNode (ns_Status n));
          intent = dm_intent meta
      in if dm_node meta = '''' \<or> dm_activation meta = '''' then Some ReplayRejectedMetadataMissing
         else case fmlookup (executions s) eid of
           None \<Rightarrow> Some ReplayRejectedInactive
         | Some e \<Rightarrow>
             if es_Status (snap e) \<noteq> ExecutionStatusRunning then Some ReplayRejectedTerminal
             else if intent \<in> {''advance'', ''mergecancel''} \<and> \<not> nodeTerminal
               then Some ReplayRejectedMetadataMissing
             else if intent \<notin> {''advance'', ''mergecancel''} \<and> nodeTerminal
               then Some ReplayRejectedNodeTerminal
             else if intent \<notin> {''advance'', ''mergecancel''} \<and> \<not> replayIntentAllowsNode intent node
               then Some ReplayRejectedMetadataMissing
             else case node of
               None \<Rightarrow> (if intent \<in> {''root'', ''execute'', ''skip''} then None
                        else Some ReplayRejectedActivationMismatch)
             | Some n \<Rightarrow> (if itoa (ns_ActivationID n) \<noteq> dm_activation meta
                          then Some ReplayRejectedActivationMismatch else None))"

definition emptyDeadMeta :: memoryDeadLetterMeta where
  "emptyDeadMeta = \<lparr>dm_node = '''', dm_activation = '''', dm_intent = ''''\<rparr>"

definition revive :: "memoryOutboxEntry \<Rightarrow> memoryOutboxEntry" where
  "revive h = h\<lparr>mo_entry := (mo_entry h)\<lparr>oe_Attempts := 0\<rparr>, mo_leasedUntil := zeroTime, mo_deadMeta := None\<rparr>"

definition moveDeadToReady :: "ExecutionID \<Rightarrow> string \<Rightarrow> memoryOutboxEntry \<Rightarrow> memoryState \<Rightarrow> memoryState" where
  "moveDeadToReady eid entryID h s =
     s\<lparr>outbox := fmupd eid (fmupd entryID (revive h) (outboxOf s eid)) (outbox s),
       deadOutbox := storeEntries eid (fmdrop entryID (deadOf s eid)) (deadOutbox s)\<rparr>"

definition effectiveRequestID :: "ReplayDeadLetterRequest \<Rightarrow> string" where
  "effectiveRequestID req = (if rq_RequestID req = '''' then rq_EntryID req else rq_RequestID req)"

text \<open>The receipt a repeated request recovers: one under its own request
  identifier, or the successful replay of the same entry under another one.\<close>

definition priorReceipt :: "memoryState \<Rightarrow> ReplayDeadLetterRequest \<Rightarrow> memoryReplayReceipt option" where
  "priorReceipt s req =
     (let eid = rq_ExecutionID req in
      case fmlookup (receiptsOf s eid) (effectiveRequestID req) of
        Some r \<Rightarrow> Some r
      | None \<Rightarrow>
          let prior = mapGet '''' (entryIdxOf s eid) (rq_EntryID req)
          in if prior \<noteq> '''' then fmlookup (receiptsOf s eid) prior else None)"

definition ReplayDeadLetter :: "Time \<Rightarrow> ReplayDeadLetterRequest \<Rightarrow> memoryState \<Rightarrow> memoryState \<times> ReplayDeadLetterResult" where
  "ReplayDeadLetter now req s =
     (let eid = rq_ExecutionID req; entryID = rq_EntryID req; requestID = effectiveRequestID req
      in if entryID = '''' then (s, replayNotFound eid)
         else case priorReceipt s req of
           Some r \<Rightarrow> (s, receiptResult r eid)
         | None \<Rightarrow>
             (case fmlookup (deadOf s eid) entryID of
                None \<Rightarrow> (s, replayNotFound eid)
              | Some h \<Rightarrow>
                  let meta = (case mo_deadMeta h of None \<Rightarrow> emptyDeadMeta | Some m \<Rightarrow> m);
                      auditID = requestID @ '':'' @ itoa (UnixMilli now)
                  in case replayGuard s eid meta of
                       Some outcome \<Rightarrow>
                         (writeReplayReceiptLocked now req requestID auditID meta outcome s,
                          receiptResult (mkReceipt now req auditID meta outcome) eid)
                     | None \<Rightarrow>
                         (let s1 = moveDeadToReady eid entryID h s;
                              s2 = writeReplayReceiptLocked now req requestID auditID meta ReplayReplayed s1
                          in (s2\<lparr>replayEntryIdx := fmupd eid (fmupd entryID requestID (entryIdxOf s2 eid)) (replayEntryIdx s2)\<rparr>,
                              \<lparr>rp_Outcome = ReplayReplayed, rp_AuditID = auditID, rp_ExecutionID = eid,
                               rp_NodeID = dm_node meta, rp_ActivationID = dm_activation meta\<rparr>))))"

text \<open>The snapshot \<open>ScanReplayReceipts\<close> takes under the lock, in the order it
  emits it: execution, then request.\<close>

definition ScanReplayReceipts :: "memoryState \<Rightarrow> (ExecutionID \<times> string \<times> memoryReplayReceipt) list" where
  "ScanReplayReceipts s =
     concat (map (\<lambda>eid. let rs = mapFilter (\<lambda>_ r. rr_auditID r \<noteq> '''') (receiptsOf s eid)
                        in map (\<lambda>q. (eid, q, the (fmlookup rs q))) (sortedKeys rs))
             (sortedKeys (replayReceipts s)))"

section \<open>Basic facts\<close>

lemma mapGet_storeEntries [simp]:
  "mapGet fmempty (storeEntries eid es m) e = (if eid = e then es else mapGet fmempty m e)"
  by (simp add: storeEntries_def)

lemma putOutboxEntryLocked_outbox:
  "\<exists>X. snd (putOutboxEntryLocked now eid entry s) = s\<lparr>outbox := X\<rparr>"
proof (cases "oe_ID entry = '''' \<or> hasKey (outboxOf s eid) (oe_ID entry)")
  case True
  then have "snd (putOutboxEntryLocked now eid entry s) = s\<lparr>outbox := outbox s\<rparr>"
    by (auto simp: putOutboxEntryLocked_def)
  then show ?thesis by blast
next
  case False
  then show ?thesis by (auto simp: putOutboxEntryLocked_def)
qed

text \<open>Writing an intent is idempotent by identifier: an existing entry is never
  touched, a new one starts unleased, and nothing else changes.\<close>

lemma putOutboxEntryLocked_lookup:
  "fmlookup (outboxOf (snd (putOutboxEntryLocked now eid entry s)) e) i =
     (if e = eid \<and> i = oe_ID entry \<and> i \<noteq> '''' \<and> fmlookup (outboxOf s eid) i = None
      then Some (newOutboxEntry now entry) else fmlookup (outboxOf s e) i)"
  by (auto simp: putOutboxEntryLocked_def outboxOf_def hasKey_def)

lemma putOutboxEntryLocked_fst:
  "fst (putOutboxEntryLocked now eid entry s) \<longleftrightarrow>
     oe_ID entry \<noteq> '''' \<and> fmlookup (outboxOf s eid) (oe_ID entry) = None"
  by (simp add: putOutboxEntryLocked_def hasKey_def)

text \<open>The ready set.\<close>

lemma in_readyD:
  assumes "i \<in> set (readyOutboxIDsLocked s eid before limit)"
  shows "\<exists>h. fmlookup (outboxOf s eid) i = Some h \<and> isDue before h \<and> \<not> dispatchHeldLocked s eid"
  using assms set_clip [of limit "sortedKeys (mapFilter (\<lambda>_ h. isDue before h) (outboxOf s eid))"]
  by (auto simp: readyOutboxIDsLocked_def Let_def hasKey_def split: if_splits option.splits)

lemma in_ready_unlimited:
  assumes "limit < 0"
  shows "i \<in> set (readyOutboxIDsLocked s eid before limit) \<longleftrightarrow>
     \<not> dispatchHeldLocked s eid \<and> (\<exists>h. fmlookup (outboxOf s eid) i = Some h \<and> isDue before h)"
  using assms
  by (auto simp: readyOutboxIDsLocked_def Let_def hasKey_def clip_def fmap_empty_iff split: option.splits)

lemma distinct_ready [simp]: "distinct (readyOutboxIDsLocked s eid before limit)"
  by (simp add: readyOutboxIDsLocked_def Let_def distinct_clip)

lemma length_ready:
  "limit > 0 \<Longrightarrow> int (length (readyOutboxIDsLocked s eid before limit)) \<le> limit"
  by (auto simp: readyOutboxIDsLocked_def Let_def intro: length_clip)

text \<open>An intent parked behind the hold is not due before the year 9999.\<close>

lemma held_not_due: "isHeld h \<Longrightarrow> before < queuedOutboxHold \<Longrightarrow> \<not> isDue before h"
  by (simp add: isHeld_def isDue_def)

section \<open>Leasing\<close>

definition leased :: "Time \<Rightarrow> memoryOutboxEntry \<Rightarrow> memoryOutboxEntry" where
  "leased now h = h\<lparr>mo_leasedUntil := now + OutboxDeliveryLeaseTTL\<rparr>"

definition leaseView :: "Time \<Rightarrow> OutboxEntry \<Rightarrow> OutboxEntry" where
  "leaseView now e = e\<lparr>oe_LeaseDeadlineMs := UnixMilli (now + OutboxDeliveryLeaseTTL)\<rparr>"

lemma leaseOne_step:
  assumes "fmlookup (outboxOf s eid) i = Some h"
  shows "leaseOne now eid i (s, out) =
    (s\<lparr>outbox := fmupd eid (fmupd i (leased now h) (outboxOf s eid)) (outbox s)\<rparr>,
     out @ [leaseView now (mo_entry h)])"
  using assms by (simp add: leaseOne_def leased_def leaseView_def Let_def)

lemma lease_fold:
  assumes "distinct ids" "\<forall>i\<in>set ids. fmlookup (outboxOf s eid) i \<noteq> None"
  shows "(\<exists>X. fst (fold (leaseOne now eid) ids (s, out)) = s\<lparr>outbox := X\<rparr>)
    \<and> (\<forall>e i. fmlookup (outboxOf (fst (fold (leaseOne now eid) ids (s, out))) e) i =
          (if e = eid \<and> i \<in> set ids then map_option (leased now) (fmlookup (outboxOf s e) i)
           else fmlookup (outboxOf s e) i))
    \<and> snd (fold (leaseOne now eid) ids (s, out)) =
        out @ map (\<lambda>i. leaseView now (mo_entry (the (fmlookup (outboxOf s eid) i)))) ids"
  using assms
proof (induction ids arbitrary: s out)
  case Nil
  have "s = s\<lparr>outbox := outbox s\<rparr>" by simp
  then show ?case by (auto intro: exI [of _ "outbox s"])
next
  case (Cons j ids)
  then obtain h where h: "fmlookup (outboxOf s eid) j = Some h" by fastforce
  define s1 where "s1 = s\<lparr>outbox := fmupd eid (fmupd j (leased now h) (outboxOf s eid)) (outbox s)\<rparr>"
  have lk: "fmlookup (outboxOf s1 e) i =
      (if e = eid \<and> i = j then Some (leased now h) else fmlookup (outboxOf s e) i)" for e i
    by (auto simp: s1_def outboxOf_def)
  have in1: "\<forall>i\<in>set ids. fmlookup (outboxOf s1 eid) i \<noteq> None"
    using Cons.prems by (auto simp: lk)
  have st: "fold (leaseOne now eid) (j # ids) (s, out) =
      fold (leaseOne now eid) ids (s1, out @ [leaseView now (mo_entry h)])"
    by (simp add: leaseOne_step [OF h] s1_def)
  have nj: "j \<notin> set ids" and d: "distinct ids" using Cons.prems by simp_all
  note IH = Cons.IH [OF d in1, of "out @ [leaseView now (mo_entry h)]", folded st]
  have 1: "\<exists>X. fst (fold (leaseOne now eid) (j # ids) (s, out)) = s\<lparr>outbox := X\<rparr>"
    using IH by (auto simp: s1_def)
  have 2: "\<forall>e i. fmlookup (outboxOf (fst (fold (leaseOne now eid) (j # ids) (s, out))) e) i =
          (if e = eid \<and> i \<in> set (j # ids) then map_option (leased now) (fmlookup (outboxOf s e) i)
           else fmlookup (outboxOf s e) i)"
    using IH nj h by (simp add: lk)
  have "map (\<lambda>i. leaseView now (mo_entry (the (fmlookup (outboxOf s1 eid) i)))) ids =
        map (\<lambda>i. leaseView now (mo_entry (the (fmlookup (outboxOf s eid) i)))) ids"
    using nj by (auto simp: lk)
  then have 3: "snd (fold (leaseOne now eid) (j # ids) (s, out)) =
      out @ map (\<lambda>i. leaseView now (mo_entry (the (fmlookup (outboxOf s eid) i)))) (j # ids)"
    using IH h by simp
  show ?case using 1 2 3 by blast
qed

lemma LeaseOutbox_effect:
  assumes "LeaseOutbox s eid now limit = (s', out)"
  defines "ids \<equiv> readyOutboxIDsLocked s eid now limit"
  shows "\<exists>X. s' = s\<lparr>outbox := X\<rparr>"
    and "fmlookup (outboxOf s' e) i =
          (if e = eid \<and> i \<in> set ids then map_option (leased now) (fmlookup (outboxOf s e) i)
           else fmlookup (outboxOf s e) i)"
    and "out = map (\<lambda>i. leaseView now (mo_entry (the (fmlookup (outboxOf s eid) i)))) ids"
proof -
  have "\<forall>i\<in>set ids. fmlookup (outboxOf s eid) i \<noteq> None"
    using in_readyD by (fastforce simp: ids_def)
  note L = lease_fold [OF distinct_ready [of s eid now limit], of s eid, folded ids_def, OF this, of now "[]"]
  have s': "s' = fst (fold (leaseOne now eid) ids (s, []))"
    and out: "out = snd (fold (leaseOne now eid) ids (s, []))"
    using assms(1) by (simp_all add: LeaseOutbox_def ids_def)
  show "\<exists>X. s' = s\<lparr>outbox := X\<rparr>" using L by (simp add: s')
  show "fmlookup (outboxOf s' e) i =
          (if e = eid \<and> i \<in> set ids then map_option (leased now) (fmlookup (outboxOf s e) i)
           else fmlookup (outboxOf s e) i)" using L by (simp add: s')
  show "out = map (\<lambda>i. leaseView now (mo_entry (the (fmlookup (outboxOf s eid) i)))) ids"
    using L by (simp add: out)
qed

text \<open>Entries are stored under their own identifier.\<close>

definition keyed :: "memoryState \<Rightarrow> bool" where
  "keyed s \<longleftrightarrow> (\<forall>eid i h. fmlookup (outboxOf s eid) i = Some h \<longrightarrow> oe_ID (mo_entry h) = i)"

lemma keyedD: "keyed s \<Longrightarrow> fmlookup (outboxOf s eid) i = Some h \<Longrightarrow> oe_ID (mo_entry h) = i"
  by (simp add: keyed_def)

lemma keyed_put [simp]: "keyed s \<Longrightarrow> keyed (snd (putOutboxEntryLocked now eid entry s))"
  by (auto simp: keyed_def putOutboxEntryLocked_lookup newOutboxEntry_def split: if_splits)

lemma keyed_lease: "keyed s \<Longrightarrow> LeaseOutbox s eid now limit = (s', out) \<Longrightarrow> keyed s'"
  by (auto simp: keyed_def LeaseOutbox_effect(2) leased_def split: if_splits)

lemma leased_ids:
  assumes "keyed s" "LeaseOutbox s eid now limit = (s', out)"
  shows "map oe_ID out = readyOutboxIDsLocked s eid now limit"
proof -
  have "oe_ID (leaseView now (mo_entry (the (fmlookup (outboxOf s eid) i)))) = i"
    if "i \<in> set (readyOutboxIDsLocked s eid now limit)" for i
    using in_readyD [OF that] keyedD [OF assms(1)] by (auto simp: leaseView_def)
  then show ?thesis
    by (simp add: LeaseOutbox_effect(3) [OF assms(2)] o_def map_idI)
qed

lemma leased_not_due:
  assumes "LeaseOutbox s eid now limit = (s', out)" "i \<in> set (readyOutboxIDsLocked s eid now limit)"
    "t < now + OutboxDeliveryLeaseTTL"
  shows "i \<notin> set (readyOutboxIDsLocked s' eid t l)"
proof
  assume "i \<in> set (readyOutboxIDsLocked s' eid t l)"
  then obtain h where h: "fmlookup (outboxOf s' eid) i = Some h" "isDue t h" using in_readyD by blast
  then obtain h0 where "h = leased now h0"
    using assms(2) by (auto simp: LeaseOutbox_effect(2) [OF assms(1)])
  then show False using h(2) assms(3) by (simp add: isDue_def leased_def)
qed

text \<open>C16. Delivery leases are exclusive: the entries one deliverer obtained are
  handed to no other deliverer before the lease of \<open>OutboxDeliveryLeaseTTL\<close> has
  run out, whatever limit the second one asks for.\<close>

theorem lease_exclusive:
  assumes "keyed s"
    and "LeaseOutbox s eid now limit = (s1, mine)"
    and "t < now + OutboxDeliveryLeaseTTL"
    and "LeaseOutbox s1 eid t limit' = (s2, theirs)"
  shows "set (map oe_ID mine) \<inter> set (map oe_ID theirs) = {}"
proof -
  have "keyed s1" using assms(1,2) by (rule keyed_lease)
  then show ?thesis
    using leased_not_due [OF assms(2) _ assms(3), of _ limit']
    by (auto simp: leased_ids [OF assms(1,2)] leased_ids [OF \<open>keyed s1\<close> assms(4)]
        simp del: set_map)
qed

text \<open>C17. A deliverer that dies loses nothing: once its lease has run out, every
  entry it had leased and nobody acknowledged is ready again.\<close>

theorem lease_redelivers:
  assumes "keyed s"
    and "LeaseOutbox s eid now limit = (s1, mine)"
    and "now + OutboxDeliveryLeaseTTL \<le> t"
  shows "set (map oe_ID mine) \<subseteq> set (readyOutboxIDsLocked s1 eid t (- 1))"
proof
  fix i assume "i \<in> set (map oe_ID mine)"
  then have i: "i \<in> set (readyOutboxIDsLocked s eid now limit)"
    by (simp only: leased_ids [OF assms(1,2)])
  then obtain h where h: "fmlookup (outboxOf s eid) i = Some h" "isDue now h" "\<not> dispatchHeldLocked s eid"
    using in_readyD by blast
  obtain X where "s1 = s\<lparr>outbox := X\<rparr>" using LeaseOutbox_effect(1) [OF assms(2)] by blast
  then have "\<not> dispatchHeldLocked s1 eid" using h(3) by (simp add: dispatchHeldLocked_def statusOf_def)
  moreover have "fmlookup (outboxOf s1 eid) i = Some (leased now h)"
    using i h(1) by (simp add: LeaseOutbox_effect(2) [OF assms(2)])
  moreover have "isDue t (leased now h)"
    using h(2) assms(3) by (auto simp: isDue_def leased_def availableAt_def OutboxDeliveryLeaseTTL_def)
  ultimately show "i \<in> set (readyOutboxIDsLocked s1 eid t (- 1))"
    by (auto simp: in_ready_unlimited)
qed

lemma renew_single:
  "RenewOutbox s eid [e] now =
     (case fmlookup (outboxOf s eid) (oe_ID e) of
        None \<Rightarrow> (s, [])
      | Some h \<Rightarrow>
          if mo_leasedUntil h > now \<and> UnixMilli (mo_leasedUntil h) = oe_LeaseDeadlineMs e
          then (s\<lparr>outbox := fmupd eid (fmupd (oe_ID e) (leased now h) (outboxOf s eid)) (outbox s)\<rparr>,
                [(mo_entry h)\<lparr>oe_LeasedFromScoreMs := oe_LeasedFromScoreMs e,
                   oe_LeaseDeadlineMs := UnixMilli (now + OutboxDeliveryLeaseTTL)\<rparr>])
          else (s, []))"
  by (auto simp: RenewOutbox_def renewOne_def leased_def Let_def split: option.splits)

lemma UnixMilli_TTL: "UnixMilli (t + OutboxDeliveryLeaseTTL) = UnixMilli t + 5000"
proof -
  have "t + OutboxDeliveryLeaseTTL - unixEpoch = (t - unixEpoch) + 5000 * 1000000"
    by (simp add: OutboxDeliveryLeaseTTL_def)
  then show ?thesis by (simp add: UnixMilli_def)
qed

lemma leased_entry:
  assumes "keyed s" "LeaseOutbox s eid now limit = (s1, mine)" "e \<in> set mine"
  obtains h where "fmlookup (outboxOf s eid) (oe_ID e) = Some h" "isDue now h"
    "fmlookup (outboxOf s1 eid) (oe_ID e) = Some (leased now h)"
    "oe_LeaseDeadlineMs e = UnixMilli (now + OutboxDeliveryLeaseTTL)"
proof -
  have "oe_ID e \<in> set (map oe_ID mine)" using assms(3) by simp
  then have i: "oe_ID e \<in> set (readyOutboxIDsLocked s eid now limit)"
    by (simp only: leased_ids [OF assms(1,2)])
  then obtain h where h: "fmlookup (outboxOf s eid) (oe_ID e) = Some h" "isDue now h"
    using in_readyD by blast
  moreover have "fmlookup (outboxOf s1 eid) (oe_ID e) = Some (leased now h)"
    using i h(1) by (simp add: LeaseOutbox_effect(2) [OF assms(2)])
  moreover have "oe_LeaseDeadlineMs e = UnixMilli (now + OutboxDeliveryLeaseTTL)"
    using assms(3) by (auto simp: LeaseOutbox_effect(3) [OF assms(2)] leaseView_def)
  ultimately show thesis using that by blast
qed

text \<open>C18. The renewal fence: when a lease ran out and another deliverer leased the
  entry, the first deliverer can no longer renew it and its attempt changes
  nothing, while the new holder's renewal inside its own lease is granted.\<close>

theorem renew_fenced:
  assumes "keyed s"
    and "LeaseOutbox s eid t0 limit = (s1, mine)" "e \<in> set mine"
    and "t0 + OutboxDeliveryLeaseTTL \<le> t1"
    and "LeaseOutbox s1 eid t1 limit' = (s2, theirs)" "e' \<in> set theirs" "oe_ID e' = oe_ID e"
  shows "RenewOutbox s2 eid [e] t2 = (s2, [])
    \<and> (t2 < t1 + OutboxDeliveryLeaseTTL \<longrightarrow> map oe_ID (snd (RenewOutbox s2 eid [e'] t2)) = [oe_ID e])"
proof -
  have k1: "keyed s1" using assms(1,2) by (rule keyed_lease)
  obtain h where h: "fmlookup (outboxOf s1 eid) (oe_ID e) = Some (leased t0 h)"
      "oe_LeaseDeadlineMs e = UnixMilli (t0 + OutboxDeliveryLeaseTTL)"
    using leased_entry [OF assms(1,2,3)] by metis
  obtain h' where h': "fmlookup (outboxOf s2 eid) (oe_ID e) = Some (leased t1 h')"
      "oe_LeaseDeadlineMs e' = UnixMilli (t1 + OutboxDeliveryLeaseTTL)"
    using leased_entry [OF k1 assms(5,6)] assms(7) by metis
  have k2: "keyed s2" using k1 assms(5) by (rule keyed_lease)
  have "UnixMilli t0 + 5000 \<le> UnixMilli t1"
    using UnixMilli_mono [OF assms(4)] by (simp add: UnixMilli_TTL)
  then have "UnixMilli (t1 + OutboxDeliveryLeaseTTL) \<noteq> oe_LeaseDeadlineMs e"
    by (simp add: h(2) UnixMilli_TTL)
  moreover have "oe_ID (mo_entry (leased t1 h')) = oe_ID e" using keyedD [OF k2 h'(1)] .
  ultimately show ?thesis
    using h' assms(7) by (simp add: renew_single leased_def)
qed

section \<open>Delivery failures\<close>

lemma RecordOutboxFailure_below:
  assumes "fmlookup (outboxOf s eid) (oe_ID e) = Some h" "0 < m" "oe_Attempts (mo_entry h) + 1 < m"
  shows "fst (RecordOutboxFailure eid e m s) =
    s\<lparr>outbox := fmupd eid (fmupd (oe_ID e) (countAttempt h) (outboxOf s eid)) (outbox s)\<rparr>"
  using assms by (simp add: RecordOutboxFailure_def countAttempt_def Let_def)

lemma RecordOutboxFailure_reached:
  assumes "fmlookup (outboxOf s eid) (oe_ID e) = Some h" "0 < m" "oe_Attempts (mo_entry h) + 1 \<ge> m"
  defines "s' \<equiv> fst (RecordOutboxFailure eid e m s)"
  shows "fmlookup (outboxOf s' eid) (oe_ID e) = None"
    and "\<exists>meta. fmlookup (deadOf s' eid) (oe_ID e) = Some ((countAttempt h)\<lparr>mo_deadMeta := Some meta\<rparr>)"
    and "of_DeadLettered (snd (RecordOutboxFailure eid e m s))"
  using assms
  by (auto simp: RecordOutboxFailure_def countAttempt_def Let_def outboxOf_def deadOf_def)

lemma RecordOutboxFailure_absent:
  "fmlookup (outboxOf s eid) (oe_ID e) = None \<Longrightarrow> fst (RecordOutboxFailure eid e m s) = s"
  by (simp add: RecordOutboxFailure_def Let_def)

definition failTimes :: "nat \<Rightarrow> ExecutionID \<Rightarrow> OutboxEntry \<Rightarrow> int \<Rightarrow> memoryState \<Rightarrow> memoryState" where
  "failTimes n eid e m s = ((\<lambda>s. fst (RecordOutboxFailure eid e m s)) ^^ n) s"

lemma failTimes_below:
  assumes "fmlookup (outboxOf s eid) (oe_ID e) = Some h" "oe_Attempts (mo_entry h) = 0" "int n < m"
  shows "\<exists>h'. fmlookup (outboxOf (failTimes n eid e m s) eid) (oe_ID e) = Some h'
    \<and> oe_Attempts (mo_entry h') = int n \<and> oe_Task (mo_entry h') = oe_Task (mo_entry h)
    \<and> deadOutbox (failTimes n eid e m s) = deadOutbox s"
  using assms(3)
proof (induction n)
  case 0
  then show ?case using assms(1,2) by (simp add: failTimes_def)
next
  case (Suc n)
  then obtain h' where h': "fmlookup (outboxOf (failTimes n eid e m s) eid) (oe_ID e) = Some h'"
      "oe_Attempts (mo_entry h') = int n" "oe_Task (mo_entry h') = oe_Task (mo_entry h)"
      "deadOutbox (failTimes n eid e m s) = deadOutbox s" by auto
  have "failTimes (Suc n) eid e m s = fst (RecordOutboxFailure eid e m (failTimes n eid e m s))"
    by (simp add: failTimes_def)
  then show ?case
    using Suc.prems h' RecordOutboxFailure_below [OF h'(1), of m]
    by (simp add: countAttempt_def outboxOf_def)
qed

text \<open>C19. Delivery is retried a bounded number of times: an entry that has never
  failed stays in the outbox, unchanged but for its attempt counter, for fewer
  than \<open>maxAttempts\<close> failures; the failure that reaches the bound moves it, with
  its task, to the dead letters, and later failure reports change nothing.\<close>

theorem failure_threshold:
  fixes n :: nat
  assumes "fmlookup (outboxOf s eid) (oe_ID e) = Some h" "oe_Attempts (mo_entry h) = 0" "0 < m"
    and "fmlookup (deadOf s eid) (oe_ID e) = None"
  defines "s' \<equiv> failTimes n eid e m s"
  shows "if int n < m
    then (\<exists>h'. fmlookup (outboxOf s' eid) (oe_ID e) = Some h' \<and> oe_Attempts (mo_entry h') = int n
               \<and> oe_Task (mo_entry h') = oe_Task (mo_entry h))
         \<and> fmlookup (deadOf s' eid) (oe_ID e) = None
    else fmlookup (outboxOf s' eid) (oe_ID e) = None
         \<and> (\<exists>h'. fmlookup (deadOf s' eid) (oe_ID e) = Some h' \<and> oe_Attempts (mo_entry h') = m
                 \<and> oe_Task (mo_entry h') = oe_Task (mo_entry h) \<and> mo_deadMeta h' \<noteq> None)"
proof (cases "int n < m")
  case True
  then show ?thesis
    using failTimes_below [OF assms(1,2)] assms(4) by (fastforce simp: s'_def deadOf_def)
next
  case False
  define k where "k = nat m - 1"
  have k: "int k + 1 = m" using assms(3) by (simp add: k_def)
  define sk where "sk = failTimes k eid e m s"
  obtain h' where h': "fmlookup (outboxOf sk eid) (oe_ID e) = Some h'"
      "oe_Attempts (mo_entry h') = int k" "oe_Task (mo_entry h') = oe_Task (mo_entry h)"
    using failTimes_below [OF assms(1,2), of k m] k by (auto simp: sk_def)
  define sm where "sm = fst (RecordOutboxFailure eid e m sk)"
  have R: "fmlookup (outboxOf sm eid) (oe_ID e) = None"
      "\<exists>meta. fmlookup (deadOf sm eid) (oe_ID e) = Some ((countAttempt h')\<lparr>mo_deadMeta := Some meta\<rparr>)"
    using RecordOutboxFailure_reached [OF h'(1) assms(3)] h'(2) k by (simp_all add: sm_def)
  have "((\<lambda>s. fst (RecordOutboxFailure eid e m s)) ^^ j) sm = sm" for j
    by (induction j) (simp_all add: RecordOutboxFailure_absent R(1))
  moreover have "n = (n - Suc k) + Suc k" using False k by simp
  then have "s' = ((\<lambda>s. fst (RecordOutboxFailure eid e m s)) ^^ (n - Suc k)) sm"
    unfolding s'_def sm_def sk_def failTimes_def
    by (metis (no_types, lifting) comp_apply funpow.simps(2) funpow_add)
  ultimately have "s' = sm" by simp
  then show ?thesis using False R h'(2,3) k by (auto simp: countAttempt_def)
qed

section \<open>Replaying dead letters\<close>

lemma effectiveRequestID_nonempty: "rq_EntryID req \<noteq> '''' \<Longrightarrow> effectiveRequestID req \<noteq> ''''"
  by (simp add: effectiveRequestID_def)

lemma receiptResult_not_replayed: "rp_Outcome (receiptResult r eid) \<noteq> ReplayReplayed"
  by (simp add: receiptResult_def)

text \<open>The one branch that answers \<open>replayed\<close>, with everything it writes.\<close>

lemma ReplayDeadLetter_replayed:
  assumes "ReplayDeadLetter now req s = (s', r)" "rp_Outcome r = ReplayReplayed"
  defines "eid \<equiv> rq_ExecutionID req"
  obtains h meta where "rq_EntryID req \<noteq> ''''" "priorReceipt s req = None"
    "fmlookup (deadOf s eid) (rq_EntryID req) = Some h"
    "replayGuard s eid meta = None"
    "outbox s' = fmupd eid (fmupd (rq_EntryID req) (revive h) (outboxOf s eid)) (outbox s)"
    "deadOutbox s' = storeEntries eid (fmdrop (rq_EntryID req) (deadOf s eid)) (deadOutbox s)"
    "receiptsOf s' eid = fmupd (effectiveRequestID req)
       (mkReceipt now req (rp_AuditID r) meta ReplayReplayed) (receiptsOf s eid)"
    "mapGet '''' (entryIdxOf s' eid) (rq_EntryID req) = effectiveRequestID req"
  using assms
  by (auto simp: ReplayDeadLetter_def Let_def replayNotFound_def receiptResult_not_replayed
      moveDeadToReady_def writeReplayReceiptLocked_def receiptsOf_def entryIdxOf_def
      split: if_splits option.splits)

lemma prior_replay_recovered:
  assumes "priorReceipt s req = Some r" "rq_EntryID req \<noteq> ''''"
  shows "ReplayDeadLetter now req s = (s, receiptResult r (rq_ExecutionID req))"
  using assms by (simp add: ReplayDeadLetter_def Let_def)

text \<open>An entry that dies again is replayed again, by a request that has no answer yet:
  dead-lettering it forgets the earlier replay.\<close>

lemma dead_letter_again:
  assumes "fmlookup (outboxOf s eid) (oe_ID e) = Some h" "0 < m" "m \<le> oe_Attempts (mo_entry h) + 1" "oe_ID e \<noteq> ''''"
    and "RecordOutboxFailure eid e m s = (s1, f)"
    and "rq_ExecutionID req = eid" "rq_EntryID req = oe_ID e" "fmlookup (receiptsOf s eid) (effectiveRequestID req) = None"
    and "replayGuard s1 eid \<lparr>dm_node = t_NodeName (oe_Task e), dm_activation = itoa (t_ActivationID (oe_Task e)),
           dm_intent = deadLetterIntent (oe_ID e)\<rparr> = None"
  shows "rp_Outcome (snd (ReplayDeadLetter now req s1)) = ReplayReplayed"
proof -
  have s1: "s1 = fst (RecordOutboxFailure eid e m s)" using assms(5) by simp
  have "fmlookup (receiptsOf s1 eid) (effectiveRequestID req) = None" "mapGet '''' (entryIdxOf s1 eid) (oe_ID e) = ''''"
    unfolding s1 using assms(1,2,3,8)
    by (simp_all add: RecordOutboxFailure_def countAttempt_def Let_def receiptsOf_def entryIdxOf_def mapGet_def split: option.split)
  then have p: "priorReceipt s1 req = None" using assms(6,7) by (simp add: priorReceipt_def)
  obtain d where "fmlookup (deadOf s1 eid) (oe_ID e) = Some d"
      "mo_deadMeta d = Some \<lparr>dm_node = t_NodeName (oe_Task e), dm_activation = itoa (t_ActivationID (oe_Task e)),
         dm_intent = deadLetterIntent (oe_ID e)\<rparr>"
    unfolding s1 using assms(1,2,3) by (simp add: RecordOutboxFailure_def countAttempt_def Let_def deadOf_def)
  then show ?thesis using p assms(4,6,7,9) by (simp add: ReplayDeadLetter_def Let_def)
qed

text \<open>C21. Replay undoes dead-lettering: an entry that the last allowed failure
  moved to the dead letters, replayed while the guards accept it, is back in the
  outbox with the task it was written with, no attempts and no lease.\<close>

theorem dead_letter_roundtrip:
  assumes "fmlookup (outboxOf s eid) (oe_ID e) = Some h" "0 < m" "m \<le> oe_Attempts (mo_entry h) + 1"
    and "RecordOutboxFailure eid e m s = (s1, f)"
    and "ReplayDeadLetter now req s1 = (s2, r)" "rq_ExecutionID req = eid" "rq_EntryID req = oe_ID e"
    and "rp_Outcome r = ReplayReplayed"
  shows "of_DeadLettered f
    \<and> fmlookup (outboxOf s2 eid) (oe_ID e) =
        Some \<lparr>mo_entry = (mo_entry h)\<lparr>oe_Attempts := 0\<rparr>, mo_leasedUntil = zeroTime, mo_deadMeta = None\<rparr>
    \<and> fmlookup (deadOf s2 eid) (oe_ID e) = None"
proof -
  obtain meta where d: "fmlookup (deadOf s1 eid) (oe_ID e) = Some ((countAttempt h)\<lparr>mo_deadMeta := Some meta\<rparr>)"
    and f: "of_DeadLettered f"
    using RecordOutboxFailure_reached [OF assms(1,2,3)] assms(4) by auto
  obtain h' where "fmlookup (deadOf s1 eid) (oe_ID e) = Some h'"
      "outbox s2 = fmupd eid (fmupd (oe_ID e) (revive h') (outboxOf s1 eid)) (outbox s1)"
      "deadOutbox s2 = storeEntries eid (fmdrop (oe_ID e) (deadOf s1 eid)) (deadOutbox s1)"
    using ReplayDeadLetter_replayed [OF assms(5,8)] assms(6,7) by metis
  then show ?thesis
    using d f by (simp add: revive_def countAttempt_def outboxOf_def deadOf_def)
qed

section \<open>Listing dead letters\<close>

lemma afterCursor_at:
  assumes "distinct (map oe_ID out)" "n < length out" "oe_ID (out ! n) \<noteq> ''''"
  shows "afterCursor (oe_ID (out ! n)) out = drop (Suc n) out"
proof -
  have nth: "oe_ID (out ! i) \<noteq> oe_ID (out ! n)" if "i < n" for i
    using assms(1,2) that nth_eq_iff_index_eq [of "map oe_ID out" i n] by simp
  have tw: "takeWhile (\<lambda>e. oe_ID e \<noteq> oe_ID (out ! n)) out = take n out"
    using nth assms(2) by (intro takeWhile_eq_take_P_nth) auto
  have "dropWhile (\<lambda>e. oe_ID e \<noteq> oe_ID (out ! n)) out = drop n out"
    using tw assms(2) by (simp add: dropWhile_eq_drop)
  then show ?thesis using assms(3) by (simp add: afterCursor_def drop_Suc tl_drop)
qed

lemma pageLimit_pos: "0 < pageLimit l" "pageLimit l \<le> 500"
  by (auto simp: pageLimit_def Let_def)

text \<open>Dead letters are stored under their own, non-empty identifier.\<close>

definition deadKeyed :: "memoryState \<Rightarrow> ExecutionID \<Rightarrow> bool" where
  "deadKeyed s eid \<longleftrightarrow>
     (\<forall>i h. fmlookup (deadOf s eid) i = Some h \<longrightarrow> i \<noteq> '''' \<and> oe_ID (mo_entry h) = i)"

lemma deadKeyed_code [code]:
  "deadKeyed s eid \<longleftrightarrow> (\<forall>i\<in>set (sortedKeys (deadOf s eid)).
     i \<noteq> '''' \<and> oe_ID (mo_entry (the (fmlookup (deadOf s eid) i))) = i)"
  by (auto simp: deadKeyed_def hasKey_def)

definition deadEntries :: "memoryState \<Rightarrow> ExecutionID \<Rightarrow> string list \<Rightarrow> OutboxEntry list" where
  "deadEntries s eid ids = map (\<lambda>i. mo_entry (the (fmlookup (deadOf s eid) i))) ids"

lemma deadEntries_ids:
  assumes "deadKeyed s eid" "deadLetterOrder s eid ids"
  shows "map oe_ID (deadEntries s eid ids) = ids"
proof -
  have "oe_ID (mo_entry (the (fmlookup (deadOf s eid) i))) = i" if "i \<in> set ids" for i
    using assms that by (auto simp: deadKeyed_def deadLetterOrder_def hasKey_def)
  then show ?thesis by (simp add: deadEntries_def o_def map_idI)
qed

lemma afterCursor_suffix: "\<exists>n. afterCursor c out = drop n out"
proof (cases "c = ''''")
  case True
  then show ?thesis by (auto simp: afterCursor_def intro: exI [of _ 0])
next
  case False
  then have "afterCursor c out = drop (Suc (length (takeWhile (\<lambda>e. oe_ID e \<noteq> c) out))) out"
    by (simp add: afterCursor_def dropWhile_eq_drop drop_Suc tl_drop)
  then show ?thesis by blast
qed

text \<open>C22. Paging through the dead letters in one order loses and repeats nothing:
  a page followed by what its cursor leads to is exactly what the page's own
  cursor led to, and a page has at most 500 entries.\<close>

theorem dead_letter_paging:
  assumes "deadKeyed s eid" "deadLetterOrder s eid ids"
    and "ListDeadLetters s eid page ids = p"
  shows "length (dl_Entries p) \<le> 500
    \<and> dl_Entries p @ (if dl_NextCursor p = '''' then []
                      else afterCursor (dl_NextCursor p) (deadEntries s eid ids))
      = afterCursor (dp_Cursor page) (deadEntries s eid ids)"
proof -
  define out where "out = deadEntries s eid ids"
  define k where "k = nat (pageLimit (dp_Limit page))"
  have k: "0 < k" "k \<le> 500" "int k = pageLimit (dp_Limit page)"
    using pageLimit_pos [of "dp_Limit page"] by (simp_all add: k_def)
  obtain n where n: "afterCursor (dp_Cursor page) out = drop n out" using afterCursor_suffix by blast
  have p: "p = (if length (drop n out) > k
                then \<lparr>dl_Entries = take k (drop n out), dl_NextCursor = oe_ID (drop n out ! (k - 1))\<rparr>
                else \<lparr>dl_Entries = drop n out, dl_NextCursor = ''''\<rparr>)"
    using assms(3) k n
    by (auto simp: ListDeadLetters_def Let_def out_def deadEntries_def k_def nat_diff_distrib)
  have ids: "map oe_ID out = ids" using deadEntries_ids [OF assms(1,2)] by (simp add: out_def)
  have dist: "distinct (map oe_ID out)" using assms(2) by (simp add: ids deadLetterOrder_def)
  have ne: "i \<in> set ids \<Longrightarrow> i \<noteq> ''''" for i
    using assms(1,2) by (auto simp: deadKeyed_def deadLetterOrder_def hasKey_def)
  show ?thesis
  proof (cases "length (drop n out) > k")
    case True
    define j where "j = n + (k - 1)"
    have j: "j < length out" "drop n out ! (k - 1) = out ! j" "Suc j = n + k"
      using True k(1) by (auto simp: j_def)
    have "oe_ID (out ! j) \<in> set ids" using j(1) ids by (metis length_map nth_map nth_mem)
    then have "afterCursor (oe_ID (out ! j)) out = drop (n + k) out" and c: "oe_ID (out ! j) \<noteq> ''''"
      using afterCursor_at [OF dist j(1)] ne j(3) by auto
    moreover have "p = \<lparr>dl_Entries = take k (drop n out), dl_NextCursor = oe_ID (out ! j)\<rparr>"
      using True j(2) by (simp add: p)
    moreover have "take k (drop n out) @ drop (n + k) out = drop n out"
      by (metis add.commute append_take_drop_id drop_drop)
    ultimately show ?thesis using n k(2) by (simp flip: out_def)
  next
    case False
    then show ?thesis using n k(2) by (auto simp: p simp flip: out_def)
  qed
qed

text \<open>A cursor names an entry, so it is lost with the entry: when the entry of the
  cursor was replayed between two pages, the next page is empty and final, and
  the entries after it are not listed.\<close>

lemma dead_letter_cursor_lost:
  assumes "dp_Cursor page \<noteq> ''''"
    and "dp_Cursor page \<notin> set (map (\<lambda>i. oe_ID (mo_entry (the (fmlookup (deadOf s eid) i)))) ids)"
  shows "ListDeadLetters s eid page ids = \<lparr>dl_Entries = [], dl_NextCursor = ''''\<rparr>"
proof -
  define out where "out = map (\<lambda>i. mo_entry (the (fmlookup (deadOf s eid) i))) ids"
  have "dropWhile (\<lambda>e. oe_ID e \<noteq> dp_Cursor page) out = []"
    using assms(2) by (force simp: out_def)
  then have "afterCursor (dp_Cursor page) out = []"
    using assms(1) by (simp only: afterCursor_def if_False list.sel(2))
  then show ?thesis
    using pageLimit_pos [of "dp_Limit page"] by (simp add: ListDeadLetters_def Let_def flip: out_def)
qed

section \<open>Instances\<close>

text \<open>A store with one running execution and two intents, and a dead letter of
  it.\<close>

definition sampleTask :: Task where
  "sampleTask = emptyTask\<lparr>t_ExecutionID := ''ex'', t_NodeName := ''fetch''\<rparr>"

definition sampleEntry :: OutboxEntry where
  "sampleEntry = mkOutboxEntry ''execute/0/0'' sampleTask zeroTime"

definition sampleStore :: memoryState where
  "sampleStore =
     snd (putOutboxEntryLocked 100 ''ex'' (mkOutboxEntry ''execute/1/0'' sampleTask zeroTime)
       (snd (putOutboxEntryLocked 100 ''ex'' sampleEntry
         ((newMemoryState False)\<lparr>executions := fmap_of_list
            [(''ex'', \<lparr>snap = zeroExecution\<lparr>es_ID := ''ex'', es_Status := ExecutionStatusRunning\<rparr>, closed = False\<rparr>)]\<rparr>))))"

lemma keyed_sample: "keyed sampleStore"
  unfolding sampleStore_def by (intro keyed_put) (simp add: keyed_def outboxOf_def newMemoryState_def)

definition sampleDead :: memoryState where
  "sampleDead = fst (RecordOutboxFailure ''ex'' sampleEntry 1 sampleStore)"

definition sampleReplay :: ReplayDeadLetterRequest where
  "sampleReplay = \<lparr>rq_ExecutionID = ''ex'', rq_EntryID = ''execute/0/0'', rq_RequestID = ''r1'',
     rq_Operator = ''op'', rq_Reason = ''fixed''\<rparr>"

theorem lease_exclusive_witness:
  "map oe_ID (snd (LeaseOutbox sampleStore ''ex'' 200 1)) = [''execute/0/0'']
   \<and> map oe_ID (snd (LeaseOutbox (fst (LeaseOutbox sampleStore ''ex'' 200 1)) ''ex'' 300 (- 1))) = [''execute/1/0'']
   \<and> set (map oe_ID (snd (LeaseOutbox sampleStore ''ex'' 200 1)))
     \<inter> set (map oe_ID (snd (LeaseOutbox (fst (LeaseOutbox sampleStore ''ex'' 200 1)) ''ex'' 300 (- 1)))) = {}"
proof (intro conjI)
  show "set (map oe_ID (snd (LeaseOutbox sampleStore ''ex'' 200 1)))
     \<inter> set (map oe_ID (snd (LeaseOutbox (fst (LeaseOutbox sampleStore ''ex'' 200 1)) ''ex'' 300 (- 1)))) = {}"
    by (rule lease_exclusive [OF keyed_sample prod.collapse [symmetric] _ prod.collapse [symmetric]])
      (simp add: OutboxDeliveryLeaseTTL_def)
qed code_simp+

theorem lease_redelivers_witness:
  "map oe_ID (snd (LeaseOutbox sampleStore ''ex'' 200 1)) = [''execute/0/0'']
   \<and> set (map oe_ID (snd (LeaseOutbox sampleStore ''ex'' 200 1)))
     \<subseteq> set (readyOutboxIDsLocked (fst (LeaseOutbox sampleStore ''ex'' 200 1)) ''ex'' 6000000000 (- 1))"
proof (intro conjI)
  show "set (map oe_ID (snd (LeaseOutbox sampleStore ''ex'' 200 1)))
     \<subseteq> set (readyOutboxIDsLocked (fst (LeaseOutbox sampleStore ''ex'' 200 1)) ''ex'' 6000000000 (- 1))"
    by (rule lease_redelivers [OF keyed_sample prod.collapse [symmetric]]) (simp add: OutboxDeliveryLeaseTTL_def)
qed code_simp

definition sampleLease1 :: "memoryState \<times> OutboxEntry list" where
  "sampleLease1 = LeaseOutbox sampleStore ''ex'' 200 1"

definition sampleLease2 :: "memoryState \<times> OutboxEntry list" where
  "sampleLease2 = LeaseOutbox (fst sampleLease1) ''ex'' 6000000000 1"

theorem renew_fenced_witness:
  "RenewOutbox (fst sampleLease2) ''ex'' [hd (snd sampleLease1)] 7000000000 = (fst sampleLease2, [])
   \<and> map oe_ID (snd (RenewOutbox (fst sampleLease2) ''ex'' [hd (snd sampleLease2)] 7000000000)) = [''execute/0/0'']"
proof -
  have e: "hd (snd sampleLease1) \<in> set (snd sampleLease1)" "hd (snd sampleLease2) \<in> set (snd sampleLease2)"
      "oe_ID (hd (snd sampleLease2)) = oe_ID (hd (snd sampleLease1))" "oe_ID (hd (snd sampleLease1)) = ''execute/0/0''"
    by code_simp+
  have "(200::Time) + OutboxDeliveryLeaseTTL \<le> 6000000000" "(7000000000::Time) < 6000000000 + OutboxDeliveryLeaseTTL"
    by (simp_all add: OutboxDeliveryLeaseTTL_def)
  then show ?thesis
    using renew_fenced [OF keyed_sample, of "''ex''" 200 1 "fst sampleLease1" "snd sampleLease1" "hd (snd sampleLease1)"
        6000000000 1 "fst sampleLease2" "snd sampleLease2" "hd (snd sampleLease2)" 7000000000] e
    by (simp add: sampleLease1_def [symmetric] sampleLease2_def [symmetric])
qed

lemma sample_stored:
  "fmlookup (outboxOf sampleStore ''ex'') ''execute/0/0'' = Some (newOutboxEntry 100 sampleEntry)"
  "fmlookup (deadOf sampleStore ''ex'') ''execute/0/0'' = None" "oe_ID sampleEntry = ''execute/0/0''"
  by (simp_all add: sampleStore_def sampleEntry_def putOutboxEntryLocked_def mkOutboxEntry_def outboxOf_def deadOf_def
      newMemoryState_def)

lemma sample_new:
  "oe_Attempts (mo_entry (newOutboxEntry 100 sampleEntry)) = 0"
  "mo_leasedUntil (newOutboxEntry 100 sampleEntry) = zeroTime" "mo_deadMeta (newOutboxEntry 100 sampleEntry) = None"
  by (simp_all add: newOutboxEntry_def sampleEntry_def mkOutboxEntry_def)

theorem failure_threshold_witness:
  "fmlookup (outboxOf (failTimes 2 ''ex'' sampleEntry 2 sampleStore) ''ex'') ''execute/0/0'' = None
   \<and> (\<exists>h. fmlookup (deadOf (failTimes 2 ''ex'' sampleEntry 2 sampleStore) ''ex'') ''execute/0/0'' = Some h
         \<and> oe_Attempts (mo_entry h) = 2)"
  using failure_threshold [of sampleStore "''ex''" sampleEntry "newOutboxEntry 100 sampleEntry" 2 2]
  by (auto simp: sample_stored sample_new)

theorem dead_letter_roundtrip_witness:
  "of_DeadLettered (snd (RecordOutboxFailure ''ex'' sampleEntry 1 sampleStore))
   \<and> fmlookup (outboxOf (fst (ReplayDeadLetter unixEpoch sampleReplay sampleDead)) ''ex'') ''execute/0/0''
     = fmlookup (outboxOf sampleStore ''ex'') ''execute/0/0''"
proof -
  have r: "rp_Outcome (snd (ReplayDeadLetter unixEpoch sampleReplay sampleDead)) = ReplayReplayed"
    "rq_ExecutionID sampleReplay = ''ex''" "rq_EntryID sampleReplay = oe_ID sampleEntry" by code_simp+
  have n: "newOutboxEntry 100 sampleEntry = \<lparr>mo_entry = (mo_entry (newOutboxEntry 100 sampleEntry))\<lparr>oe_Attempts := 0\<rparr>,
      mo_leasedUntil = zeroTime, mo_deadMeta = None\<rparr>"
    by (simp add: newOutboxEntry_def sampleEntry_def mkOutboxEntry_def)
  show ?thesis
    using dead_letter_roundtrip [of sampleStore "''ex''" sampleEntry "newOutboxEntry 100 sampleEntry" 1,
        OF _ _ _ prod.collapse [symmetric] prod.collapse [symmetric] r(2,3)] r(1) n
    by (simp add: sample_stored sample_new sampleDead_def [symmetric])
qed

theorem dead_letter_paging_witness:
  "ListDeadLetters sampleDead ''ex'' \<lparr>dp_Cursor = '''', dp_Limit = 10\<rparr> [''execute/0/0''] =
     \<lparr>dl_Entries = deadEntries sampleDead ''ex'' [''execute/0/0''], dl_NextCursor = ''''\<rparr>"
proof -
  define p where "p = ListDeadLetters sampleDead ''ex'' \<lparr>dp_Cursor = '''', dp_Limit = 10\<rparr> [''execute/0/0'']"
  have "deadKeyed sampleDead ''ex''" by code_simp
  moreover have "deadLetterOrder sampleDead ''ex'' [''execute/0/0'']" by code_simp
  moreover have "dl_NextCursor p = ''''" by (simp add: p_def ListDeadLetters_def Let_def pageLimit_def afterCursor_def)
  ultimately have "dl_Entries p = deadEntries sampleDead ''ex'' [''execute/0/0'']"
    using dead_letter_paging [OF _ _ p_def [symmetric]] by (simp add: afterCursor_def)
  with \<open>dl_NextCursor p = ''''\<close> show ?thesis unfolding p_def [symmetric] by (cases p) simp
qed

end
