(* ===== verification/Sha256.thy ===== *)
theory Sha256
  imports Prelude "HOL-Library.Word"
begin

text \<open>
  The digest the Go standard library computes for \<open>crypto/sha256.Sum256\<close>, with its
  lower-case hexadecimal rendering.  The concurrency key of a workflow is this
  digest of a length-prefixed pair (engine/graph/concurrency.go).
\<close>

unbundle bit_operations_syntax

type_synonym w32 = "32 word"

definition rotr :: "nat \<Rightarrow> w32 \<Rightarrow> w32" where
  "rotr n w = drop_bit n w OR push_bit (32 - n) w"

text \<open>The constants of the standard are the first 32 fractional bits of roots of
  primes: cube roots of the first 64 for the rounds, square roots of the first
  eight for the initial state.\<close>

fun rootBits :: "nat \<Rightarrow> nat \<Rightarrow> int \<Rightarrow> int \<Rightarrow> int" where
  "rootBits 0 k n r = r"
| "rootBits (Suc b) k n r = rootBits b k n (if (r + 2 ^ b) ^ k \<le> n then r + 2 ^ b else r)"

definition fractionalRoot :: "nat \<Rightarrow> int \<Rightarrow> w32" where
  "fractionalRoot k p = of_int (rootBits 38 k (p * 2 ^ (32 * k)) 0)"

definition firstPrimes :: "int list" where
  "firstPrimes = filter (\<lambda>n. list_all (\<lambda>d. n mod d \<noteq> 0) [2..n - 1]) [2..311]"

definition roundConstants :: "w32 list" where
  "roundConstants = map (fractionalRoot 3) firstPrimes"

type_synonym hashState = "w32 \<times> w32 \<times> w32 \<times> w32 \<times> w32 \<times> w32 \<times> w32 \<times> w32"

definition initialHash :: hashState where
  "initialHash = (fractionalRoot 2 2, fractionalRoot 2 3, fractionalRoot 2 5, fractionalRoot 2 7,
     fractionalRoot 2 11, fractionalRoot 2 13, fractionalRoot 2 17, fractionalRoot 2 19)"

text \<open>The search for a root keeps its bracket: the result is the largest integer
  whose power does not exceed the argument.\<close>

lemma rootBits_bracket:
  assumes "r ^ k \<le> n" "n < (r + 2 ^ b) ^ k" "0 \<le> r"
  shows "rootBits b k n r ^ k \<le> n \<and> n < (rootBits b k n r + 1) ^ k"
  using assms
proof (induction b arbitrary: r)
  case (Suc b)
  show ?case
  proof (cases "(r + 2 ^ b) ^ k \<le> n")
    case True
    then show ?thesis using Suc.IH [of "r + 2 ^ b"] Suc.prems by (simp add: algebra_simps)
  next
    case False
    then show ?thesis using Suc.IH [of r] Suc.prems by simp
  qed
qed simp

fun extendSchedule :: "nat \<Rightarrow> w32 list \<Rightarrow> w32 list" where
  "extendSchedule 0 ws = ws"
| "extendSchedule (Suc n) ws =
     (let i = length ws;
          x = ws ! (i - 15); y = ws ! (i - 2);
          s0 = rotr 7 x XOR rotr 18 x XOR drop_bit 3 x;
          s1 = rotr 17 y XOR rotr 19 y XOR drop_bit 10 y
      in extendSchedule n (ws @ [ws ! (i - 16) + s0 + ws ! (i - 7) + s1]))"

definition roundStep :: "w32 \<times> w32 \<Rightarrow> hashState \<Rightarrow> hashState" where
  "roundStep kw st = (case (kw, st) of ((k, w), (a, b, c, d, e, f, g, h)) \<Rightarrow>
     let S1 = rotr 6 e XOR rotr 11 e XOR rotr 25 e;
         ch = (e AND f) XOR (NOT e AND g);
         t1 = h + S1 + ch + k + w;
         S0 = rotr 2 a XOR rotr 13 a XOR rotr 22 a;
         maj = (a AND b) XOR (a AND c) XOR (b AND c);
         t2 = S0 + maj
     in (t1 + t2, a, b, c, d + t1, e, f, g))"

definition addState :: "hashState \<Rightarrow> hashState \<Rightarrow> hashState" where
  "addState x y = (case (x, y) of ((a, b, c, d, e, f, g, h), (a', b', c', d', e', f', g', h')) \<Rightarrow>
     (a + a', b + b', c + c', d + d', e + e', f + f', g + g', h + h'))"

definition compress :: "w32 list \<Rightarrow> hashState \<Rightarrow> hashState" where
  "compress block st = addState (fold roundStep (zip roundConstants (extendSchedule 48 block)) st) st"

text \<open>Padding: one bit, zeros up to 56 modulo 64, and the length in bits as eight
  bytes, most significant first.\<close>

fun bytesBE :: "nat \<Rightarrow> int \<Rightarrow> int list" where
  "bytesBE 0 x = []"
| "bytesBE (Suc n) x = bytesBE n (x div 256) @ [x mod 256]"

definition padMessage :: "int list \<Rightarrow> int list" where
  "padMessage bs = bs @ [128] @ replicate ((119 - length bs mod 64) mod 64) 0 @ bytesBE 8 (8 * int (length bs))"

fun wordsOf :: "int list \<Rightarrow> w32 list" where
  "wordsOf (a # b # c # d # rest) = of_int (((a * 256 + b) * 256 + c) * 256 + d) # wordsOf rest"
| "wordsOf _ = []"

function blocksOf :: "w32 list \<Rightarrow> w32 list list" where
  "blocksOf ws = (if ws = [] then [] else take 16 ws # blocksOf (drop 16 ws))"
  by auto
termination
  by (relation "measure length") auto

declare blocksOf.simps [simp del]

definition hexDigit :: "int \<Rightarrow> char" where
  "hexDigit d = ''0123456789abcdef'' ! nat d"

definition hexWord :: "w32 \<Rightarrow> string" where
  "hexWord w = concat (map (\<lambda>b. [hexDigit (b div 16), hexDigit (b mod 16)]) (bytesBE 4 (uint w)))"

definition sha256hex :: "string \<Rightarrow> string" where
  "sha256hex msg =
     (case fold compress (blocksOf (wordsOf (padMessage (map of_char msg)))) initialHash of
        (a, b, c, d, e, f, g, h) \<Rightarrow>
          hexWord a @ hexWord b @ hexWord c @ hexWord d @ hexWord e @ hexWord f @ hexWord g @ hexWord h)"

lemma length_bytesBE [simp]: "length (bytesBE n x) = n"
  by (induction n arbitrary: x) simp_all

lemma length_hexPairs: "length (concat (map (\<lambda>b. [f b, g b]) bs)) = 2 * length bs"
  by (induction bs) simp_all

lemma length_hexWord: "length (hexWord w) = 8"
  unfolding hexWord_def length_hexPairs length_bytesBE by simp

lemma length_sha256hex: "length (sha256hex msg) = 64"
  by (simp add: sha256hex_def length_hexWord split: prod.splits)

lemma padMessage_blocks: "64 dvd length (padMessage bs)"
proof -
  define q r where "q = length bs div 64" and "r = length bs mod 64"
  have n: "length bs = 64 * q + r" and r: "r < 64" by (simp_all add: q_def r_def)
  have "(119 - r) mod 64 = (if r \<le> 55 then 55 - r else 119 - r)"
  proof (cases "r \<le> 55")
    case True
    then have "119 - r = (55 - r) + 64" by simp
    then show ?thesis using True by (simp only: mod_add_self2) simp
  qed (use r in simp)
  then have "length (padMessage bs) = 64 * (q + (if r \<le> 55 then 1 else 2))"
    using n r by (simp add: padMessage_def r_def [symmetric])
  then show ?thesis by simp
qed

end
