(* ===== verification/ConcurrencySlots.thy ===== *)
theory ConcurrencySlots
  imports OutboxStore Sha256
begin

text \<open>
  Workflow concurrency limits (settings.concurrency): the slot sets, the FIFO
  line of queued executions, admission, release and promotion
  (engine/graph/concurrency.go, engine/concurrency.go and
  backend/providers/local/memory_state.go).
\<close>

section \<open>Settings and keys\<close>

definition EffectiveMode :: "ConcurrencySettings option \<Rightarrow> string" where
  "EffectiveMode c = (case c of None \<Rightarrow> ''queue''
     | Some c \<Rightarrow> if cs_Mode c = '''' then ''queue'' else cs_Mode c)"

definition EffectiveLimit :: "ConcurrencySettings option \<Rightarrow> int" where
  "EffectiveLimit c = (case c of None \<Rightarrow> 0 | Some c \<Rightarrow> cs_Limit c)"

datatype ConcurrencySettingsError =
    NegativeLimit
  | NegativeMaxQueued
  | NegativeQueueTimeout
  | UnknownMode
  | QueueControlsWithoutQueueMode

definition resolveConcurrency :: "ConcurrencySettings option \<Rightarrow> Graph \<Rightarrow> ConcurrencySettingsError + Graph" where
  "resolveConcurrency settings g = (case settings of
      None \<Rightarrow> Inr g
    | Some c \<Rightarrow>
        let mode = EffectiveMode (Some c)
        in if cs_Limit c < 0 then Inl NegativeLimit
           else if cs_MaxQueued c < 0 then Inl NegativeMaxQueued
           else if cs_QueueTimeout c < 0 then Inl NegativeQueueTimeout
           else if mode \<notin> {''queue'', ''reject''} then Inl UnknownMode
           else if mode \<noteq> ''queue'' \<and> (cs_MaxQueued c \<noteq> 0 \<or> cs_QueueTimeout c \<noteq> 0)
             then Inl QueueControlsWithoutQueueMode
           else if cs_Limit c = 0 then Inr g
           else Inr (g\<lparr>g_concurrency := Some (c\<lparr>cs_Mode := mode\<rparr>)\<rparr>))"

definition concurrencyPayload :: "string \<Rightarrow> string \<Rightarrow> string" where
  "concurrencyPayload ns workflow =
     itoa (int (length ns)) @ '':'' @ ns @ itoa (int (length workflow)) @ '':'' @ workflow"

definition ConcurrencyKey :: "string \<Rightarrow> string \<Rightarrow> string" where
  "ConcurrencyKey ns workflow = sha256hex (concurrencyPayload ns workflow)"

record ConcurrencyAdmission =
  ca_Namespace :: string
  ca_Workflow :: string
  ca_Limit :: int
  ca_Mode :: string
  ca_MaxQueued :: int
  ca_QueueTimeout :: Duration

record ConcurrencyAdmissionResult =
  cx_Queued :: bool
  cx_QueuePosition :: int

section \<open>Admission\<close>

definition emptySlot :: "string \<Rightarrow> workflowSlot" where
  "emptySlot key = \<lparr>ws_key = key, ws_holders = {||}, ws_limit = 0, ws_queued = []\<rparr>"

definition slotForLocked :: "string \<Rightarrow> memoryState \<Rightarrow> workflowSlot \<times> memoryState" where
  "slotForLocked key s = (case fmlookup (workflowSlots s) key of
      Some slot \<Rightarrow> (slot, s)
    | None \<Rightarrow> (emptySlot key, s\<lparr>workflowSlots := fmupd key (emptySlot key) (workflowSlots s)\<rparr>))"

text \<open>Writing through the slot pointer: the set is stored under its key.\<close>

definition putSlot :: "workflowSlot \<Rightarrow> memoryState \<Rightarrow> memoryState" where
  "putSlot slot s = s\<lparr>workflowSlots := fmupd (ws_key slot) slot (workflowSlots s)\<rparr>"

definition chargeSlotLocked :: "workflowSlot \<Rightarrow> ExecutionID \<Rightarrow> memoryState \<Rightarrow> memoryState" where
  "chargeSlotLocked slot eid s =
     (putSlot (slot\<lparr>ws_holders := finsert eid (ws_holders slot)\<rparr>) s)
       \<lparr>slotHolders := fmupd eid (ws_key slot) (slotHolders s)\<rparr>"

definition holderCount :: "workflowSlot \<Rightarrow> int" where
  "holderCount slot = int (fcard (ws_holders slot))"

definition parkOrChargeLocked :: "Time \<Rightarrow> workflowSlot \<Rightarrow> ExecutionID \<Rightarrow> ConcurrencyAdmission \<Rightarrow> memoryState \<Rightarrow>
    memoryState \<times> (StoreError + bool)" where
  "parkOrChargeLocked now slot eid admission s =
     (if holderCount slot < ws_limit slot \<and> ws_queued slot = []
      then (chargeSlotLocked slot eid s, Inr False)
      else if ca_MaxQueued admission > 0 \<and> int (length (ws_queued slot)) \<ge> ca_MaxQueued admission
      then (s, Inl ErrConcurrencyQueueFull)
      else
        let deadline = (if ca_QueueTimeout admission > 0 then now + ca_QueueTimeout admission else zeroTime)
        in ((putSlot (slot\<lparr>ws_queued := ws_queued slot @ [eid]\<rparr>) s)
              \<lparr>queued := fmupd eid \<lparr>qe_slot = ws_key slot, qe_deadline = deadline\<rparr> (queued s)\<rparr>,
            Inr True))"

definition chargeOrParkLocked :: "Time \<Rightarrow> ExecutionID \<Rightarrow> ConcurrencyAdmission \<Rightarrow> memoryState \<Rightarrow>
    memoryState \<times> (StoreError + bool)" where
  "chargeOrParkLocked now eid admission s =
     (case slotForLocked (ConcurrencyKey (ca_Namespace admission) (ca_Workflow admission)) s of
        (slot0, s0) \<Rightarrow>
          let slot = slot0\<lparr>ws_limit := ca_Limit admission\<rparr>; s1 = putSlot slot s0
          in if ca_Mode admission = ''queue'' then parkOrChargeLocked now slot eid admission s1
             else if holderCount slot \<ge> ca_Limit admission then (s1, Inl ErrConcurrencyLimit)
             else (chargeSlotLocked slot eid s1, Inr False))"

fun positionIn :: "ExecutionID \<Rightarrow> ExecutionID list \<Rightarrow> int \<Rightarrow> int" where
  "positionIn eid [] i = 0"
| "positionIn eid (q # qs) i = (if q = eid then i + 1 else positionIn eid qs (i + 1))"

definition queuePositionLocked :: "memoryState \<Rightarrow> ExecutionID \<Rightarrow> int" where
  "queuePositionLocked s eid = (case fmlookup (queued s) eid of
      None \<Rightarrow> 0
    | Some w \<Rightarrow> (case fmlookup (workflowSlots s) (qe_slot w) of
          None \<Rightarrow> 0
        | Some slot \<Rightarrow> positionIn eid (ws_queued slot) 0))"

definition ConcurrencyQueuePosition :: "memoryState \<Rightarrow> ExecutionID \<Rightarrow> int" where
  "ConcurrencyQueuePosition s eid = (case fmlookup (queued s) eid of
      None \<Rightarrow> 0
    | Some w \<Rightarrow> (case fmlookup (workflowSlots s) (qe_slot w) of
          None \<Rightarrow> 0
        | Some slot \<Rightarrow> positionIn eid (ws_queued slot) 0))"

section \<open>Held intents\<close>

definition holdOutboxLocked :: "ExecutionID \<Rightarrow> memoryState \<Rightarrow> memoryState" where
  "holdOutboxLocked eid s =
     updEntries (fmmap (\<lambda>h. if IsZero (availableAt h) then setAvailableAt queuedOutboxHold h else h)) eid s"

definition unholdEntries :: "(string, memoryOutboxEntry) fmap \<Rightarrow> (string, memoryOutboxEntry) fmap" where
  "unholdEntries = fmmap (\<lambda>h. if isHeld h then setAvailableAt zeroTime h else h)"

definition dropHeldOutboxLocked :: "ExecutionID \<Rightarrow> memoryState \<Rightarrow> memoryState" where
  "dropHeldOutboxLocked eid s =
     s\<lparr>outbox := storeEntries eid (mapFilter (\<lambda>_ h. \<not> isHeld h) (outboxOf s eid)) (outbox s)\<rparr>"

definition writeIntent :: "Time \<Rightarrow> ExecutionID \<Rightarrow> Time \<Rightarrow> OutboxEntry \<Rightarrow> memoryState \<Rightarrow> memoryState" where
  "writeIntent now eid at entry s =
     (let s1 = (if t_Type (oe_Task entry) = TaskTypeNodeSkip
                then s\<lparr>scheduled := fmupd (memoryCounterKey eid (t_UnitIdx (oe_Task entry))) ''skip'' (scheduled s)\<rparr>
                else s);
          entry1 = (if IsZero at then entry else entry\<lparr>oe_AvailableAt := at\<rparr>)
      in snd (putOutboxEntryLocked now eid entry1 s1))"

definition writeInitialIntentsLocked :: "Time \<Rightarrow> ExecutionID \<Rightarrow> OutboxEntry list \<Rightarrow> Time \<Rightarrow> memoryState \<Rightarrow> memoryState" where
  "writeInitialIntentsLocked now eid entries at s = fold (writeIntent now eid at) entries s"

section \<open>Promotion and release\<close>

definition setExecSnap :: "ExecutionID \<Rightarrow> execEntry \<Rightarrow> ExecutionSnapshot \<Rightarrow> memoryState \<Rightarrow> memoryState" where
  "setExecSnap eid e sn s = s\<lparr>executions := fmupd eid (e\<lparr>snap := sn\<rparr>) (executions s)\<rparr>"

definition statusEvent :: "ExecutionID \<Rightarrow> ExecutionStatus \<Rightarrow> string \<Rightarrow> ExecutionEvent" where
  "statusEvent eid st err = \<lparr>ev_ExecutionID = eid, ev_Status = st, ev_Error = err, ev_Data = None\<rparr>"

definition completePromotionLocked :: "Time \<Rightarrow> ExecutionID \<Rightarrow> memoryState \<Rightarrow> memoryState" where
  "completePromotionLocked now eid s =
     (let s1 = (case fmlookup (executions s) eid of
                  None \<Rightarrow> s
                | Some e \<Rightarrow>
                    if es_Status (snap e) = ExecutionStatusQueued
                    then publishLocked (statusEvent eid ExecutionStatusRunning '''')
                           (setExecSnap eid e ((snap e)\<lparr>es_Status := ExecutionStatusRunning, es_UpdatedAt := now\<rparr>) s)
                    else s)
      in if mapGet False (mirrorCreatePending s1) eid then s1
         else updEntries unholdEntries eid s1)"

text \<open>One turn of the loop of \<open>promoteLocked\<close>: the head of the line takes a
  slot.\<close>

definition promoteHead :: "Time \<Rightarrow> workflowSlot \<Rightarrow> memoryState \<Rightarrow> workflowSlot \<times> memoryState" where
  "promoteHead now slot s =
     (let eid = hd (ws_queued slot);
          slot' = slot\<lparr>ws_queued := tl (ws_queued slot), ws_holders := finsert eid (ws_holders slot)\<rparr>;
          s1 = (putSlot slot' s)\<lparr>queued := fmdrop eid (queued s),
                                slotHolders := fmupd eid (ws_key slot) (slotHolders s)\<rparr>
      in (slot', completePromotionLocked now eid s1))"

function promoteLocked :: "Time \<Rightarrow> workflowSlot \<Rightarrow> memoryState \<Rightarrow> workflowSlot \<times> memoryState" where
  "promoteLocked now slot s =
     (if ws_limit slot > 0 \<and> holderCount slot < ws_limit slot \<and> ws_queued slot \<noteq> []
      then (case promoteHead now slot s of (slot', s') \<Rightarrow> promoteLocked now slot' s')
      else (slot, s))"
  by pat_completeness auto
termination
  by (relation "measure (\<lambda>(now, slot, s). length (ws_queued slot))")
     (auto simp: promoteHead_def Let_def)

declare promoteLocked.simps [simp del]

definition removeQueued :: "ExecutionID \<Rightarrow> workflowSlot \<Rightarrow> workflowSlot" where
  "removeQueued eid slot = slot\<lparr>ws_queued := remove1 eid (ws_queued slot)\<rparr>"

definition pruneSlot :: "workflowSlot \<Rightarrow> memoryState \<Rightarrow> memoryState" where
  "pruneSlot slot s =
     (if ws_holders slot = {||} \<and> ws_queued slot = []
      then s\<lparr>workflowSlots := fmdrop (ws_key slot) (workflowSlots s)\<rparr> else s)"

definition releaseWorkflowSlotLocked :: "Time \<Rightarrow> ExecutionID \<Rightarrow> memoryState \<Rightarrow> memoryState" where
  "releaseWorkflowSlotLocked now eid s = (case fmlookup (slotHolders s) eid of
      Some key \<Rightarrow>
        (case fmlookup (workflowSlots s) key of
           None \<Rightarrow> s
         | Some slot0 \<Rightarrow>
             let slot = slot0\<lparr>ws_holders := ws_holders slot0 |-| {|eid|}\<rparr>;
                 s1 = (putSlot slot s)\<lparr>slotHolders := fmdrop eid (slotHolders s)\<rparr>
             in case promoteLocked now slot s1 of (slot', s') \<Rightarrow> pruneSlot slot' s')
    | None \<Rightarrow>
        (case fmlookup (queued s) eid of
           None \<Rightarrow> s
         | Some w \<Rightarrow>
             (case fmlookup (workflowSlots s) (qe_slot w) of
                None \<Rightarrow> s
              | Some slot0 \<Rightarrow>
                  let slot = removeQueued eid slot0;
                      s1 = dropHeldOutboxLocked eid
                             ((putSlot slot s)\<lparr>queued := fmdrop eid (queued s)\<rparr>)
                  in case promoteLocked now slot s1 of (slot', s') \<Rightarrow> pruneSlot slot' s')))"

section \<open>Frames of promotion and release\<close>

lemma completePromotionLocked_slots [simp]:
  "workflowSlots (completePromotionLocked now eid s) = workflowSlots s"
  "slotHolders (completePromotionLocked now eid s) = slotHolders s"
  "queued (completePromotionLocked now eid s) = queued s"
  by (simp_all add: completePromotionLocked_def Let_def setExecSnap_def updEntries_def split: option.split)

section \<open>Consistency of the slot sets\<close>

text \<open>The three maps agree: a set is stored under its own key, its holders are the
  executions charged to it, its line lists once each execution parked on it, and
  no execution is both charged and parked.\<close>

definition slot_ok :: "(ExecutionID, string) fmap \<Rightarrow> (ExecutionID, queuedExecution) fmap \<Rightarrow>
    string \<Rightarrow> workflowSlot \<Rightarrow> bool" where
  "slot_ok H Q k sl \<longleftrightarrow> ws_key sl = k \<and> distinct (ws_queued sl)
     \<and> (\<forall>x. x |\<in>| ws_holders sl \<longleftrightarrow> fmlookup H x = Some k)
     \<and> (\<forall>x. x \<in> set (ws_queued sl) \<longleftrightarrow> map_option qe_slot (fmlookup Q x) = Some k)"

definition slots_ok :: "(string, workflowSlot) fmap \<Rightarrow> (ExecutionID, string) fmap \<Rightarrow>
    (ExecutionID, queuedExecution) fmap \<Rightarrow> bool" where
  "slots_ok W H Q \<longleftrightarrow>
     (\<forall>k sl. fmlookup W k = Some sl \<longrightarrow> slot_ok H Q k sl)
     \<and> (\<forall>x k. fmlookup H x = Some k \<longrightarrow> fmlookup W k \<noteq> None)
     \<and> (\<forall>x k. map_option qe_slot (fmlookup Q x) = Some k \<longrightarrow> fmlookup W k \<noteq> None)
     \<and> (\<forall>x. fmlookup H x = None \<or> fmlookup Q x = None)"

definition slotsOK :: "memoryState \<Rightarrow> bool" where
  "slotsOK s \<longleftrightarrow> slots_ok (workflowSlots s) (slotHolders s) (queued s)"

lemma slots_okD:
  assumes "slots_ok W H Q" "fmlookup W k = Some sl"
  shows "ws_key sl = k" "distinct (ws_queued sl)"
    "x |\<in>| ws_holders sl \<longleftrightarrow> fmlookup H x = Some k"
    "x \<in> set (ws_queued sl) \<longleftrightarrow> map_option qe_slot (fmlookup Q x) = Some k"
  using assms by (simp_all add: slots_ok_def slot_ok_def)

lemma slots_ok_exclusive: "slots_ok W H Q \<Longrightarrow> fmlookup H x = None \<or> fmlookup Q x = None"
  by (simp add: slots_ok_def)

lemma slots_ok_holder: "slots_ok W H Q \<Longrightarrow> fmlookup H x = Some k \<Longrightarrow> \<exists>sl. fmlookup W k = Some sl"
  unfolding slots_ok_def by (meson not_Some_eq)

lemma slots_ok_waiting: "slots_ok W H Q \<Longrightarrow> fmlookup Q x = Some w \<Longrightarrow> \<exists>sl. fmlookup W (qe_slot w) = Some sl"
  unfolding slots_ok_def by (metis not_Some_eq option.simps(9))

lemma slots_ok_empty [simp]: "slots_ok fmempty fmempty fmempty"
  by (simp add: slots_ok_def)

text \<open>Changing one set, with the references of every other set kept.\<close>

lemma slots_ok_update:
  assumes "slots_ok W H Q" "slot_ok H' Q' k sl"
    and "\<And>k' y. k' \<noteq> k \<Longrightarrow> fmlookup H' y = Some k' \<longleftrightarrow> fmlookup H y = Some k'"
    and "\<And>k' y. k' \<noteq> k \<Longrightarrow>
      map_option qe_slot (fmlookup Q' y) = Some k' \<longleftrightarrow> map_option qe_slot (fmlookup Q y) = Some k'"
    and "\<And>y. fmlookup H' y = None \<or> fmlookup Q' y = None"
  shows "slots_ok (fmupd k sl W) H' Q'"
proof -
  have 1: "slot_ok H' Q' k' sl'" if "fmlookup (fmupd k sl W) k' = Some sl'" for k' sl'
  proof (cases "k' = k")
    case False
    then have "slot_ok H Q k' sl'" using assms(1) that by (simp add: slots_ok_def)
    then show ?thesis using assms(3,4) False by (simp add: slot_ok_def)
  qed (use assms(2) that in simp)
  have 2: "fmlookup (fmupd k sl W) k' \<noteq> None" if "fmlookup H' x = Some k'" for x k'
    using assms(1,3) that by (cases "k' = k") (auto simp: slots_ok_def)
  have 3: "fmlookup (fmupd k sl W) k' \<noteq> None" if "map_option qe_slot (fmlookup Q' x) = Some k'" for x k'
    using assms(1) assms(4) [of k' x] that by (cases "k' = k") (simp_all add: slots_ok_def)
  show ?thesis unfolding slots_ok_def using 1 2 3 assms(5) by blast
qed

lemma slots_ok_fresh:
  assumes "slots_ok W H Q" "fmlookup W k = None"
  shows "slots_ok (fmupd k (emptySlot k) W) H Q"
proof (rule slots_ok_update [OF assms(1)])
  have "fmlookup H x \<noteq> Some k" "map_option qe_slot (fmlookup Q x) \<noteq> Some k" for x
    using assms by (metis slots_ok_def)+
  then show "slot_ok H Q k (emptySlot k)" by (simp add: slot_ok_def emptySlot_def)
qed (use assms in \<open>simp_all add: slots_ok_def\<close>)

lemma slots_ok_limit:
  assumes "slots_ok W H Q" "fmlookup W k = Some sl"
  shows "slots_ok (fmupd k (sl\<lparr>ws_limit := l\<rparr>) W) H Q"
proof (rule slots_ok_update [OF assms(1)])
  show "slot_ok H Q k (sl\<lparr>ws_limit := l\<rparr>)"
    using assms by (simp add: slots_ok_def slot_ok_def)
qed (use assms in \<open>simp_all add: slots_ok_def\<close>)

lemma slots_ok_charge:
  assumes "slots_ok W H Q" "fmlookup W k = Some sl" "fmlookup H x = None" "fmlookup Q x = None"
  shows "slots_ok (fmupd k (sl\<lparr>ws_holders := finsert x (ws_holders sl)\<rparr>) W) (fmupd x k H) Q"
proof (rule slots_ok_update [OF assms(1)])
  have "slot_ok H Q k sl" using assms by (simp add: slots_ok_def)
  then show "slot_ok (fmupd x k H) Q k (sl\<lparr>ws_holders := finsert x (ws_holders sl)\<rparr>)"
    by (auto simp: slot_ok_def)
qed (use assms in \<open>auto simp: slots_ok_def\<close>)

lemma slots_ok_park:
  assumes "slots_ok W H Q" "fmlookup W k = Some sl" "fmlookup H x = None" "fmlookup Q x = None"
    and "qe_slot w = k"
  shows "slots_ok (fmupd k (sl\<lparr>ws_queued := ws_queued sl @ [x]\<rparr>) W) H (fmupd x w Q)"
proof (rule slots_ok_update [OF assms(1)])
  have "slot_ok H Q k sl" using assms by (simp add: slots_ok_def)
  then show "slot_ok H (fmupd x w Q) k (sl\<lparr>ws_queued := ws_queued sl @ [x]\<rparr>)"
    using assms(4,5) by (auto simp: slot_ok_def)
qed (use assms in \<open>auto simp: slots_ok_def\<close>)

lemma slots_ok_promote:
  assumes "slots_ok W H Q" "fmlookup W k = Some sl" "ws_queued sl = x # xs"
  shows "slots_ok (fmupd k (sl\<lparr>ws_queued := xs, ws_holders := finsert x (ws_holders sl)\<rparr>) W)
           (fmupd x k H) (fmdrop x Q)"
proof (rule slots_ok_update [OF assms(1)])
  have ok: "slot_ok H Q k sl" using assms by (simp add: slots_ok_def)
  have q: "map_option qe_slot (fmlookup Q x) = Some k"
    using slots_okD(4) [OF assms(1,2), of x] assms(3) by (simp del: map_option_eq_Some)
  then have h: "fmlookup H x = None" using slots_ok_exclusive [OF assms(1), of x] by auto
  have iff: "y = x \<or> y \<in> set xs \<longleftrightarrow> map_option qe_slot (fmlookup Q y) = Some k" for y
    using ok assms(3) by (auto simp: slot_ok_def)
  have "x \<notin> set xs" using ok assms(3) by (simp add: slot_ok_def)
  then show "slot_ok (fmupd x k H) (fmdrop x Q) k (sl\<lparr>ws_queued := xs, ws_holders := finsert x (ws_holders sl)\<rparr>)"
    using ok assms(3) iff by (auto simp: slot_ok_def)
  show "map_option qe_slot (fmlookup (fmdrop x Q) y) = Some k' \<longleftrightarrow> map_option qe_slot (fmlookup Q y) = Some k'"
    if "k' \<noteq> k" for k' y using q that by auto
  show "fmlookup (fmupd x k H) y = Some k' \<longleftrightarrow> fmlookup H y = Some k'" if "k' \<noteq> k" for k' y
    using h that by auto
  show "fmlookup (fmupd x k H) y = None \<or> fmlookup (fmdrop x Q) y = None" for y
    using slots_ok_exclusive [OF assms(1), of y] by auto
qed

lemma slots_ok_release:
  assumes "slots_ok W H Q" "fmlookup W k = Some sl" "fmlookup H x = Some k"
  shows "slots_ok (fmupd k (sl\<lparr>ws_holders := ws_holders sl |-| {|x|}\<rparr>) W) (fmdrop x H) Q"
proof (rule slots_ok_update [OF assms(1)])
  have "slot_ok H Q k sl" using assms by (simp add: slots_ok_def)
  then show "slot_ok (fmdrop x H) Q k (sl\<lparr>ws_holders := ws_holders sl |-| {|x|}\<rparr>)"
    by (auto simp: slot_ok_def)
qed (use assms in \<open>auto simp: slots_ok_def\<close>)

lemma slots_ok_leave:
  assumes "slots_ok W H Q" "fmlookup W k = Some sl" "fmlookup Q x = Some w" "qe_slot w = k"
  shows "slots_ok (fmupd k (sl\<lparr>ws_queued := remove1 x (ws_queued sl)\<rparr>) W) H (fmdrop x Q)"
proof (rule slots_ok_update [OF assms(1)])
  have "slot_ok H Q k sl" using assms by (simp add: slots_ok_def)
  then show "slot_ok H (fmdrop x Q) k (sl\<lparr>ws_queued := remove1 x (ws_queued sl)\<rparr>)"
    by (auto simp: slot_ok_def)
qed (use assms in \<open>auto simp: slots_ok_def\<close>)

lemma slots_ok_prune:
  assumes "slots_ok W H Q" "fmlookup W k = Some sl" "ws_holders sl = {||}" "ws_queued sl = []"
  shows "slots_ok (fmdrop k W) H Q"
proof -
  have "slot_ok H Q k sl" using assms by (simp add: slots_ok_def)
  then have "fmlookup H x \<noteq> Some k" "map_option qe_slot (fmlookup Q x) \<noteq> Some k" for x
    using assms(3,4) by (simp_all add: slot_ok_def)
  then show ?thesis using assms(1) by (auto simp: slots_ok_def)
qed

section \<open>Promotion\<close>

lemma promoteHead_maps:
  assumes "promoteHead now slot s = (slot', s')"
  shows "slot' = slot\<lparr>ws_queued := tl (ws_queued slot), ws_holders := finsert (hd (ws_queued slot)) (ws_holders slot)\<rparr>"
    "workflowSlots s' = fmupd (ws_key slot) slot' (workflowSlots s)"
    "slotHolders s' = fmupd (hd (ws_queued slot)) (ws_key slot) (slotHolders s)"
    "queued s' = fmdrop (hd (ws_queued slot)) (queued s)"
  using assms by (auto simp: promoteHead_def Let_def putSlot_def)

text \<open>The state a promotion works on: consistent, with the set stored.\<close>

definition slotStored :: "workflowSlot \<Rightarrow> memoryState \<Rightarrow> bool" where
  "slotStored slot s \<longleftrightarrow> slotsOK s \<and> fmlookup (workflowSlots s) (ws_key slot) = Some slot"

lemma promoteHead_stored:
  assumes "slotStored slot s" "ws_queued slot = x # xs" "promoteHead now slot s = (slot', s')"
  shows "slotStored slot' s'"
    and "holderCount slot' = holderCount slot + 1"
proof -
  note m = promoteHead_maps [OF assms(3)]
  have ok: "slots_ok (workflowSlots s) (slotHolders s) (queued s)"
    and lk: "fmlookup (workflowSlots s) (ws_key slot) = Some slot"
    using assms(1) by (simp_all add: slotStored_def slotsOK_def)
  show "slotStored slot' s'"
    using slots_ok_promote [OF ok lk assms(2)] assms(2)
    by (simp add: slotStored_def slotsOK_def m)
  have "fmlookup (slotHolders s) x \<noteq> Some (ws_key slot)"
    using slots_okD(4) [OF ok lk, of x] slots_ok_exclusive [OF ok, of x] assms(2) by auto
  then have "x |\<notin>| ws_holders slot" using slots_okD(3) [OF ok lk] by simp
  then show "holderCount slot' = holderCount slot + 1"
    by (simp add: m(1) holderCount_def assms(2) fcard_finsert_disjoint)
qed

text \<open>What the whole loop does to the set: it takes executions from the front of
  the line, stops at the limit, and leaves the line waiting only when the limit
  is reached.\<close>

lemma promoteLocked_post:
  assumes "slotStored slot s" "promoteLocked now slot s = (slot', s')"
  shows "slotStored slot' s' \<and> ws_key slot' = ws_key slot \<and> ws_limit slot' = ws_limit slot
    \<and> workflowSlots s' = fmupd (ws_key slot) slot' (workflowSlots s)
    \<and> (\<exists>n. ws_queued slot' = drop n (ws_queued slot)
          \<and> ws_holders slot' = ws_holders slot |\<union>| fset_of_list (take n (ws_queued slot)))
    \<and> holderCount slot' \<le> max (holderCount slot) (ws_limit slot)
    \<and> (ws_limit slot > 0 \<longrightarrow> ws_queued slot' \<noteq> [] \<longrightarrow> holderCount slot' \<ge> ws_limit slot)"
  using assms
proof (induction now slot s arbitrary: slot' s' rule: promoteLocked.induct)
  case (1 now slot s)
  show ?case
  proof (cases "ws_limit slot > 0 \<and> holderCount slot < ws_limit slot \<and> ws_queued slot \<noteq> []")
    case False
    then have "slot' = slot" "s' = s" using "1.prems"(2) by (auto simp: promoteLocked.simps)
    moreover have "workflowSlots s = fmupd (ws_key slot) slot (workflowSlots s)"
      using "1.prems"(1) by (intro fmap_ext) (auto simp: slotStored_def)
    ultimately show ?thesis
      using False "1.prems"(1) by (auto intro!: exI [of _ "0::nat"])
  next
    case True
    obtain slot1 s1 where st: "promoteHead now slot s = (slot1, s1)" by fastforce
    obtain x xs where q: "ws_queued slot = x # xs" using True by (cases "ws_queued slot") auto
    note m = promoteHead_maps [OF st]
    have stored: "slotStored slot1 s1" and count: "holderCount slot1 = holderCount slot + 1"
      using promoteHead_stored [OF "1.prems"(1) q st] .
    have "promoteLocked now slot1 s1 = (slot', s')"
      using "1.prems"(2) True st by (simp add: promoteLocked.simps [of now slot s])
    note IH = "1.IH" [OF True st [symmetric] stored this]
    have s1: "ws_key slot1 = ws_key slot" "ws_limit slot1 = ws_limit slot" "ws_queued slot1 = xs"
        "ws_holders slot1 = finsert x (ws_holders slot)"
      by (simp_all add: m(1) q)
    obtain n where n: "ws_queued slot' = drop n xs"
        "ws_holders slot' = finsert x (ws_holders slot) |\<union>| fset_of_list (take n xs)"
      using IH s1 by auto
    have "\<exists>n. ws_queued slot' = drop n (ws_queued slot)
          \<and> ws_holders slot' = ws_holders slot |\<union>| fset_of_list (take n (ws_queued slot))"
      using n q by (intro exI [of _ "Suc n"]) auto
    moreover have "workflowSlots s' = fmupd (ws_key slot) slot' (workflowSlots s)"
      using IH s1 by (simp add: m(2))
    ultimately show ?thesis using IH s1 count True by auto
  qed
qed

section \<open>Limits\<close>

text \<open>The submissions of one workflow may declare different limits over time;
  \<open>lim\<close> gives the least and the greatest one.  Every set then carries a limit
  between the two, never has more holders than the greatest, and has a line only
  while at least the least number of slots is taken.  With one limit per workflow
  the two bounds are equal: no more holders than the limit, and no line but at the
  limit.\<close>

type_synonym Limits = "string \<Rightarrow> int \<times> int"

definition policy :: "Limits \<Rightarrow> string \<Rightarrow> workflowSlot \<Rightarrow> bool" where
  "policy lim k sl \<longleftrightarrow> fst (lim k) \<le> ws_limit sl \<and> ws_limit sl \<le> snd (lim k) \<and> holderCount sl \<le> snd (lim k)
     \<and> (ws_queued sl \<noteq> [] \<longrightarrow> fst (lim k) \<le> holderCount sl)"

definition slotPolicy :: "Limits \<Rightarrow> memoryState \<Rightarrow> bool" where
  "slotPolicy lim s \<longleftrightarrow> slotsOK s \<and> (\<forall>k sl. fmlookup (workflowSlots s) k = Some sl \<longrightarrow> policy lim k sl)"

definition refill :: "Time \<Rightarrow> workflowSlot \<Rightarrow> memoryState \<Rightarrow> memoryState" where
  "refill now slot s = (case promoteLocked now slot s of (slot', s') \<Rightarrow> pruneSlot slot' s')"

lemma refill_slotsOK:
  assumes "slotStored slot s"
  shows "slotsOK (refill now slot s)"
proof -
  obtain slot' s' where p: "promoteLocked now slot s = (slot', s')" by fastforce
  have st: "slotStored slot' s'" using promoteLocked_post [OF assms p] by simp
  then show ?thesis
    using slots_ok_prune [of "workflowSlots s'" "slotHolders s'" "queued s'" "ws_key slot'" slot']
    by (auto simp: refill_def p pruneSlot_def slotStored_def slotsOK_def)
qed

lemma refill_policy:
  assumes "slotStored slot s" "fst (lim (ws_key slot)) \<le> ws_limit slot" "ws_limit slot \<le> snd (lim (ws_key slot))"
    and "0 < fst (lim (ws_key slot))" "holderCount slot \<le> snd (lim (ws_key slot))"
    and "\<And>k sl. k \<noteq> ws_key slot \<Longrightarrow> fmlookup (workflowSlots s) k = Some sl \<Longrightarrow> policy lim k sl"
  shows "slotPolicy lim (refill now slot s)"
proof -
  obtain slot' s' where p: "promoteLocked now slot s = (slot', s')" by fastforce
  note post = promoteLocked_post [OF assms(1) p]
  have pol: "policy lim (ws_key slot) slot'"
    using post assms(2-5) by (auto simp: policy_def)
  have "policy lim k sl" if "fmlookup (workflowSlots (refill now slot s)) k = Some sl" for k sl
    using that post pol assms(6) [of k sl] by (auto simp: refill_def p pruneSlot_def split: if_splits)
  then show ?thesis using refill_slotsOK [OF assms(1)] by (simp add: slotPolicy_def)
qed

lemma dropHeld_slots [simp]:
  "workflowSlots (dropHeldOutboxLocked eid s) = workflowSlots s"
  "slotHolders (dropHeldOutboxLocked eid s) = slotHolders s"
  "queued (dropHeldOutboxLocked eid s) = queued s"
  by (simp_all add: dropHeldOutboxLocked_def)

text \<open>The three outcomes of a release: a holder leaves, a waiting execution
  leaves the line, or the execution held nothing.\<close>

lemma releaseWorkflowSlotLocked_cases [consumes 1, case_names holder waiting none]:
  assumes "slotsOK s"
  obtains
    (holder) slot0 where "fmlookup (slotHolders s) eid = Some (ws_key slot0)"
      "fmlookup (workflowSlots s) (ws_key slot0) = Some slot0" "eid |\<in>| ws_holders slot0"
      "releaseWorkflowSlotLocked now eid s =
         refill now (slot0\<lparr>ws_holders := ws_holders slot0 |-| {|eid|}\<rparr>)
           ((putSlot (slot0\<lparr>ws_holders := ws_holders slot0 |-| {|eid|}\<rparr>) s)\<lparr>slotHolders := fmdrop eid (slotHolders s)\<rparr>)"
  | (waiting) slot0 w where "fmlookup (slotHolders s) eid = None" "fmlookup (queued s) eid = Some w"
      "qe_slot w = ws_key slot0" "fmlookup (workflowSlots s) (ws_key slot0) = Some slot0"
      "releaseWorkflowSlotLocked now eid s =
         refill now (removeQueued eid slot0)
           (dropHeldOutboxLocked eid ((putSlot (removeQueued eid slot0) s)\<lparr>queued := fmdrop eid (queued s)\<rparr>))"
  | (none) "fmlookup (slotHolders s) eid = None" "fmlookup (queued s) eid = None"
      "releaseWorkflowSlotLocked now eid s = s"
proof -
  have ok: "slots_ok (workflowSlots s) (slotHolders s) (queued s)" using assms by (simp add: slotsOK_def)
  show thesis
  proof (cases "fmlookup (slotHolders s) eid")
    case (Some k)
    then obtain slot0 where w: "fmlookup (workflowSlots s) k = Some slot0"
      using slots_ok_holder [OF ok] by blast
    moreover have "ws_key slot0 = k" "eid |\<in>| ws_holders slot0"
      using slots_okD(1,3) [OF ok w] Some by auto
    ultimately show thesis
      using Some by (intro holder [of slot0]) (simp_all add: releaseWorkflowSlotLocked_def refill_def Let_def)
  next
    case None
    note h = this
    show thesis
    proof (cases "fmlookup (queued s) eid")
      case (Some w)
      then obtain slot0 where k: "fmlookup (workflowSlots s) (qe_slot w) = Some slot0"
        using slots_ok_waiting [OF ok] by blast
      moreover have "ws_key slot0 = qe_slot w" using slots_okD(1) [OF ok k] .
      ultimately show thesis
        using Some h by (intro waiting [of w slot0]) (simp_all add: releaseWorkflowSlotLocked_def refill_def Let_def)
    next
      case None
      then show thesis using h by (intro none) (auto simp: releaseWorkflowSlotLocked_def)
    qed
  qed
qed

text \<open>Both departures leave a consistent state for the promotion to work on.\<close>

lemma holder_leaves_stored:
  assumes "slotsOK s" "fmlookup (slotHolders s) eid = Some (ws_key slot0)"
    "fmlookup (workflowSlots s) (ws_key slot0) = Some slot0"
  shows "slotStored (slot0\<lparr>ws_holders := ws_holders slot0 |-| {|eid|}\<rparr>)
    ((putSlot (slot0\<lparr>ws_holders := ws_holders slot0 |-| {|eid|}\<rparr>) s)\<lparr>slotHolders := fmdrop eid (slotHolders s)\<rparr>)"
  using slots_ok_release [OF _ assms(3,2), of "queued s"] assms(1)
  by (simp add: slotStored_def slotsOK_def putSlot_def)

lemma waiting_leaves_stored:
  assumes "slotsOK s" "fmlookup (queued s) eid = Some w" "qe_slot w = ws_key slot0"
    "fmlookup (workflowSlots s) (ws_key slot0) = Some slot0"
  shows "slotStored (removeQueued eid slot0)
    (dropHeldOutboxLocked eid ((putSlot (removeQueued eid slot0) s)\<lparr>queued := fmdrop eid (queued s)\<rparr>))"
  using slots_ok_leave [OF _ assms(4,2,3), of "slotHolders s"] assms(1)
  by (simp add: slotStored_def slotsOK_def putSlot_def removeQueued_def)

lemma releaseWorkflowSlotLocked_slotsOK:
  assumes "slotsOK s"
  shows "slotsOK (releaseWorkflowSlotLocked now eid s)"
  using assms
proof (cases rule: releaseWorkflowSlotLocked_cases [where eid = eid and now = now])
  case (holder slot0)
  then show ?thesis using refill_slotsOK [OF holder_leaves_stored [OF assms holder(1,2)]] by simp
next
  case (waiting slot0 w)
  then show ?thesis using refill_slotsOK [OF waiting_leaves_stored [OF assms waiting(2,3,4)]] by simp
qed (use assms in simp)

lemma releaseWorkflowSlotLocked_policy:
  assumes "slotPolicy lim s" "\<And>k. 0 < fst (lim k)"
  shows "slotPolicy lim (releaseWorkflowSlotLocked now eid s)"
proof -
  have ok: "slotsOK s" and pol: "\<And>k sl. fmlookup (workflowSlots s) k = Some sl \<Longrightarrow> policy lim k sl"
    using assms(1) by (simp_all add: slotPolicy_def)
  show ?thesis
    using ok
  proof (cases rule: releaseWorkflowSlotLocked_cases [where eid = eid and now = now])
    case (holder slot0)
    have "fcard (ws_holders slot0 |-| {|eid|}) \<le> fcard (ws_holders slot0)"
      by (intro fcard_mono) auto
    then show ?thesis
      unfolding holder(4)
      using pol [OF holder(2)] assms(2) pol
      by (intro refill_policy holder_leaves_stored [OF ok holder(1,2)])
         (auto simp: policy_def holderCount_def putSlot_def)
  next
    case (waiting slot0 w)
    then show ?thesis
      unfolding waiting(5)
      using pol [OF waiting(4)] assms(2) pol
      by (intro refill_policy waiting_leaves_stored [OF ok waiting(2,3,4)])
         (auto simp: policy_def holderCount_def putSlot_def removeQueued_def)
  qed (use assms in simp)
qed

section \<open>Admission\<close>

definition admissionKey :: "ConcurrencyAdmission \<Rightarrow> string" where
  "admissionKey adm = ConcurrencyKey (ca_Namespace adm) (ca_Workflow adm)"

definition withinLimits :: "Limits \<Rightarrow> ConcurrencyAdmission \<Rightarrow> bool" where
  "withinLimits lim adm \<longleftrightarrow> fst (lim (admissionKey adm)) \<le> ca_Limit adm \<and> ca_Limit adm \<le> snd (lim (admissionKey adm))"

text \<open>The set an admission is judged against, with the limit it declares, and
  the state in which it is judged.\<close>

definition admissionSlot :: "ConcurrencyAdmission \<Rightarrow> memoryState \<Rightarrow> workflowSlot" where
  "admissionSlot adm s =
     (case fmlookup (workflowSlots s) (admissionKey adm) of
        None \<Rightarrow> emptySlot (admissionKey adm) | Some sl \<Rightarrow> sl)\<lparr>ws_limit := ca_Limit adm\<rparr>"

definition admissionState :: "ConcurrencyAdmission \<Rightarrow> memoryState \<Rightarrow> memoryState" where
  "admissionState adm s =
     s\<lparr>workflowSlots := fmupd (admissionKey adm) (admissionSlot adm s) (workflowSlots s)\<rparr>"

lemma admission_stored:
  assumes "slotsOK s"
  shows "slotStored (admissionSlot adm s) (admissionState adm s)"
    and "ws_key (admissionSlot adm s) = admissionKey adm"
proof -
  have ok: "slots_ok (workflowSlots s) (slotHolders s) (queued s)" using assms by (simp add: slotsOK_def)
  show k: "ws_key (admissionSlot adm s) = admissionKey adm"
    using slots_okD(1) [OF ok] by (auto simp: admissionSlot_def emptySlot_def split: option.split)
  show "slotStored (admissionSlot adm s) (admissionState adm s)"
  proof (cases "fmlookup (workflowSlots s) (admissionKey adm)")
    case None
    have "slots_ok (fmupd (admissionKey adm) ((emptySlot (admissionKey adm))\<lparr>ws_limit := ca_Limit adm\<rparr>)
        (fmupd (admissionKey adm) (emptySlot (admissionKey adm)) (workflowSlots s))) (slotHolders s) (queued s)"
      by (rule slots_ok_limit [OF slots_ok_fresh [OF ok None]]) simp
    then show ?thesis using None k
      by (simp add: slotStored_def slotsOK_def admissionState_def admissionSlot_def)
  next
    case (Some sl)
    then show ?thesis using slots_ok_limit [OF ok Some, of "ca_Limit adm"] k
      by (simp add: slotStored_def slotsOK_def admissionState_def admissionSlot_def)
  qed
qed

lemma chargeOrParkLocked_eq:
  assumes "slotsOK s"
  shows "chargeOrParkLocked now eid adm s =
    (let slot = admissionSlot adm s; s1 = admissionState adm s
     in if ca_Mode adm = ''queue'' then parkOrChargeLocked now slot eid adm s1
        else if holderCount slot \<ge> ca_Limit adm then (s1, Inl ErrConcurrencyLimit)
        else (chargeSlotLocked slot eid s1, Inr False))"
proof -
  have "chargeOrParkLocked now eid adm s =
    (let slot = admissionSlot adm s; s1 = putSlot slot s
     in if ca_Mode adm = ''queue'' then parkOrChargeLocked now slot eid adm s1
        else if holderCount slot \<ge> ca_Limit adm then (s1, Inl ErrConcurrencyLimit)
        else (chargeSlotLocked slot eid s1, Inr False))"
    by (simp add: chargeOrParkLocked_def slotForLocked_def admissionSlot_def putSlot_def emptySlot_def
        flip: admissionKey_def split: option.split)
  then show ?thesis
    using admission_stored(2) [OF assms, of adm] by (simp add: putSlot_def admissionState_def)
qed

text \<open>The three outcomes of an admission.\<close>

lemma chargeOrParkLocked_cases [consumes 1, case_names charged parked refused]:
  assumes "slotsOK s"
  obtains
    (charged) "chargeOrParkLocked now eid adm s = (chargeSlotLocked (admissionSlot adm s) eid (admissionState adm s), Inr False)"
      "holderCount (admissionSlot adm s) < ca_Limit adm" "ca_Mode adm = ''queue'' \<longrightarrow> ws_queued (admissionSlot adm s) = []"
  | (parked) w where "chargeOrParkLocked now eid adm s =
        ((putSlot ((admissionSlot adm s)\<lparr>ws_queued := ws_queued (admissionSlot adm s) @ [eid]\<rparr>) (admissionState adm s))
           \<lparr>queued := fmupd eid w (queued s)\<rparr>, Inr True)"
      "qe_slot w = admissionKey adm" "ca_Mode adm = ''queue''"
      "holderCount (admissionSlot adm s) \<ge> ca_Limit adm \<or> ws_queued (admissionSlot adm s) \<noteq> []"
      "ca_MaxQueued adm > 0 \<longrightarrow> int (length (ws_queued (admissionSlot adm s))) < ca_MaxQueued adm"
      "qe_deadline w = (if ca_QueueTimeout adm > 0 then now + ca_QueueTimeout adm else zeroTime)"
  | (refused) e where "chargeOrParkLocked now eid adm s = (admissionState adm s, Inl e)"
      "holderCount (admissionSlot adm s) \<ge> ca_Limit adm \<or> ws_queued (admissionSlot adm s) \<noteq> []"
proof -
  have lim: "ws_limit (admissionSlot adm s) = ca_Limit adm" by (simp add: admissionSlot_def split: option.split)
  have q: "queued (admissionState adm s) = queued s" by (simp add: admissionState_def)
  note eq = chargeOrParkLocked_eq [OF assms, of now eid adm] and key = admission_stored(2) [OF assms, of adm]
  define sl where "sl = admissionSlot adm s"
  consider (a) "ca_Mode adm = ''queue''" "holderCount sl < ca_Limit adm \<and> ws_queued sl = []"
    | (b) "ca_Mode adm = ''queue''" "\<not> (holderCount sl < ca_Limit adm \<and> ws_queued sl = [])"
        "ca_MaxQueued adm > 0 \<and> int (length (ws_queued sl)) \<ge> ca_MaxQueued adm"
    | (c) "ca_Mode adm = ''queue''" "\<not> (holderCount sl < ca_Limit adm \<and> ws_queued sl = [])"
        "\<not> (ca_MaxQueued adm > 0 \<and> int (length (ws_queued sl)) \<ge> ca_MaxQueued adm)"
    | (d) "ca_Mode adm \<noteq> ''queue''" "holderCount sl \<ge> ca_Limit adm"
    | (e) "ca_Mode adm \<noteq> ''queue''" "holderCount sl < ca_Limit adm" by linarith
  then show thesis
  proof cases
    case a
    then show thesis using eq lim by (intro charged) (simp_all add: parkOrChargeLocked_def sl_def)
  next
    case b
    then show thesis using eq lim by (intro refused) (auto simp: parkOrChargeLocked_def sl_def)
  next
    case c
    show thesis
      by (rule parked [of "\<lparr>qe_slot = admissionKey adm,
            qe_deadline = (if ca_QueueTimeout adm > 0 then now + ca_QueueTimeout adm else zeroTime)\<rparr>"])
         (use c eq lim key q in \<open>auto simp: parkOrChargeLocked_def sl_def Let_def\<close>)
  next
    case d
    then show thesis using eq lim by (intro refused) (auto simp: sl_def Let_def)
  next
    case e
    then show thesis using eq lim by (intro charged) (simp_all add: sl_def Let_def)
  qed
qed

lemma admissionState_maps [simp]:
  "slotHolders (admissionState adm s) = slotHolders s" "queued (admissionState adm s) = queued s"
  by (simp_all add: admissionState_def)

lemma chargeOrParkLocked_slotsOK:
  assumes "slotsOK s" "fmlookup (slotHolders s) eid = None" "fmlookup (queued s) eid = None"
  shows "slotsOK (fst (chargeOrParkLocked now eid adm s))"
proof -
  let ?sl = "admissionSlot adm s" and ?s = "admissionState adm s"
  have st: "slots_ok (workflowSlots ?s) (slotHolders s) (queued s)"
      "fmlookup (workflowSlots ?s) (admissionKey adm) = Some ?sl"
    using admission_stored [OF assms(1), of adm] by (simp_all add: slotStored_def slotsOK_def)
  note key = admission_stored(2) [OF assms(1), of adm]
  from assms(1) show ?thesis
  proof (cases rule: chargeOrParkLocked_cases [where now = now and eid = eid and adm = adm])
    case charged
    then show ?thesis using slots_ok_charge [OF st assms(2,3)] key
      by (simp add: chargeSlotLocked_def putSlot_def slotsOK_def)
  next
    case (parked w)
    then show ?thesis using slots_ok_park [OF st assms(2,3) parked(2)] key
      by (simp add: putSlot_def slotsOK_def)
  next
    case (refused e)
    then show ?thesis using st(1) by (simp add: slotsOK_def)
  qed
qed

lemma itoa_length_no_colon: "CHR '':'' \<notin> set (itoa (int n))"
  using natstr_digits [of n] by (auto simp: itoa_def)

text \<open>The digest input is unambiguous: two workflows share a payload only when
  namespace and name are both equal, whatever characters they contain.\<close>

theorem concurrencyPayload_inj:
  assumes "concurrencyPayload ns w = concurrencyPayload ns' w'"
  shows "ns = ns' \<and> w = w'"
proof -
  have "itoa (int (length ns)) @ CHR '':'' # (ns @ itoa (int (length w)) @ '':'' @ w) =
        itoa (int (length ns')) @ CHR '':'' # (ns' @ itoa (int (length w')) @ '':'' @ w')"
    using assms by (simp add: concurrencyPayload_def)
  from sep_append_inj [OF itoa_length_no_colon itoa_length_no_colon this]
  have l: "length ns = length ns'"
    and r: "ns @ itoa (int (length w)) @ '':'' @ w = ns' @ itoa (int (length w')) @ '':'' @ w'" by simp_all
  have n: "ns = ns'" and "itoa (int (length w)) @ '':'' @ w = itoa (int (length w')) @ '':'' @ w'"
    using r l by simp_all
  then have "itoa (int (length w)) @ CHR '':'' # w = itoa (int (length w')) @ CHR '':'' # w'" by simp
  from sep_append_inj [OF itoa_length_no_colon itoa_length_no_colon this] show ?thesis using n by simp
qed

theorem concurrencyPayload_inj_witness:
  "concurrencyPayload ''a'' ''b:1'' = concurrencyPayload ''a'' ''b:1'' \<and> ''a'' = ''a'' \<and> ''b:1'' = ''b:1''"
  using concurrencyPayload_inj [of "''a''" "''b:1''" "''a''" "''b:1''"] by simp

lemma chargeOrParkLocked_policy:
  assumes "slotPolicy lim s" "fmlookup (slotHolders s) eid = None" "fmlookup (queued s) eid = None"
    and "withinLimits lim adm" "0 < fst (lim (admissionKey adm))"
  shows "slotPolicy lim (fst (chargeOrParkLocked now eid adm s))"
proof -
  let ?sl = "admissionSlot adm s" and ?s = "admissionState adm s" and ?k = "admissionKey adm"
  have ok: "slotsOK s" and pol: "\<And>k sl. fmlookup (workflowSlots s) k = Some sl \<Longrightarrow> policy lim k sl"
    using assms(1) by (simp_all add: slotPolicy_def)
  have wf: "slotsOK (fst (chargeOrParkLocked now eid adm s))"
    by (rule chargeOrParkLocked_slotsOK [OF ok assms(2,3)])
  note key = admission_stored(2) [OF ok, of adm]
  have sl: "policy lim ?k ?sl"
    using pol [of ?k] assms(4,5)
    by (auto simp: withinLimits_def admissionSlot_def policy_def emptySlot_def holderCount_def fcard_fempty split: option.split)
  have ins: "holderCount (?sl\<lparr>ws_holders := finsert eid (ws_holders ?sl)\<rparr>) \<le> holderCount ?sl + 1"
    "holderCount ?sl \<le> holderCount (?sl\<lparr>ws_holders := finsert eid (ws_holders ?sl)\<rparr>)"
    by (simp_all add: holderCount_def fcard_finsert_if)
  have lk: "fmlookup (workflowSlots ?s) k = (if k = ?k then Some ?sl else fmlookup (workflowSlots s) k)" for k
    by (simp add: admissionState_def)
  from ok show ?thesis
  proof (cases rule: chargeOrParkLocked_cases [where now = now and eid = eid and adm = adm])
    case charged
    have "policy lim ?k (?sl\<lparr>ws_holders := finsert eid (ws_holders ?sl)\<rparr>)"
      using sl charged(2) ins(1,2) assms(4) by (auto simp: policy_def withinLimits_def)
    then show ?thesis using wf charged(1) pol lk key
      by (auto simp: slotPolicy_def chargeSlotLocked_def putSlot_def)
  next
    case (parked w)
    then have "policy lim ?k (?sl\<lparr>ws_queued := ws_queued ?sl @ [eid]\<rparr>)"
      using sl assms(4) by (auto simp: policy_def withinLimits_def holderCount_def)
    then show ?thesis using wf parked(1) pol lk key by (auto simp: slotPolicy_def putSlot_def)
  next
    case (refused e)
    then show ?thesis using wf pol lk sl by (auto simp: slotPolicy_def)
  qed
qed

section \<open>First in, first out\<close>

lemma completePromotionLocked_status:
  "statusOf (completePromotionLocked now eid s) e =
     (if e = eid \<and> statusOf s e = Some ExecutionStatusQueued then Some ExecutionStatusRunning else statusOf s e)"
  by (auto simp: completePromotionLocked_def Let_def setExecSnap_def updEntries_def statusOf_def
      split: option.split)

lemma outboxOf_updEntries:
  assumes "f fmempty = fmempty"
  shows "outboxOf (updEntries f eid s) e = (if e = eid then f (outboxOf s e) else outboxOf s e)"
  using assms by (simp add: updEntries_def outboxOf_def mapGet_def split: option.split)

lemma unholdEntries_lookup [simp]:
  "fmlookup (unholdEntries m) i = map_option (\<lambda>h. if isHeld h then setAvailableAt zeroTime h else h) (fmlookup m i)"
  by (simp add: unholdEntries_def)

lemma unholdEntries_empty [simp]: "unholdEntries fmempty = fmempty"
  by (simp add: unholdEntries_def)

lemma not_held_zero [simp]: "\<not> isHeld (setAvailableAt zeroTime h)"
  by (simp add: isHeld_def setAvailableAt_def availableAt_def zeroTime_def queuedOutboxHold_def)

lemma unhold_not_held:
  assumes "fmlookup (unholdEntries m) i = Some h"
  shows "\<not> isHeld h"
proof -
  obtain h0 where "h = (if isHeld h0 then setAvailableAt zeroTime h0 else h0)" using assms by auto
  then show ?thesis by (cases "isHeld h0") simp_all
qed

lemma completePromotionLocked_outbox:
  "outboxOf (completePromotionLocked now eid s) e =
     (if e = eid \<and> \<not> mapGet False (mirrorCreatePending s) eid then unholdEntries (outboxOf s e) else outboxOf s e)"
proof -
  obtain s1 where s1: "outbox s1 = outbox s" "mirrorCreatePending s1 = mirrorCreatePending s"
      "completePromotionLocked now eid s =
         (if mapGet False (mirrorCreatePending s1) eid then s1 else updEntries unholdEntries eid s1)"
    by (rule that) (simp_all add: completePromotionLocked_def Let_def setExecSnap_def split: option.split)
  then have "outboxOf s1 = outboxOf s" by (simp add: fun_eq_iff outboxOf_def)
  then show ?thesis using s1 by (simp add: outboxOf_updEntries)
qed

lemma promoteLocked_one:
  assumes "slotStored slot s" "ws_queued slot = x # xs" "holderCount slot + 1 = ws_limit slot"
    "0 < ws_limit slot"
  shows "promoteLocked now slot s = promoteHead now slot s"
proof -
  obtain slot1 s1 where st: "promoteHead now slot s = (slot1, s1)" by fastforce
  have "holderCount slot1 = ws_limit slot1"
    using promoteHead_stored(2) [OF assms(1,2) st] assms(3) promoteHead_maps(1) [OF st] by simp
  then have "promoteLocked now slot1 s1 = (slot1, s1)" by (simp add: promoteLocked.simps)
  then show ?thesis using assms st by (simp add: promoteLocked.simps [of now slot s])
qed


section \<open>Two consequences for the limit\<close>

text \<open>A refused admission still moves the remembered limit of the set to the one
  it declared, although it was not admitted.\<close>

lemma refused_admission_moves_limit:
  assumes "slotsOK s" "snd (chargeOrParkLocked now eid adm s) = Inl e"
  shows "map_option ws_limit (fmlookup (workflowSlots (fst (chargeOrParkLocked now eid adm s))) (admissionKey adm))
    = Some (ca_Limit adm)"
  using assms(1)
proof (cases rule: chargeOrParkLocked_cases [where now = now and eid = eid and adm = adm])
  case (refused e')
  then show ?thesis by (simp add: admissionState_def admissionSlot_def split: option.split)
qed (use assms(2) in simp_all)

text \<open>A raised limit is not filled by the next admission in queue mode: with a
  line waiting, the newcomer is parked behind it and nobody is promoted, so the
  added capacity stays free until a release.\<close>

lemma raised_limit_not_filled:
  assumes "slotsOK s" "fmlookup (workflowSlots s) (admissionKey adm) = Some sl"
    and "ca_Mode adm = ''queue''" "ca_MaxQueued adm = 0" "ws_queued sl \<noteq> []"
    and "holderCount sl < ca_Limit adm"
  shows "fmlookup (workflowSlots (fst (chargeOrParkLocked now eid adm s))) (admissionKey adm)
    = Some (sl\<lparr>ws_limit := ca_Limit adm, ws_queued := ws_queued sl @ [eid]\<rparr>)"
proof -
  have sl: "admissionSlot adm s = sl\<lparr>ws_limit := ca_Limit adm\<rparr>" using assms(2) by (simp add: admissionSlot_def)
  have "ws_key sl = admissionKey adm" using admission_stored(2) [OF assms(1), of adm] sl by simp
  then show ?thesis
    using assms(3-5) by (simp add: chargeOrParkLocked_eq [OF assms(1)] Let_def parkOrChargeLocked_def sl putSlot_def)
qed

section \<open>An instance\<close>

text \<open>A workflow with one slot, held by \<open>a\<close>, and \<open>b\<close> waiting for it.\<close>

definition sampleLine :: memoryState where
  "sampleLine = (newMemoryState False)\<lparr>
     executions := fmap_of_list
       [(''a'', \<lparr>snap = zeroExecution\<lparr>es_ID := ''a'', es_Status := ExecutionStatusRunning\<rparr>, closed = False\<rparr>),
        (''b'', \<lparr>snap = zeroExecution\<lparr>es_ID := ''b'', es_Status := ExecutionStatusQueued\<rparr>, closed = False\<rparr>)],
     workflowSlots := fmap_of_list [(''k'', (emptySlot ''k'')\<lparr>ws_limit := 1, ws_holders := {|''a''|}, ws_queued := [''b'']\<rparr>)],
     slotHolders := fmap_of_list [(''a'', ''k'')],
     queued := fmap_of_list [(''b'', \<lparr>qe_slot = ''k'', qe_deadline = zeroTime\<rparr>)]\<rparr>"

lemma sampleLine_ok: "slotsOK sampleLine"
  by (auto simp: slotsOK_def slots_ok_def slot_ok_def sampleLine_def emptySlot_def split: if_splits)


end
