(* ===== verification/ExecutionLifecycle.thy ===== *)
theory ExecutionLifecycle
  imports ConcurrencySlots
begin

text \<open>
  Creating an execution, moving its status, ending it: the create paths, the
  status compare-and-set, deadlines, cancellation bookkeeping, pause and resume,
  queue expiry and the rollback of a failed create
  (backend/providers/local/memory_state.go, execution_pause.go, store_mirror.go,
  and finishExecutionLocked of atomic_state.go).

  The SQL store behind the mirror is not modelled: its answer to the one write
  that matters for the memory state, the insert of the execution row, is a
  parameter.
\<close>

section \<open>The durable mirror's bookkeeping\<close>

definition transientGraph :: "ExecutionSnapshot \<Rightarrow> bool" where
  "transientGraph e = (case es_Graph e of None \<Rightarrow> False | Some g \<Rightarrow> g_transient g)"

text \<open>\<open>hint\<close> is the per-execution transient hint of the context.\<close>

definition noteMirrorModeLocked :: "bool \<Rightarrow> ExecutionSnapshot \<Rightarrow> memoryState \<Rightarrow> memoryState" where
  "noteMirrorModeLocked hint e s =
     (if \<not> db s then s
      else if transientGraph e \<or> hint then s\<lparr>mirrorSkip := fmupd (es_ID e) True (mirrorSkip s)\<rparr>
      else s\<lparr>mirrorSkip := fmdrop (es_ID e) (mirrorSkip s)\<rparr>)"

definition markMirrorCreatePendingLocked :: "ExecutionID \<Rightarrow> memoryState \<Rightarrow> bool \<times> memoryState" where
  "markMirrorCreatePendingLocked eid s =
     (if \<not> db s \<or> mapGet False (mirrorSkip s) eid then (False, s)
      else (True, s\<lparr>mirrorCreatePending := fmupd eid True (mirrorCreatePending s)\<rparr>))"

definition markMirrorConflict :: "ExecutionID \<Rightarrow> memoryState \<Rightarrow> memoryState" where
  "markMirrorConflict eid s =
     s\<lparr>mirrorSkip := fmupd eid True (mirrorSkip s), mirrorConflict := fmupd eid True (mirrorConflict s)\<rparr>"

definition clearMirrorCreatePending :: "ExecutionID \<Rightarrow> memoryState \<Rightarrow> memoryState" where
  "clearMirrorCreatePending eid s = s\<lparr>mirrorCreatePending := fmdrop eid (mirrorCreatePending s)\<rparr>"

definition endedIn :: "memoryState \<Rightarrow> ExecutionID \<Rightarrow> bool" where
  "endedIn s eid = (case fmlookup (executions s) eid of
      None \<Rightarrow> False | Some e \<Rightarrow> isTerminalStatus (es_Status (snap e)))"

definition pruneMirrorStateLocked :: "ExecutionID \<Rightarrow> memoryState \<Rightarrow> memoryState" where
  "pruneMirrorStateLocked eid s =
     (if \<not> endedIn s eid \<or> mapGet False (mirrorCreatePending s) eid then s
      else if hasKey (mirrorLocks s) eid then s
      else if \<not> mapGet False (mirrorConflict s) eid
        then s\<lparr>mirrorSkip := fmdrop eid (mirrorSkip s)\<rparr>
      else s)"

definition pruneTransientSkipAfterTerminal :: "ExecutionID \<Rightarrow> memoryState \<Rightarrow> memoryState" where
  "pruneTransientSkipAfterTerminal eid s = (if \<not> db s then s else pruneMirrorStateLocked eid s)"

text \<open>The lock of a projection is a reference count; the first component of the
  result says that a projection follows.\<close>

definition beginMirrorMode :: "ExecutionID \<Rightarrow> bool \<Rightarrow> memoryState \<Rightarrow> bool \<times> memoryState" where
  "beginMirrorMode eid create s =
     (if \<not> db s then (False, s)
      else if mapGet False (mirrorSkip s) eid \<or> mapGet False (rolledBack s) eid
           \<or> (\<not> create \<and> mapGet False (mirrorCreatePending s) eid) then (False, s)
      else (True, s\<lparr>mirrorLocks := fmupd eid (mapGet 0 (mirrorLocks s) eid + 1) (mirrorLocks s)\<rparr>))"

definition finishMirror :: "ExecutionID \<Rightarrow> memoryState \<Rightarrow> memoryState" where
  "finishMirror eid s =
     (let refs = mapGet 0 (mirrorLocks s) eid - 1;
          s1 = s\<lparr>mirrorLocks := fmupd eid refs (mirrorLocks s)\<rparr>
      in if refs \<noteq> 0 then s1
         else
           let s2 = (if fmlookup (executions s1) eid = None \<or> endedIn s1 eid
                        \<or> mapGet False (mirrorSkip s1) eid \<or> mapGet False (rolledBack s1) eid
                     then s1\<lparr>mirrorLocks := fmdrop eid (mirrorLocks s1)\<rparr> else s1)
           in pruneMirrorStateLocked eid s2)"

definition mirrorExecutionStatus :: "ExecutionID \<Rightarrow> memoryState \<Rightarrow> memoryState" where
  "mirrorExecutionStatus eid s = (case beginMirrorMode eid False s of
      (False, s1) \<Rightarrow> pruneTransientSkipAfterTerminal eid s1
    | (True, s1) \<Rightarrow> finishMirror eid s1)"

text \<open>The answer of the durable store to the insert of an execution row.\<close>

datatype InsertOutcome = InsertOK | InsertExists | InsertFailed

definition mirrorCreateExecution :: "InsertOutcome \<Rightarrow> ExecutionID \<Rightarrow> memoryState \<Rightarrow> memoryState \<times> StoreError option" where
  "mirrorCreateExecution ins eid s = (case beginMirrorMode eid True s of
      (False, s1) \<Rightarrow> (s1, None)
    | (True, s1) \<Rightarrow>
        if fmlookup (executions s1) eid = None then (finishMirror eid s1, None)
        else (case ins of
            InsertOK \<Rightarrow> (finishMirror eid (clearMirrorCreatePending eid s1), None)
          | InsertExists \<Rightarrow> (finishMirror eid s1, Some ErrStoreExecutionExists)
          | InsertFailed \<Rightarrow> (finishMirror eid s1, Some ErrStoreCreate)))"

section \<open>Creation\<close>

definition stampCreated :: "Time \<Rightarrow> ExecutionSnapshot \<Rightarrow> ExecutionSnapshot" where
  "stampCreated now e =
     (let created = (if IsZero (es_CreatedAt e) then now else es_CreatedAt e)
      in e\<lparr>es_CreatedAt := created,
           es_UpdatedAt := (if IsZero (es_UpdatedAt e) then created else es_UpdatedAt e)\<rparr>)"

definition seedInDegrees :: "ExecutionID \<Rightarrow> Graph \<Rightarrow> (string, int) fmap \<Rightarrow> (string, int) fmap" where
  "seedInDegrees eid g m =
     fold (\<lambda>i. fmupd (memoryCounterKey eid (int i)) (g_unitInDegree g ! i)) [0..<length (g_units g)] m"

definition createExecutionLocked :: "Time \<Rightarrow> ExecutionSnapshot \<Rightarrow> memoryState \<Rightarrow> memoryState" where
  "createExecutionLocked now e s =
     (let eid = es_ID e; cp = stampCreated now e;
          s1 = s\<lparr>rolledBack := fmdrop eid (rolledBack s),
                 mirrorConflict := fmdrop eid (mirrorConflict s),
                 executions := fmupd eid \<lparr>snap = cp, closed = False\<rparr> (executions s),
                 deadlines := (if IsZero (es_Deadline cp) then deadlines s
                               else fmupd eid (es_Deadline cp) (deadlines s)),
                 doneCh := (if hasKey (doneCh s) eid then doneCh s else fmupd eid False (doneCh s))\<rparr>
      in case es_Graph e of
           None \<Rightarrow> s1
         | Some g \<Rightarrow>
             let s2 = s1\<lparr>inDegrees := seedInDegrees eid g (inDegrees s1)\<rparr>
             in if g_allowCycles g then s2
                else s2\<lparr>remaining := fmupd eid (UnitCount g) (remaining s2),
                        failed := fmupd eid 0 (failed s2)\<rparr>)"

definition releaseInitialMirrorHold :: "ExecutionID \<Rightarrow> memoryState \<Rightarrow> memoryState" where
  "releaseInitialMirrorHold eid s0 =
     (let s = clearMirrorCreatePending eid s0
      in case fmlookup (executions s) eid of
           None \<Rightarrow> dropHeldOutboxLocked eid s
         | Some e \<Rightarrow>
             if isTerminalStatus (es_Status (snap e)) then dropHeldOutboxLocked eid s
             else if es_Status (snap e) = ExecutionStatusQueued then s
             else updEntries unholdEntries eid s)"

section \<open>Ending an execution\<close>

definition withdrawDeadlineLocked :: "ExecutionID \<Rightarrow> ExecutionStatus \<Rightarrow> memoryState \<Rightarrow> memoryState" where
  "withdrawDeadlineLocked eid status s =
     (if status \<noteq> ExecutionStatusTimeout then s\<lparr>deadlines := fmdrop eid (deadlines s)\<rparr> else s)"

text \<open>\<open>if !entry.closed { entry.closed = true; close(done) }\<close>\<close>

definition closeEntry :: "ExecutionID \<Rightarrow> memoryState \<Rightarrow> memoryState" where
  "closeEntry eid s = (case fmlookup (executions s) eid of
      None \<Rightarrow> s
    | Some e \<Rightarrow> if closed e then s
               else closeDone eid (s\<lparr>executions := fmupd eid (e\<lparr>closed := True\<rparr>) (executions s)\<rparr>))"

definition updateExecutionStatusLocked :: "Time \<Rightarrow> ExecutionID \<Rightarrow> ExecutionStatus \<Rightarrow> string \<Rightarrow> memoryState \<Rightarrow> bool \<times> memoryState" where
  "updateExecutionStatusLocked now eid status errMsg s = (case fmlookup (executions s) eid of
      None \<Rightarrow> (False, s)
    | Some e \<Rightarrow>
        let current = es_Status (snap e)
        in if isTerminalStatus current then (False, s)
           else if current = ExecutionStatusCanceling \<and> status \<noteq> ExecutionStatusCanceled then (False, s)
           else
             let s1 = (if status = ExecutionStatusCanceling \<and> \<not> hasKey (cancelingSince s) eid
                       then s\<lparr>cancelingSince := fmupd eid now (cancelingSince s)\<rparr> else s);
                 sn = (snap e)\<lparr>es_Status := status, es_UpdatedAt := now,
                               es_Error := (if errMsg \<noteq> '''' then errMsg else es_Error (snap e))\<rparr>;
                 s2 = setExecSnap eid e sn s1;
                 s3 = (if isTerminalStatus status
                       then closeEntry eid (releaseWorkflowSlotLocked now eid
                              (withdrawDeadlineLocked eid status
                                (s2\<lparr>cancelingSince := fmdrop eid (cancelingSince s2)\<rparr>)))
                       else s2)
             in (True, publishLocked (statusEvent eid status errMsg) s3))"

definition UpdateExecutionStatus :: "Time \<Rightarrow> ExecutionID \<Rightarrow> ExecutionStatus \<Rightarrow> string \<Rightarrow> memoryState \<Rightarrow> memoryState" where
  "UpdateExecutionStatus now eid status errMsg s =
     (case updateExecutionStatusLocked now eid status errMsg s of
        (applied, s1) \<Rightarrow> if applied then mirrorExecutionStatus eid s1 else s1)"

definition finishExecutionLocked :: "Time \<Rightarrow> ExecutionID \<Rightarrow> ExecutionStatus \<Rightarrow> string \<Rightarrow> memoryState \<Rightarrow> memoryState" where
  "finishExecutionLocked now eid status errMsg s = (case fmlookup (executions s) eid of
      None \<Rightarrow> s
    | Some e \<Rightarrow>
        if IsTerminalExecutionStatus (es_Status (snap e)) then s
        else
          let err = (if status = ExecutionStatusFailed \<and> errMsg \<noteq> '''' then errMsg else es_Error (snap e));
              sn = (snap e)\<lparr>es_Status := status, es_UpdatedAt := now, es_Error := err\<rparr>;
              s1 = setExecSnap eid e sn s;
              s2 = closeEntry eid (releaseWorkflowSlotLocked now eid (withdrawDeadlineLocked eid status s1))
          in publishLocked (statusEvent eid status err) s2)"

section \<open>Expiry, cancellation and deadline listings\<close>

definition ConcurrencyQueueTimeoutError :: string where
  "ConcurrencyQueueTimeoutError = ''concurrency queue timeout''"

definition queueExpired :: "Time \<Rightarrow> memoryState \<Rightarrow> ExecutionID \<Rightarrow> bool" where
  "queueExpired now s eid = (case fmlookup (queued s) eid of
      None \<Rightarrow> False
    | Some w \<Rightarrow> \<not> (IsZero (qe_deadline w) \<or> qe_deadline w > now))"

definition expireOne :: "Time \<Rightarrow> ExecutionID \<Rightarrow> memoryState \<times> ExecutionID list \<Rightarrow> memoryState \<times> ExecutionID list" where
  "expireOne now eid st = (case st of (s, projected) \<Rightarrow>
     (case updateExecutionStatusLocked now eid ExecutionStatusTimeout ConcurrencyQueueTimeoutError s of
        (applied, s1) \<Rightarrow> (s1, if applied then projected @ [eid] else projected)))"

text \<open>\<open>order\<close> is the order in which Go iterates over the map of queued
  executions.\<close>

definition ExpireQueuedExecutions :: "Time \<Rightarrow> int \<Rightarrow> ExecutionID list \<Rightarrow> memoryState \<Rightarrow> memoryState \<times> int" where
  "ExpireQueuedExecutions now limit order s =
     (let expired = clip limit (filter (queueExpired now s) order)
      in case fold (expireOne now) expired (s, []) of
           (s1, projected) \<Rightarrow> (fold mirrorExecutionStatus projected s1, int (length expired)))"

definition ListCancelingExecutions :: "Time \<Rightarrow> int \<Rightarrow> memoryState \<Rightarrow> memoryState \<times> (Time \<times> ExecutionID) list" where
  "ListCancelingExecutions olderThan limit s =
     (if limit \<le> 0 then (s, [])
      else
        let live = mapFilter (\<lambda>eid _. statusOf s eid = Some ExecutionStatusCanceling) (cancelingSince s);
            due = mapFilter (\<lambda>_ since. \<not> since > olderThan) live;
            out = sort (map (\<lambda>eid. (mapGet zeroTime due eid, eid)) (sortedKeys due))
        in (s\<lparr>cancelingSince := live\<rparr>, take (nat limit) out))"

definition ListDeadlineExceededExecutions :: "Time \<Rightarrow> int \<Rightarrow> memoryState \<Rightarrow> memoryState \<times> (Time \<times> ExecutionID) list" where
  "ListDeadlineExceededExecutions before limit s =
     (if limit \<le> 0 then (s, [])
      else
        let live = mapFilter (\<lambda>eid _. statusOf s eid \<noteq> None \<and>
                     statusOf s eid \<notin> {Some ExecutionStatusSuccess, Some ExecutionStatusFailed, Some ExecutionStatusCanceled})
                     (deadlines s);
            due = mapFilter (\<lambda>_ deadline. \<not> deadline > before) live;
            out = sort (map (\<lambda>eid. (mapGet zeroTime due eid, eid)) (sortedKeys due))
        in (s\<lparr>deadlines := live\<rparr>, take (nat limit) out))"

definition AckDeadlineExpired :: "ExecutionID \<Rightarrow> memoryState \<Rightarrow> memoryState" where
  "AckDeadlineExpired eid s = s\<lparr>deadlines := fmdrop eid (deadlines s)\<rparr>"

section \<open>Pause and resume\<close>

definition PauseExecution :: "Time \<Rightarrow> ExecutionID \<Rightarrow> memoryState \<Rightarrow> memoryState \<times> StoreError option" where
  "PauseExecution now eid s = (case fmlookup (executions s) eid of
      None \<Rightarrow> (s, Some ErrExecutionNotPausable)
    | Some e \<Rightarrow>
        (case es_Status (snap e) of
           ExecutionStatusPaused \<Rightarrow> (mirrorExecutionStatus eid s, None)
         | ExecutionStatusRunning \<Rightarrow>
             (mirrorExecutionStatus eid
                (setExecSnap eid e ((snap e)\<lparr>es_Status := ExecutionStatusPaused, es_UpdatedAt := now\<rparr>) s), None)
         | _ \<Rightarrow> (s, Some ErrExecutionNotPausable)))"

definition ResumeExecution :: "Time \<Rightarrow> ExecutionID \<Rightarrow> memoryState \<Rightarrow> memoryState \<times> StoreError option" where
  "ResumeExecution now eid s = (case fmlookup (executions s) eid of
      None \<Rightarrow> (s, Some ErrExecutionNotPaused)
    | Some e \<Rightarrow>
        if es_Status (snap e) \<noteq> ExecutionStatusPaused then (s, Some ErrExecutionNotPaused)
        else (mirrorExecutionStatus eid
                (setExecSnap eid e ((snap e)\<lparr>es_Status := ExecutionStatusRunning, es_UpdatedAt := now\<rparr>) s), None))"

section \<open>Rollback of a failed create\<close>

text \<open>The done channel of the removed execution is closed unless its entry says
  that it was; then the map entry goes.\<close>

definition dropDone :: "ExecutionID \<Rightarrow> execEntry option \<Rightarrow> memoryState \<Rightarrow> memoryState" where
  "dropDone eid entry s =
     (let s1 = (if entry = None \<or> \<not> closed (the entry) then closeDone eid s else s)
      in s1\<lparr>doneCh := fmdrop eid (doneCh s1)\<rparr>)"

definition rollbackCreatedExecution :: "Time \<Rightarrow> ExecutionID \<Rightarrow> memoryState \<Rightarrow> memoryState" where
  "rollbackCreatedExecution now eid s0 =
     (let s1 = releaseWorkflowSlotLocked now eid s0;
          entry = fmlookup (executions s1) eid;
          s2 = dropDone eid entry (s1\<lparr>executions := fmdrop eid (executions s1)\<rparr>);
          s3 = fold closeChan (mapGet [] (eventWatchers s2) eid) s2;
          p = eid @ ''/''
      in s3\<lparr>eventWatchers := fmdrop eid (eventWatchers s3),
            nodes := dropPrefix (nodes s3) p,
            inDegrees := dropPrefix (inDegrees s3) p,
            activeIns := dropPrefix (activeIns s3) p,
            advanced := dropPrefix (advanced s3) p,
            scheduled := dropPrefix (scheduled s3) p,
            outputs := dropPrefix (outputs s3) p,
            privateOutputs := dropPrefix (privateOutputs s3) p,
            suspended := dropPrefix (suspended s3) p,
            signals := dropPrefix (signals s3) p,
            signalSets := dropPrefix (signalSets s3) p,
            resumed := dropPrefix (resumed s3) p,
            subExecs := dropPrefix (subExecs s3) p,
            subWorkflowLinks := dropPrefix (subWorkflowLinks s3) p,
            subWorkflowConclusions := dropPrefix (subWorkflowConclusions s3) p,
            groupUnits := dropPrefix (groupUnits s3) p,
            outbox := fmdrop eid (outbox s3),
            deadOutbox := fmdrop eid (deadOutbox s3),
            replayReceipts := fmdrop eid (replayReceipts s3),
            replayEntryIdx := fmdrop eid (replayEntryIdx s3),
            remaining := fmdrop eid (remaining s3),
            failed := fmdrop eid (failed s3),
            idempotency := fmdrop eid (idempotency s3),
            cancelingSince := fmdrop eid (cancelingSince s3),
            mirrorLocks := fmdrop eid (mirrorLocks s3),
            mirrorSkip := fmdrop eid (mirrorSkip s3),
            mirrorCreatePending := fmdrop eid (mirrorCreatePending s3),
            mirrorConflict := fmdrop eid (mirrorConflict s3),
            rolledBack := fmupd eid True (rolledBack s3),
            admissions := mapFilter (\<lambda>_ a. ae_executionID a \<noteq> eid) (admissions s3)\<rparr>)"

section \<open>The create operations\<close>

text \<open>Each operation has three phases: the critical section, the insert into the
  durable store, and the release of the intents or the rollback.  Other
  operations may run between the phases; the phases are therefore separate
  definitions, and the operation is their composition.\<close>

definition settleCreate :: "Time \<Rightarrow> bool \<Rightarrow> ExecutionID \<Rightarrow> memoryState \<times> StoreError option \<Rightarrow> memoryState \<times> StoreError option" where
  "settleCreate now releaseHold eid r = (case r of
      (s, Some err) \<Rightarrow> (rollbackCreatedExecution now eid s, Some err)
    | (s, None) \<Rightarrow>
        (pruneTransientSkipAfterTerminal eid (if releaseHold then releaseInitialMirrorHold eid s else s), None))"

definition createLocked :: "Time \<Rightarrow> bool \<Rightarrow> ExecutionSnapshot \<Rightarrow> memoryState \<Rightarrow> memoryState" where
  "createLocked now hint e s =
     createExecutionLocked now e (snd (markMirrorCreatePendingLocked (es_ID e) (noteMirrorModeLocked hint e s)))"

definition CreateExecution :: "Time \<Rightarrow> bool \<Rightarrow> InsertOutcome \<Rightarrow> ExecutionSnapshot \<Rightarrow> memoryState \<Rightarrow> memoryState \<times> StoreError option" where
  "CreateExecution now hint ins e s =
     settleCreate now True (es_ID e) (mirrorCreateExecution ins (es_ID e) (createLocked now hint e s))"

definition createWithOutboxLocked :: "Time \<Rightarrow> bool \<Rightarrow> ExecutionSnapshot \<Rightarrow> OutboxEntry list \<Rightarrow> memoryState \<Rightarrow> bool \<times> memoryState" where
  "createWithOutboxLocked now hint e entries s =
     (case markMirrorCreatePendingLocked (es_ID e) (noteMirrorModeLocked hint e s) of
        (hold, s1) \<Rightarrow>
          (hold, writeInitialIntentsLocked now (es_ID e) entries (if hold then queuedOutboxHold else zeroTime)
                   (createExecutionLocked now e s1)))"

definition CreateExecutionWithOutbox :: "Time \<Rightarrow> bool \<Rightarrow> InsertOutcome \<Rightarrow> ExecutionSnapshot \<Rightarrow> OutboxEntry list \<Rightarrow>
    memoryState \<Rightarrow> memoryState \<times> StoreError option" where
  "CreateExecutionWithOutbox now hint ins e entries s =
     (case createWithOutboxLocked now hint e entries s of
        (hold, s1) \<Rightarrow> settleCreate now hold (es_ID e) (mirrorCreateExecution ins (es_ID e) s1))"

text \<open>The critical section of an admission: the slot decision, and with it the
  execution and its intents, or nothing.\<close>

definition createWithConcurrencyLocked :: "Time \<Rightarrow> bool \<Rightarrow> ExecutionSnapshot \<Rightarrow> OutboxEntry list \<Rightarrow>
    ConcurrencyAdmission \<Rightarrow> memoryState \<Rightarrow> memoryState \<times> (StoreError + (bool \<times> ConcurrencyAdmissionResult))" where
  "createWithConcurrencyLocked now hint e entries adm s =
     (case chargeOrParkLocked now (es_ID e) adm s of
        (s0, Inl err) \<Rightarrow> (s0, Inl err)
      | (s0, Inr pending) \<Rightarrow>
          let admitted = e\<lparr>es_Status := (if pending then ExecutionStatusQueued else ExecutionStatusRunning)\<rparr>
          in case markMirrorCreatePendingLocked (es_ID e) (noteMirrorModeLocked hint admitted s0) of
               (hold, s1) \<Rightarrow>
                 let s2 = createExecutionLocked now admitted s1;
                     s3 = writeInitialIntentsLocked now (es_ID e) entries
                            (if pending \<or> hold then queuedOutboxHold else zeroTime) s2
                 in (s3, Inr (hold, if pending
                       then \<lparr>cx_Queued = True, cx_QueuePosition = queuePositionLocked s3 (es_ID e)\<rparr>
                       else \<lparr>cx_Queued = False, cx_QueuePosition = 0\<rparr>)))"

definition CreateExecutionWithConcurrency :: "Time \<Rightarrow> bool \<Rightarrow> InsertOutcome \<Rightarrow> ExecutionSnapshot \<Rightarrow> OutboxEntry list \<Rightarrow>
    ConcurrencyAdmission \<Rightarrow> memoryState \<Rightarrow> memoryState \<times> (StoreError + ConcurrencyAdmissionResult)" where
  "CreateExecutionWithConcurrency now hint ins e entries adm s =
     (case createWithConcurrencyLocked now hint e entries adm s of
        (s1, Inl err) \<Rightarrow> (s1, Inl err)
      | (s1, Inr (hold, result)) \<Rightarrow>
          (case settleCreate now hold (es_ID e) (mirrorCreateExecution ins (es_ID e) s1) of
             (s2, Some err) \<Rightarrow> (s2, Inl err)
           | (s2, None) \<Rightarrow> (s2, Inr result)))"

section \<open>What promotion and release do to the rest of the store\<close>

text \<open>Everything but the executions, the outbox, the slot sets and the event channels.\<close>

definition erasePromotion :: "memoryState \<Rightarrow> memoryState" where
  "erasePromotion s = s\<lparr>executions := fmempty,
     outbox := fmempty,
     workflowSlots := fmempty,
     slotHolders := fmempty,
     queued := fmempty,
     eventWatchers := fmempty,
     chans := fmempty,
     panicked := False\<rparr>"

lemma erasePromotion_sel:
  "nodes (erasePromotion s) = nodes s"
  "inDegrees (erasePromotion s) = inDegrees s"
  "activeIns (erasePromotion s) = activeIns s"
  "remaining (erasePromotion s) = remaining s"
  "failed (erasePromotion s) = failed s"
  "advanced (erasePromotion s) = advanced s"
  "scheduled (erasePromotion s) = scheduled s"
  "deadOutbox (erasePromotion s) = deadOutbox s"
  "replayReceipts (erasePromotion s) = replayReceipts s"
  "replayEntryIdx (erasePromotion s) = replayEntryIdx s"
  "outputs (erasePromotion s) = outputs s"
  "privateOutputs (erasePromotion s) = privateOutputs s"
  "suspended (erasePromotion s) = suspended s"
  "signals (erasePromotion s) = signals s"
  "signalSets (erasePromotion s) = signalSets s"
  "resumed (erasePromotion s) = resumed s"
  "subExecs (erasePromotion s) = subExecs s"
  "subWorkflowLinks (erasePromotion s) = subWorkflowLinks s"
  "subWorkflowConclusions (erasePromotion s) = subWorkflowConclusions s"
  "groupUnits (erasePromotion s) = groupUnits s"
  "admissions (erasePromotion s) = admissions s"
  "idempotency (erasePromotion s) = idempotency s"
  "doneCh (erasePromotion s) = doneCh s"
  "cancelingSince (erasePromotion s) = cancelingSince s"
  "db (erasePromotion s) = db s"
  "mirrorLocks (erasePromotion s) = mirrorLocks s"
  "mirrorSkip (erasePromotion s) = mirrorSkip s"
  "mirrorCreatePending (erasePromotion s) = mirrorCreatePending s"
  "mirrorConflict (erasePromotion s) = mirrorConflict s"
  "rolledBack (erasePromotion s) = rolledBack s"
  "deadlines (erasePromotion s) = deadlines s"
  "nextChan (erasePromotion s) = nextChan s"
  by (simp_all add: erasePromotion_def)

lemma erasePromotion_D:
  assumes "erasePromotion s = erasePromotion t"
  shows "nodes s = nodes t"
    "inDegrees s = inDegrees t"
    "activeIns s = activeIns t"
    "remaining s = remaining t"
    "failed s = failed t"
    "advanced s = advanced t"
    "scheduled s = scheduled t"
    "deadOutbox s = deadOutbox t"
    "replayReceipts s = replayReceipts t"
    "replayEntryIdx s = replayEntryIdx t"
    "outputs s = outputs t"
    "privateOutputs s = privateOutputs t"
    "suspended s = suspended t"
    "signals s = signals t"
    "signalSets s = signalSets t"
    "resumed s = resumed t"
    "subExecs s = subExecs t"
    "subWorkflowLinks s = subWorkflowLinks t"
    "subWorkflowConclusions s = subWorkflowConclusions t"
    "groupUnits s = groupUnits t"
    "admissions s = admissions t"
    "idempotency s = idempotency t"
    "doneCh s = doneCh t"
    "cancelingSince s = cancelingSince t"
    "db s = db t"
    "mirrorLocks s = mirrorLocks t"
    "mirrorSkip s = mirrorSkip t"
    "mirrorCreatePending s = mirrorCreatePending t"
    "mirrorConflict s = mirrorConflict t"
    "rolledBack s = rolledBack t"
    "deadlines s = deadlines t"
    "nextChan s = nextChan t"
  by (metis assms erasePromotion_sel)+


lemma erasePromotion_events: "eraseEvents s = eraseEvents t \<Longrightarrow> erasePromotion s = erasePromotion t"
proof -
  have "erasePromotion s = erasePromotion (eraseEvents s)" for s
    by (simp add: erasePromotion_def eraseEvents_def)
  then show "eraseEvents s = eraseEvents t \<Longrightarrow> erasePromotion s = erasePromotion t" by metis
qed

lemma erasePromotion_updates [simp]:
  "erasePromotion (setExecSnap eid e sn s) = erasePromotion s"
  "erasePromotion (updEntries f eid s) = erasePromotion s"
  "erasePromotion (publishLocked ev s) = erasePromotion s"
  "erasePromotion (putSlot slot s) = erasePromotion s"
  "erasePromotion (s\<lparr>slotHolders := h\<rparr>) = erasePromotion s"
  "erasePromotion (s\<lparr>queued := q\<rparr>) = erasePromotion s"
  "erasePromotion (s\<lparr>workflowSlots := w\<rparr>) = erasePromotion s"
  "erasePromotion (dropHeldOutboxLocked eid s) = erasePromotion s"
  by (simp_all add: setExecSnap_def updEntries_def putSlot_def dropHeldOutboxLocked_def
      erasePromotion_events [OF publishLocked_frame])
     (simp_all add: erasePromotion_def split: option.split)

lemma completePromotionLocked_frame [simp]: "erasePromotion (completePromotionLocked now eid s) = erasePromotion s"
  by (simp add: completePromotionLocked_def Let_def split: option.split)

lemma promoteHead_frame: "erasePromotion (snd (promoteHead now slot s)) = erasePromotion s"
  by (simp add: promoteHead_def Let_def)

lemma promoteLocked_frame: "erasePromotion (snd (promoteLocked now slot s)) = erasePromotion s"
proof (induction now slot s rule: promoteLocked.induct)
  case (1 now slot s)
  obtain slot1 s1 where ph: "promoteHead now slot s = (slot1, s1)" by fastforce
  have "erasePromotion s1 = erasePromotion s" using promoteHead_frame [of now slot s] by (simp add: ph)
  then show ?case
    using "1.IH" [OF _ ph [symmetric]] by (simp add: promoteLocked.simps [of now slot s] ph)
qed

lemma refill_frame: "erasePromotion (refill now slot s) = erasePromotion s"
proof -
  obtain slot1 s1 where "promoteLocked now slot s = (slot1, s1)" by fastforce
  then show ?thesis
    using promoteLocked_frame [of now slot s] by (simp add: refill_def pruneSlot_def)
qed

lemma releaseWorkflowSlotLocked_refill:
  "releaseWorkflowSlotLocked now eid s = (case fmlookup (slotHolders s) eid of
      Some key \<Rightarrow>
        (case fmlookup (workflowSlots s) key of
           None \<Rightarrow> s
         | Some slot0 \<Rightarrow>
             let slot = slot0\<lparr>ws_holders := ws_holders slot0 |-| {|eid|}\<rparr>
             in refill now slot ((putSlot slot s)\<lparr>slotHolders := fmdrop eid (slotHolders s)\<rparr>))
    | None \<Rightarrow>
        (case fmlookup (queued s) eid of
           None \<Rightarrow> s
         | Some w \<Rightarrow>
             (case fmlookup (workflowSlots s) (qe_slot w) of
                None \<Rightarrow> s
              | Some slot0 \<Rightarrow>
                  let slot = removeQueued eid slot0
                  in refill now slot (dropHeldOutboxLocked eid ((putSlot slot s)\<lparr>queued := fmdrop eid (queued s)\<rparr>)))))"
  unfolding releaseWorkflowSlotLocked_def refill_def Let_def by (rule refl)

lemma releaseWorkflowSlotLocked_frame:
  "erasePromotion (releaseWorkflowSlotLocked now eid s) = erasePromotion s"
  by (simp add: releaseWorkflowSlotLocked_refill Let_def refill_frame split: option.split)

lemmas releaseWorkflowSlotLocked_sel [simp] = erasePromotion_D [OF releaseWorkflowSlotLocked_frame]

text \<open>On the executions, promotion only starts queued ones.\<close>

definition starts :: "Time \<Rightarrow> (ExecutionID, execEntry) fmap \<Rightarrow> (ExecutionID, execEntry) fmap \<Rightarrow> bool" where
  "starts now E E' \<longleftrightarrow> (\<forall>x. fmlookup E' x = fmlookup E x \<or>
     (\<exists>e. fmlookup E x = Some e \<and> es_Status (snap e) = ExecutionStatusQueued \<and>
          fmlookup E' x = Some (e\<lparr>snap := (snap e)\<lparr>es_Status := ExecutionStatusRunning, es_UpdatedAt := now\<rparr>\<rparr>)))"

lemma starts_refl [simp]: "starts now E E"
  by (simp add: starts_def)

lemma starts_same:
  assumes "starts now E E'" "fmlookup E x = Some e" "es_Status (snap e) \<noteq> ExecutionStatusQueued"
  shows "fmlookup E' x = Some e"
  using spec [OF assms(1) [unfolded starts_def], of x] assms(2,3) by auto

lemma starts_trans:
  assumes "starts now E E'" "starts now E' E''"
  shows "starts now E E''"
  unfolding starts_def
proof
  fix x
  show "fmlookup E'' x = fmlookup E x \<or>
     (\<exists>e. fmlookup E x = Some e \<and> es_Status (snap e) = ExecutionStatusQueued \<and>
          fmlookup E'' x = Some (e\<lparr>snap := (snap e)\<lparr>es_Status := ExecutionStatusRunning, es_UpdatedAt := now\<rparr>\<rparr>))"
  proof (cases "fmlookup E' x = fmlookup E x")
    case True
    then show ?thesis using assms(2) unfolding starts_def by metis
  next
    case False
    then obtain e where "fmlookup E x = Some e" "es_Status (snap e) = ExecutionStatusQueued"
        "fmlookup E' x = Some (e\<lparr>snap := (snap e)\<lparr>es_Status := ExecutionStatusRunning, es_UpdatedAt := now\<rparr>\<rparr>)"
      using assms(1) by (auto simp: starts_def)
    moreover from this have "fmlookup E'' x = fmlookup E' x" using starts_same [OF assms(2)] by simp
    ultimately show ?thesis by simp
  qed
qed

lemma completePromotionLocked_starts: "starts now (executions s) (executions (completePromotionLocked now eid s))"
  by (auto simp: completePromotionLocked_def Let_def setExecSnap_def updEntries_def starts_def split: option.split)

lemma promoteHead_starts:
  assumes "promoteHead now slot s = (slot', s')"
  shows "starts now (executions s) (executions s')"
proof -
  define s1 where "s1 = (putSlot slot' s)\<lparr>queued := fmdrop (hd (ws_queued slot)) (queued s),
      slotHolders := fmupd (hd (ws_queued slot)) (ws_key slot) (slotHolders s)\<rparr>"
  have "s' = completePromotionLocked now (hd (ws_queued slot)) s1"
    using assms by (auto simp: promoteHead_def Let_def s1_def)
  then show ?thesis
    using completePromotionLocked_starts [of now s1] by (simp add: s1_def putSlot_def)
qed

lemma promoteLocked_starts: "starts now (executions s) (executions (snd (promoteLocked now slot s)))"
proof (induction now slot s rule: promoteLocked.induct)
  case (1 now slot s)
  obtain slot1 s1 where ph: "promoteHead now slot s = (slot1, s1)" by fastforce
  show ?case
    using "1.IH" [OF _ ph [symmetric]] starts_trans [OF promoteHead_starts [OF ph]]
    by (simp add: promoteLocked.simps [of now slot s] ph)
qed

lemma refill_starts: "starts now (executions s) (executions (refill now slot s))"
proof -
  obtain slot1 s1 where "promoteLocked now slot s = (slot1, s1)" by fastforce
  then show ?thesis
    using promoteLocked_starts [of now s slot] by (simp add: refill_def pruneSlot_def)
qed

lemma releaseWorkflowSlotLocked_starts:
  "starts now (executions s) (executions (releaseWorkflowSlotLocked now eid s))"
proof -
  have "starts now (executions s) (executions (refill now slot ((putSlot sl s)\<lparr>slotHolders := h\<rparr>)))"
    "starts now (executions s) (executions (refill now slot (dropHeldOutboxLocked eid ((putSlot sl s)\<lparr>queued := q\<rparr>))))"
    for slot sl h q
    using refill_starts [of now "(putSlot sl s)\<lparr>slotHolders := h\<rparr>" slot]
      refill_starts [of now "dropHeldOutboxLocked eid ((putSlot sl s)\<lparr>queued := q\<rparr>)" slot]
    by (simp_all add: putSlot_def dropHeldOutboxLocked_def)
  then show ?thesis by (simp add: releaseWorkflowSlotLocked_refill Let_def split: option.split)
qed

lemma starts_status:
  "starts now (executions s) (executions s') \<Longrightarrow> statusOf s x \<noteq> Some ExecutionStatusQueued \<Longrightarrow>
    statusOf s' x = statusOf s x"
  by (force simp: starts_def statusOf_def)

text \<open>The executions that hold a slot or stand in a line.\<close>

definition refs :: "memoryState \<Rightarrow> ExecutionID set" where
  "refs s = {x. fmlookup (slotHolders s) x \<noteq> None \<or> fmlookup (queued s) x \<noteq> None}"

lemma promoteHead_refs:
  assumes "slotStored slot s" "ws_queued slot = x # xs" "promoteHead now slot s = (slot', s')"
  shows "refs s' = refs s"
proof -
  have "map_option qe_slot (fmlookup (queued s) x) = Some (ws_key slot)"
    using assms(1,2) slots_okD(4) [of "workflowSlots s" "slotHolders s" "queued s" "ws_key slot" slot x]
    by (simp add: slotStored_def slotsOK_def del: map_option_eq_Some)
  then show ?thesis using promoteHead_maps [OF assms(3)] assms(2) by (auto simp: refs_def)
qed

lemma promoteLocked_refs: "slotStored slot s \<Longrightarrow> refs (snd (promoteLocked now slot s)) = refs s"
proof (induction now slot s rule: promoteLocked.induct)
  case (1 now slot s)
  obtain slot1 s1 where ph: "promoteHead now slot s = (slot1, s1)" by fastforce
  show ?case
  proof (cases "ws_limit slot > 0 \<and> holderCount slot < ws_limit slot \<and> ws_queued slot \<noteq> []")
    case True
    then obtain x xs where q: "ws_queued slot = x # xs" by (cases "ws_queued slot") auto
    show ?thesis
      using "1.IH" [OF True ph [symmetric] promoteHead_stored(1) [OF "1.prems" q ph]]
        promoteHead_refs [OF "1.prems" q ph] True
      by (simp add: promoteLocked.simps [of now slot s] ph)
  next
    case False
    then show ?thesis by (auto simp: promoteLocked.simps [of now slot s])
  qed
qed

lemma refill_refs: "slotStored slot s \<Longrightarrow> refs (refill now slot s) = refs s"
proof -
  assume st: "slotStored slot s"
  obtain slot1 s1 where p: "promoteLocked now slot s = (slot1, s1)" by fastforce
  then have "refs (refill now slot s) = refs s1" by (simp add: refill_def pruneSlot_def refs_def)
  then show ?thesis using promoteLocked_refs [OF st, of now] p by simp
qed

lemma releaseWorkflowSlotLocked_refs:
  assumes "slotsOK s"
  shows "refs (releaseWorkflowSlotLocked now eid s) = refs s - {eid}"
  using assms
proof (cases rule: releaseWorkflowSlotLocked_cases [where eid = eid and now = now])
  case (holder slot0)
  have "fmlookup (queued s) eid = None"
    using holder(1) assms slots_ok_exclusive [of _ "slotHolders s" "queued s" eid] by (auto simp: slotsOK_def)
  then show ?thesis
    unfolding holder(4) refill_refs [OF holder_leaves_stored [OF assms holder(1,2)]]
    by (auto simp: refs_def putSlot_def)
next
  case (waiting slot0 w)
  then show ?thesis
    unfolding waiting(5) refill_refs [OF waiting_leaves_stored [OF assms waiting(2,3,4)]]
    by (auto simp: refs_def putSlot_def dropHeldOutboxLocked_def)
next
  case none
  then show ?thesis by (auto simp: refs_def)
qed

section \<open>The event channels\<close>

definition watchersOf :: "memoryState \<Rightarrow> ExecutionID \<Rightarrow> nat list" where
  "watchersOf s x = mapGet [] (eventWatchers s) x"

definition chanState :: "memoryState \<Rightarrow> nat \<Rightarrow> bool option" where
  "chanState s c = map_option ch_closed (fmlookup (chans s) c)"

text \<open>Nothing panicked; the watchers of an execution are distinct open channels
  that watch no other execution; channel numbers are never reused.\<close>

definition chanOK :: "memoryState \<Rightarrow> bool" where
  "chanOK s \<longleftrightarrow> \<not> panicked s
     \<and> (\<forall>x. distinct (watchersOf s x))
     \<and> (\<forall>x. \<forall>c\<in>set (watchersOf s x). chanState s c = Some False)
     \<and> (\<forall>x y c. c \<in> set (watchersOf s x) \<longrightarrow> c \<in> set (watchersOf s y) \<longrightarrow> x = y)
     \<and> (\<forall>c. chanState s c \<noteq> None \<longrightarrow> c < nextChan s)"

lemma trySend_chan:
  "chanState (trySend ev c s) d = chanState s d"
  "chanState s c \<noteq> Some True \<Longrightarrow> panicked (trySend ev c s) = panicked s"
  "eventWatchers (trySend ev c s) = eventWatchers s" "nextChan (trySend ev c s) = nextChan s"
  by (auto simp: trySend_def chanState_def split: option.split)

lemma closeChan_chan:
  assumes "chanState s c = Some False"
  shows "chanState (closeChan c s) d = (if d = c then Some True else chanState s d)"
    "panicked (closeChan c s) = panicked s"
  using assms by (auto simp: closeChan_def chanState_def split: option.split)

lemma closeChan_sel [simp]:
  "eventWatchers (closeChan c s) = eventWatchers s" "nextChan (closeChan c s) = nextChan s"
  by (simp_all add: closeChan_def split: option.split)

lemma fold_trySend_chan:
  assumes "\<forall>c\<in>set ws. chanState s c \<noteq> Some True"
  shows "chanState (fold (trySend ev) ws s) d = chanState s d"
    "panicked (fold (trySend ev) ws s) = panicked s"
    "eventWatchers (fold (trySend ev) ws s) = eventWatchers s"
    "nextChan (fold (trySend ev) ws s) = nextChan s"
  using assms by (induction ws arbitrary: s) (simp_all add: trySend_chan)

lemma fold_closeChan_chan:
  assumes "distinct ws" "\<forall>c\<in>set ws. chanState s c = Some False"
  shows "chanState (fold closeChan ws s) d = (if d \<in> set ws then Some True else chanState s d)
    \<and> panicked (fold closeChan ws s) = panicked s
    \<and> eventWatchers (fold closeChan ws s) = eventWatchers s \<and> nextChan (fold closeChan ws s) = nextChan s"
  using assms
proof (induction ws arbitrary: s)
  case (Cons c ws)
  have opn: "\<forall>c'\<in>set ws. chanState (closeChan c s) c' = Some False"
    using Cons.prems closeChan_chan(1) [of s c] by auto
  show ?case using Cons.IH [OF _ opn] Cons.prems closeChan_chan [of s c] by auto
qed simp

text \<open>Dropping all watchers of an execution after closing their channels.\<close>

lemma chanOK_closeAll:
  assumes "chanOK s"
  shows "chanOK ((fold closeChan (watchersOf s x) s)\<lparr>eventWatchers := fmdrop x (eventWatchers s)\<rparr>)"
proof -
  let ?s = "fold closeChan (watchersOf s x) s"
  have c: "chanState ?s d = (if d \<in> set (watchersOf s x) then Some True else chanState s d)"
      "panicked ?s = panicked s" "nextChan ?s = nextChan s" for d
    using fold_closeChan_chan [of "watchersOf s x" s d] assms by (simp_all add: chanOK_def)
  have w: "watchersOf (?s\<lparr>eventWatchers := fmdrop x (eventWatchers s)\<rparr>) y =
      (if y = x then [] else watchersOf s y)" for y
    by (simp add: watchersOf_def)
  have cs: "chanState (?s\<lparr>eventWatchers := e\<rparr>) d = chanState ?s d" for d e by (simp add: chanState_def)
  have "c \<notin> set (watchersOf s x)" if "c \<in> set (watchersOf s y)" "y \<noteq> x" for c y
    using that assms by (auto simp: chanOK_def)
  moreover have "chanState s d \<noteq> None" if "d \<in> set (watchersOf s x)" for d
    using that assms by (auto simp: chanOK_def)
  ultimately show ?thesis
    using assms unfolding chanOK_def by (simp add: w cs c) metis
qed

lemma publishLocked_chanOK:
  assumes "chanOK s"
  shows "chanOK (publishLocked ev s)"
proof -
  define x where "x = ev_ExecutionID ev"
  define s1 where "s1 = fold (trySend ev) (watchersOf s x) s"
  have "\<forall>c\<in>set (watchersOf s x). chanState s c \<noteq> Some True" using assms by (auto simp: chanOK_def)
  note f = fold_trySend_chan [OF this, where ev = ev, folded s1_def]
  have w: "watchersOf s1 y = watchersOf s y" for y by (simp add: watchersOf_def f(3))
  have ok: "chanOK s1" using assms f w by (simp add: chanOK_def)
  have "publishLocked ev s = (if isTerminalStatus (ev_Status ev)
      then (fold closeChan (watchersOf s1 x) s1)\<lparr>eventWatchers := fmdrop x (eventWatchers s1)\<rparr> else s1)"
    by (simp add: publishLocked_def Let_def w) (simp add: s1_def x_def watchersOf_def)
  then show ?thesis using ok chanOK_closeAll [OF ok, of x] by simp
qed

lemma chanOK_cong:
  assumes "chanOK s" "chans s' = chans s" "eventWatchers s' = eventWatchers s"
    "nextChan s' = nextChan s" "panicked s' = panicked s"
  shows "chanOK s'"
  using assms by (simp add: chanOK_def chanState_def watchersOf_def)

lemma WatchExecution_chanOK:
  assumes "chanOK s" "WatchExecution x s = (c, s')"
  shows "chanOK s'"
proof -
  have c: "c = nextChan s" "s' = s\<lparr>chans := fmupd c \<lparr>ch_buf = [], ch_closed = False\<rparr> (chans s),
        eventWatchers := fmupd x (watchersOf s x @ [c]) (eventWatchers s), nextChan := nextChan s + 1\<rparr>"
    using assms(2) by (auto simp: WatchExecution_def watchersOf_def)
  have cs: "chanState s' d = (if d = c then Some False else chanState s d)" for d by (auto simp: c chanState_def)
  have w: "watchersOf s' y = (if y = x then watchersOf s x @ [c] else watchersOf s y)" for y
    by (auto simp: c watchersOf_def)
  have "chanState s c = None" using assms(1) c(1) by (auto simp: chanOK_def)
  then have "c \<notin> set (watchersOf s y)" for y using assms(1) by (auto simp: chanOK_def)
  moreover have "nextChan s' = Suc c" "panicked s' = panicked s" by (simp_all add: c)
  ultimately show ?thesis
    using assms(1) c(1) unfolding chanOK_def by (simp add: cs w) (metis less_Suc_eq)
qed

lemma removeWatcherLocked_chanOK:
  assumes "chanOK s"
  shows "chanOK (removeWatcherLocked x c s)"
proof (cases "c \<in> set (watchersOf s x)")
  case True
  define s1 where "s1 = s\<lparr>eventWatchers := fmupd x (remove1 c (watchersOf s x)) (eventWatchers s)\<rparr>"
  have o: "chanState s1 c = Some False" using assms True by (simp add: chanOK_def chanState_def s1_def)
  have w: "watchersOf (closeChan c s1) y = (if y = x then remove1 c (watchersOf s x) else watchersOf s y)" for y
    by (simp add: watchersOf_def s1_def)
  have cs: "chanState s1 d = chanState s d" "panicked s1 = panicked s" "nextChan s1 = nextChan s" for d
    by (simp_all add: s1_def chanState_def)
  have lt: "c < nextChan s" using o cs assms by (auto simp: chanOK_def)
  have "set (remove1 c (watchersOf s x)) = set (watchersOf s x) - {c}"
    using assms by (simp add: chanOK_def)
  moreover have "c \<notin> set (watchersOf s y)" if "y \<noteq> x" for y using assms True that by (auto simp: chanOK_def)
  moreover have "removeWatcherLocked x c s = closeChan c s1"
    using True by (simp add: removeWatcherLocked_def s1_def watchersOf_def)
  ultimately show ?thesis
    using assms True unfolding chanOK_def
    by (simp add: w closeChan_chan [OF o] cs split: if_splits) (auto simp: lt split: if_splits)
next
  case False
  then show ?thesis using assms by (simp add: removeWatcherLocked_def watchersOf_def)
qed

section \<open>The store invariant\<close>

text \<open>The done channel of an execution is closed exactly when the execution has
  ended, its entry says so, and no closed channel waits for an execution that is
  not there.  \<open>X\<close> is a set of executions exempt from it, for the states inside an
  operation.\<close>

definition doneOK :: "ExecutionID set \<Rightarrow> (ExecutionID, execEntry) fmap \<Rightarrow> (ExecutionID, bool) fmap \<Rightarrow> bool" where
  "doneOK X E D \<longleftrightarrow> (\<forall>x. x \<notin> X \<longrightarrow> (case fmlookup E x of
       None \<Rightarrow> fmlookup D x \<noteq> Some True
     | Some e \<Rightarrow> fmlookup D x = Some (closed e) \<and> closed e = isTerminalStatus (es_Status (snap e))))"

definition live :: "(ExecutionID, execEntry) fmap \<Rightarrow> ExecutionID \<Rightarrow> bool" where
  "live E x \<longleftrightarrow> (case fmlookup E x of None \<Rightarrow> False | Some e \<Rightarrow> \<not> isTerminalStatus (es_Status (snap e)))"

definition storeInv :: "Limits \<Rightarrow> memoryState \<Rightarrow> bool" where
  "storeInv lim s \<longleftrightarrow> slotPolicy lim s \<and> chanOK s \<and> doneOK {} (executions s) (doneCh s)
     \<and> (\<forall>x\<in>refs s. live (executions s) x)"

text \<open>The part of the state that the invariant reads.\<close>

definition core :: "memoryState \<Rightarrow> memoryState" where
  "core s = (newMemoryState False)\<lparr>executions := executions s, workflowSlots := workflowSlots s, slotHolders := slotHolders s,
     queued := queued s, doneCh := doneCh s, eventWatchers := eventWatchers s, chans := chans s,
     nextChan := nextChan s, panicked := panicked s\<rparr>"

lemma core_sel:
  "executions (core s) = executions s" "workflowSlots (core s) = workflowSlots s"
  "slotHolders (core s) = slotHolders s" "queued (core s) = queued s" "doneCh (core s) = doneCh s"
  "eventWatchers (core s) = eventWatchers s" "chans (core s) = chans s" "nextChan (core s) = nextChan s"
  "panicked (core s) = panicked s"
  by (simp_all add: core_def)

lemma storeInv_of_core: "storeInv lim (core s) = storeInv lim s"
  by (simp add: storeInv_def slotPolicy_def slotsOK_def chanOK_def chanState_def watchersOf_def refs_def core_sel)

lemma storeInv_core: "core s' = core s \<Longrightarrow> storeInv lim s' = storeInv lim s"
  by (metis storeInv_of_core)

lemma storeInv_new: "storeInv lim (newMemoryState b)"
  by (simp add: storeInv_def slotPolicy_def slotsOK_def newMemoryState_def chanOK_def watchersOf_def chanState_def
      doneOK_def refs_def)

lemma doneOK_starts:
  assumes "doneOK X E D" "starts now E E'"
  shows "doneOK X E' D"
  unfolding doneOK_def
proof (intro allI impI)
  fix x
  assume x: "x \<notin> X"
  consider "fmlookup E' x = fmlookup E x"
    | e where "fmlookup E x = Some e" "es_Status (snap e) = ExecutionStatusQueued"
      "fmlookup E' x = Some (e\<lparr>snap := (snap e)\<lparr>es_Status := ExecutionStatusRunning, es_UpdatedAt := now\<rparr>\<rparr>)"
    using spec [OF assms(2) [unfolded starts_def], of x] by auto
  then show "case fmlookup E' x of None \<Rightarrow> fmlookup D x \<noteq> Some True
     | Some e \<Rightarrow> fmlookup D x = Some (closed e) \<and> closed e = isTerminalStatus (es_Status (snap e))"
    using assms(1) x unfolding doneOK_def by cases (auto simp: isTerminalStatus_def)
qed

lemma live_starts: "starts now E E' \<Longrightarrow> live E' x = live E x"
  by (drule spec [OF iffD1 [OF starts_def], of _ _ _ x]) (auto simp: live_def isTerminalStatus_def)

lemma updEntries_chanOK: "chanOK (updEntries f eid s) = chanOK s"
  by (auto simp: updEntries_def intro: chanOK_cong split: option.split)

lemma completePromotionLocked_chanOK: "chanOK s \<Longrightarrow> chanOK (completePromotionLocked now eid s)"
proof -
  assume ok: "chanOK s"
  have "chanOK (setExecSnap eid e sn s)" for e sn
    using ok by (rule chanOK_cong) (simp_all add: setExecSnap_def)
  then have "chanOK (publishLocked ev (setExecSnap eid e sn s))" for ev e sn by (rule publishLocked_chanOK)
  then show ?thesis
    using ok by (simp add: completePromotionLocked_def Let_def updEntries_chanOK split: option.split)
qed

lemma promoteHead_chanOK: "chanOK s \<Longrightarrow> chanOK (snd (promoteHead now slot s))"
  by (simp add: promoteHead_def Let_def, rule completePromotionLocked_chanOK, erule chanOK_cong)
    (simp_all add: putSlot_def)

lemma promoteLocked_chanOK: "chanOK s \<Longrightarrow> chanOK (snd (promoteLocked now slot s))"
proof (induction now slot s rule: promoteLocked.induct)
  case (1 now slot s)
  obtain slot1 s1 where ph: "promoteHead now slot s = (slot1, s1)" by fastforce
  then show ?case
    using "1.IH" [OF _ ph [symmetric]] "1.prems" promoteHead_chanOK [OF "1.prems", of now slot]
    by (simp add: promoteLocked.simps [of now slot s])
qed

lemma refill_chanOK: "chanOK s \<Longrightarrow> chanOK (refill now slot s)"
proof -
  assume ok: "chanOK s"
  obtain slot1 s1 where p: "promoteLocked now slot s = (slot1, s1)" by fastforce
  have "chanOK s1" using promoteLocked_chanOK [OF ok, of now slot] p by simp
  then show ?thesis using p by (auto simp: refill_def pruneSlot_def intro: chanOK_cong)
qed

lemma releaseWorkflowSlotLocked_chanOK: "chanOK s \<Longrightarrow> chanOK (releaseWorkflowSlotLocked now eid s)"
proof -
  assume ok: "chanOK s"
  have "chanOK ((putSlot sl s)\<lparr>slotHolders := h\<rparr>)" "chanOK (dropHeldOutboxLocked eid ((putSlot sl s)\<lparr>queued := q\<rparr>))" for sl h q
    by (rule chanOK_cong [OF ok]; simp add: putSlot_def dropHeldOutboxLocked_def)+
  then show ?thesis
    using ok refill_chanOK by (simp add: releaseWorkflowSlotLocked_refill Let_def split: option.split)
qed

lemma releaseWorkflowSlotLocked_inv:
  assumes "slotPolicy lim s" "\<And>k. 0 < fst (lim k)" "chanOK s" "doneOK X (executions s) (doneCh s)"
    and "\<forall>x\<in>refs s - {eid}. live (executions s) x"
    and s': "s' = releaseWorkflowSlotLocked now eid s"
  shows "slotPolicy lim s'" "chanOK s'" "doneOK X (executions s') (doneCh s')"
    "\<forall>x\<in>refs s'. live (executions s') x" "eid \<notin> refs s'"
proof -
  note st = releaseWorkflowSlotLocked_starts [of now s eid]
  show "slotPolicy lim s'" unfolding s' by (rule releaseWorkflowSlotLocked_policy) fact+
  have refs: "refs s' = refs s - {eid}"
    using releaseWorkflowSlotLocked_refs assms(1) by (simp add: s' slotPolicy_def)
  then show "eid \<notin> refs s'" by simp
  show "\<forall>x\<in>refs s'. live (executions s') x" using assms(5) live_starts [OF st] refs by (simp add: s')
  show "doneOK X (executions s') (doneCh s')" using doneOK_starts [OF assms(4) st] by (simp add: s')
  show "chanOK s'" using releaseWorkflowSlotLocked_chanOK [OF assms(3)] by (simp add: s')
qed

lemma release_storeInv:
  assumes "storeInv lim s" "\<And>k. 0 < fst (lim k)"
  shows "storeInv lim (releaseWorkflowSlotLocked now eid s)" "eid \<notin> refs (releaseWorkflowSlotLocked now eid s)"
proof -
  have p: "slotPolicy lim s" "chanOK s" "doneOK {} (executions s) (doneCh s)"
      "\<forall>x\<in>refs s - {eid}. live (executions s) x"
    using assms(1) by (simp_all add: storeInv_def)
  note r = releaseWorkflowSlotLocked_inv [OF p(1) assms(2) p(2,3,4) refl, of now]
  show "storeInv lim (releaseWorkflowSlotLocked now eid s)" using r(1-4) by (simp add: storeInv_def)
  show "eid \<notin> refs (releaseWorkflowSlotLocked now eid s)" by (rule r(5))
qed

lemma doneOK_upd:
  assumes "doneOK {eid} E D" "closed e = isTerminalStatus (es_Status (snap e))"
  shows "doneOK {} (fmupd eid e E) (fmupd eid (closed e) D)"
  unfolding doneOK_def
proof (intro allI impI)
  fix x
  show "case fmlookup (fmupd eid e E) x of None \<Rightarrow> fmlookup (fmupd eid (closed e) D) x \<noteq> Some True
      | Some e' \<Rightarrow> fmlookup (fmupd eid (closed e) D) x = Some (closed e') \<and>
          closed e' = isTerminalStatus (es_Status (snap e'))"
    using assms spec [OF assms(1) [unfolded doneOK_def], of x]
    by (cases "x = eid"; cases "fmlookup E x") simp_all
qed

text \<open>The core of an ending: the status is set to a terminal one, the slot
  released, the done channel closed.\<close>

lemma ending_inv:
  assumes inv: "storeInv lim s" and lim: "\<And>k. 0 < fst (lim k)"
    and e: "fmlookup (executions s) eid = Some e" "\<not> isTerminalStatus (es_Status (snap e))"
    and sn: "isTerminalStatus (es_Status sn)"
    and s1: "core s1 = core (setExecSnap eid e sn s)"
  shows "storeInv lim (closeEntry eid (releaseWorkflowSlotLocked now eid s1))"
proof -
  define e1 where "e1 = e\<lparr>snap := sn\<rparr>"
  define s' where "s' = releaseWorkflowSlotLocked now eid s1"
  have f: "executions s1 = fmupd eid e1 (executions s)" "workflowSlots s1 = workflowSlots s"
      "slotHolders s1 = slotHolders s" "queued s1 = queued s" "doneCh s1 = doneCh s"
      "eventWatchers s1 = eventWatchers s" "chans s1 = chans s" "nextChan s1 = nextChan s" "panicked s1 = panicked s"
    using arg_cong [OF s1, of executions] arg_cong [OF s1, of workflowSlots] arg_cong [OF s1, of slotHolders]
      arg_cong [OF s1, of queued] arg_cong [OF s1, of doneCh] arg_cong [OF s1, of eventWatchers]
      arg_cong [OF s1, of chans] arg_cong [OF s1, of nextChan] arg_cong [OF s1, of panicked]
    by (simp_all add: core_sel setExecSnap_def e1_def)
  have dn: "\<not> closed e" "fmlookup (doneCh s) eid = Some False"
    using inv e by (auto simp: storeInv_def doneOK_def split: option.splits dest!: spec [of _ eid])
  have a: "slotPolicy lim s1" "chanOK s1"
    using inv f by (simp_all add: storeInv_def slotPolicy_def slotsOK_def chanOK_def chanState_def watchersOf_def)
  have b: "doneOK {eid} (executions s1) (doneCh s1)"
    using inv by (simp add: f storeInv_def doneOK_def)
  have c: "\<forall>x\<in>refs s1 - {eid}. live (executions s1) x"
    using inv by (auto simp: f storeInv_def refs_def live_def)
  note r = releaseWorkflowSlotLocked_inv [OF a(1) lim a(2) b c s'_def]
  have "es_Status sn \<noteq> ExecutionStatusQueued" using sn by (auto simp: isTerminalStatus_def)
  then have e': "fmlookup (executions s') eid = Some e1"
    using starts_same [OF releaseWorkflowSlotLocked_starts [of now s1 eid], of eid e1] by (simp add: f s'_def e1_def)
  have "closeEntry eid s' = s'\<lparr>executions := fmupd eid (e1\<lparr>closed := True\<rparr>) (executions s'),
      doneCh := fmupd eid True (doneCh s')\<rparr>"
    using e' dn by (simp add: closeEntry_def closeDone_def e1_def s'_def f)
  moreover have "storeInv lim (s'\<lparr>executions := fmupd eid (e1\<lparr>closed := True\<rparr>) (executions s'),
      doneCh := fmupd eid True (doneCh s')\<rparr>)" (is "storeInv lim ?s")
    unfolding storeInv_def
  proof (intro conjI)
    show "slotPolicy lim ?s" using r(1) by (simp add: slotPolicy_def slotsOK_def)
    show "chanOK ?s" by (rule chanOK_cong [OF r(2)]) simp_all
    show "doneOK {} (executions ?s) (doneCh ?s)" using doneOK_upd [OF r(3), of "e1\<lparr>closed := True\<rparr>"] sn by (simp add: e1_def)
    have "refs ?s = refs s'" by (simp add: refs_def)
    then show "\<forall>x\<in>refs ?s. live (executions ?s) x" using r(4,5) by (auto simp: live_def)
  qed
  ultimately show ?thesis by (simp add: s'_def)
qed

lemma core_setExecSnap_cong: "core s1 = core s \<Longrightarrow> core (setExecSnap eid e sn s1) = core (setExecSnap eid e sn s)"
proof -
  assume c: "core s1 = core s"
  note f = arg_cong [OF c]
  show ?thesis
    using f [of executions] f [of workflowSlots] f [of slotHolders] f [of queued] f [of doneCh]
      f [of eventWatchers] f [of chans] f [of nextChan] f [of panicked]
    by (simp add: core_def setExecSnap_def)
qed

lemma core_updates [simp]:
  "core (s\<lparr>cancelingSince := a\<rparr>) = core s" "core (s\<lparr>deadlines := b\<rparr>) = core s"
  "core (s\<lparr>mirrorLocks := c\<rparr>) = core s" "core (s\<lparr>mirrorSkip := d\<rparr>) = core s"
  "core (s\<lparr>mirrorCreatePending := f\<rparr>) = core s" "core (s\<lparr>mirrorConflict := g\<rparr>) = core s"
  "core (s\<lparr>rolledBack := h\<rparr>) = core s" "core (s\<lparr>outbox := i\<rparr>) = core s"
  by (simp_all add: core_def)

text \<open>A status change between two statuses that are not terminal.\<close>

lemma setExecSnap_inv:
  assumes "storeInv lim s" "fmlookup (executions s) eid = Some e" "\<not> isTerminalStatus (es_Status (snap e))"
    "\<not> isTerminalStatus (es_Status sn)"
  shows "storeInv lim (setExecSnap eid e sn s)"
  using assms by (auto simp: storeInv_def slotPolicy_def slotsOK_def chanOK_def chanState_def watchersOf_def
      setExecSnap_def doneOK_def refs_def live_def split: option.splits)

lemma publishLocked_inv: "storeInv lim s \<Longrightarrow> storeInv lim (publishLocked ev s)"
  using publishLocked_chanOK [of s ev]
  by (simp add: storeInv_def slotPolicy_def slotsOK_def refs_def)

lemma updateExecutionStatusLocked_inv:
  assumes "storeInv lim s" "\<And>k. 0 < fst (lim k)"
  shows "storeInv lim (snd (updateExecutionStatusLocked now eid status errMsg s))"
proof (cases "fmlookup (executions s) eid")
  case (Some e)
  let ?cur = "es_Status (snap e)"
  define s1 where "s1 = (if status = ExecutionStatusCanceling \<and> \<not> hasKey (cancelingSince s) eid
                       then s\<lparr>cancelingSince := fmupd eid now (cancelingSince s)\<rparr> else s)"
  define sn where "sn = (snap e)\<lparr>es_Status := status, es_UpdatedAt := now,
                               es_Error := (if errMsg \<noteq> '''' then errMsg else es_Error (snap e))\<rparr>"
  define s2 where "s2 = setExecSnap eid e sn s1"
  define s3 where "s3 = (if isTerminalStatus status
                       then closeEntry eid (releaseWorkflowSlotLocked now eid
                              (withdrawDeadlineLocked eid status
                                (s2\<lparr>cancelingSince := fmdrop eid (cancelingSince s2)\<rparr>)))
                       else s2)"
  have c2: "core s2 = core (setExecSnap eid e sn s)"
    unfolding s2_def by (rule core_setExecSnap_cong) (simp add: s1_def)
  show ?thesis
  proof (cases "isTerminalStatus ?cur \<or> ?cur = ExecutionStatusCanceling \<and> status \<noteq> ExecutionStatusCanceled")
    case False
    have "storeInv lim s3"
    proof (cases "isTerminalStatus status")
      case True
      then show ?thesis
        unfolding s3_def using ending_inv [OF assms Some, of sn] False c2
        by (simp add: sn_def withdrawDeadlineLocked_def)
    next
      case nt: False
      then show ?thesis
        using setExecSnap_inv [OF assms(1) Some, of sn] False storeInv_core [OF c2]
        by (simp add: s3_def sn_def)
    qed
    moreover have "snd (updateExecutionStatusLocked now eid status errMsg s) =
        publishLocked (statusEvent eid status errMsg) s3"
      unfolding s3_def s2_def s1_def sn_def using False Some
      by (auto simp: updateExecutionStatusLocked_def Let_def)
    ultimately show ?thesis by (simp add: publishLocked_inv)
  qed (use Some assms in \<open>auto simp: updateExecutionStatusLocked_def Let_def\<close>)
qed (use assms in \<open>simp add: updateExecutionStatusLocked_def\<close>)

lemma finishExecutionLocked_inv:
  assumes "storeInv lim s" "\<And>k. 0 < fst (lim k)" "isTerminalStatus status"
  shows "storeInv lim (finishExecutionLocked now eid status errMsg s)"
proof (cases "fmlookup (executions s) eid")
  case (Some e)
  show ?thesis
  proof (cases "isTerminalStatus (es_Status (snap e))")
    case False
    define sn where "sn = (snap e)\<lparr>es_Status := status, es_UpdatedAt := now, es_Error :=
      (if status = ExecutionStatusFailed \<and> errMsg \<noteq> '''' then errMsg else es_Error (snap e))\<rparr>"
    have "isTerminalStatus (es_Status sn)" using assms(3) by (simp add: sn_def)
    then have "storeInv lim (closeEntry eid (releaseWorkflowSlotLocked now eid
        (withdrawDeadlineLocked eid status (setExecSnap eid e sn s))))"
      by (rule ending_inv [OF assms(1,2) Some False]) (simp add: withdrawDeadlineLocked_def)
    then show ?thesis
      using False Some by (simp add: finishExecutionLocked_def Let_def isTerminalStatus_def sn_def publishLocked_inv)
  qed (use Some assms in \<open>simp add: finishExecutionLocked_def isTerminalStatus_def\<close>)
qed (use assms in \<open>simp add: finishExecutionLocked_def\<close>)

section \<open>What the remaining operations keep\<close>

lemma mirror_core [simp]:
  "core (noteMirrorModeLocked hint sn s) = core s"
  "core (snd (markMirrorCreatePendingLocked eid s)) = core s"
  "core (clearMirrorCreatePending eid s) = core s"
  "core (pruneMirrorStateLocked eid s) = core s"
  "core (pruneTransientSkipAfterTerminal eid s) = core s"
  "core (snd (beginMirrorMode eid b s)) = core s"
  by (simp_all add: noteMirrorModeLocked_def markMirrorCreatePendingLocked_def clearMirrorCreatePending_def
      pruneMirrorStateLocked_def pruneTransientSkipAfterTerminal_def beginMirrorMode_def)

lemma finishMirror_core [simp]: "core (finishMirror eid s) = core s"
  by (simp add: finishMirror_def Let_def)

lemma mirrorExecutionStatus_core [simp]: "core (mirrorExecutionStatus eid s) = core s"
  using mirror_core(6) [of eid False s]
  by (auto simp: mirrorExecutionStatus_def split: prod.split bool.split simp del: mirror_core(6))

lemma mirrorCreateExecution_core [simp]: "core (fst (mirrorCreateExecution ins eid s)) = core s"
  using mirror_core(6) [of eid True s]
  by (auto simp: mirrorCreateExecution_def split: prod.split bool.split InsertOutcome.split simp del: mirror_core(6))

lemma updEntries_core [simp]: "core (updEntries f eid s) = core s"
  by (simp add: updEntries_def split: option.split)

lemma dropHeldOutboxLocked_core [simp]: "core (dropHeldOutboxLocked eid s) = core s"
  by (simp add: dropHeldOutboxLocked_def)

lemma releaseInitialMirrorHold_core [simp]: "core (releaseInitialMirrorHold eid s) = core s"
  by (simp add: releaseInitialMirrorHold_def Let_def split: option.split)

lemma fold_mirrorExecutionStatus_core: "core (fold mirrorExecutionStatus xs s) = core s"
  by (rule fold_same) simp

lemma expireOne_fst:
  "fst (expireOne now x st) = snd (updateExecutionStatusLocked now x ExecutionStatusTimeout ConcurrencyQueueTimeoutError (fst st))"
  by (simp add: expireOne_def case_prod_beta)

lemma ExpireQueuedExecutions_fst:
  "core (fst (ExpireQueuedExecutions now limit order s)) =
   core (fst (fold (expireOne now) (clip limit (filter (queueExpired now s) order)) (s, [])))"
  by (simp add: ExpireQueuedExecutions_def Let_def case_prod_beta fold_mirrorExecutionStatus_core)

lemma ExpireQueuedExecutions_inv:
  assumes "storeInv lim s" "\<And>k. 0 < fst (lim k)"
  shows "storeInv lim (fst (ExpireQueuedExecutions now limit order s))"
proof -
  have "storeInv lim (fst (fold (expireOne now) xs st))" if "storeInv lim (fst st)" for xs st
    using that
    by (induction xs arbitrary: st) (simp_all add: expireOne_fst updateExecutionStatusLocked_inv [OF _ assms(2)])
  from this [of "(s, [])"] show ?thesis
    unfolding storeInv_core [OF ExpireQueuedExecutions_fst] using assms(1) by simp
qed

lemma PauseExecution_inv:
  assumes "storeInv lim s"
  shows "storeInv lim (fst (PauseExecution now eid s))"
proof (cases "fmlookup (executions s) eid")
  case (Some e)
  then show ?thesis
    using assms setExecSnap_inv [OF assms Some, of "(snap e)\<lparr>es_Status := ExecutionStatusPaused, es_UpdatedAt := now\<rparr>"]
    by (simp add: PauseExecution_def storeInv_core [OF mirrorExecutionStatus_core] isTerminalStatus_def
        split: ExecutionStatus.split)
qed (use assms in \<open>simp add: PauseExecution_def\<close>)

lemma ResumeExecution_inv:
  assumes "storeInv lim s"
  shows "storeInv lim (fst (ResumeExecution now eid s))"
proof (cases "fmlookup (executions s) eid")
  case (Some e)
  then show ?thesis
    using assms setExecSnap_inv [OF assms Some, of "(snap e)\<lparr>es_Status := ExecutionStatusRunning, es_UpdatedAt := now\<rparr>"]
    by (simp add: ResumeExecution_def storeInv_core [OF mirrorExecutionStatus_core] isTerminalStatus_def)
qed (use assms in \<open>simp add: ResumeExecution_def\<close>)

text \<open>Creation of an execution that the store does not have.\<close>

lemma doneOK_add:
  assumes "doneOK {} E D" "fmlookup E eid = None" "\<not> isTerminalStatus (es_Status sn)"
  shows "doneOK {} (fmupd eid \<lparr>snap = sn, closed = False\<rparr> E) (if hasKey D eid then D else fmupd eid False D)"
proof -
  have "fmlookup D eid \<noteq> Some True"
    using spec [OF assms(1) [unfolded doneOK_def], of eid] assms(2) by simp
  then have "(if hasKey D eid then D else fmupd eid False D) = fmupd eid False D"
    by (auto simp: hasKey_def intro!: fmap_ext)
  moreover have "doneOK {eid} E D" using assms(1) by (simp add: doneOK_def)
  ultimately show ?thesis using doneOK_upd [of eid E D "\<lparr>snap = sn, closed = False\<rparr>"] assms(3) by simp
qed

lemma createExecutionLocked_core:
  "core (createExecutionLocked now e s) = core (s\<lparr>executions := fmupd (es_ID e) \<lparr>snap = stampCreated now e, closed = False\<rparr> (executions s),
     doneCh := (if hasKey (doneCh s) (es_ID e) then doneCh s else fmupd (es_ID e) False (doneCh s))\<rparr>)"
  by (simp add: createExecutionLocked_def Let_def core_def split: option.split)

lemma stampCreated_Status [simp]: "es_Status (stampCreated now e) = es_Status e" "es_ID (stampCreated now e) = es_ID e"
  by (simp_all add: stampCreated_def Let_def)

lemma createExecutionLocked_inv:
  assumes sp: "slotPolicy lim s" and ch: "chanOK s" and dn: "doneOK {} (executions s) (doneCh s)"
    and lv: "\<forall>x\<in>refs s - {es_ID e}. live (executions s) x"
    and fresh: "fmlookup (executions s) (es_ID e) = None" "\<not> isTerminalStatus (es_Status e)"
  shows "storeInv lim (createExecutionLocked now e s)"
proof -
  let ?s = "s\<lparr>executions := fmupd (es_ID e) \<lparr>snap = stampCreated now e, closed = False\<rparr> (executions s),
     doneCh := (if hasKey (doneCh s) (es_ID e) then doneCh s else fmupd (es_ID e) False (doneCh s))\<rparr>"
  have "storeInv lim ?s"
    unfolding storeInv_def
  proof (intro conjI)
    show "slotPolicy lim ?s" using sp by (simp add: slotPolicy_def slotsOK_def)
    show "chanOK ?s" by (rule chanOK_cong [OF ch]) simp_all
    show "doneOK {} (executions ?s) (doneCh ?s)"
      using doneOK_add [OF dn fresh(1), of "stampCreated now e"] fresh(2) by simp
    have "refs ?s = refs s" by (simp add: refs_def)
    then show "\<forall>x\<in>refs ?s. live (executions ?s) x" using lv fresh(2) by (auto simp: live_def)
  qed
  then show ?thesis using storeInv_core [OF createExecutionLocked_core] by simp
qed

lemma writeIntent_core [simp]: "core (writeIntent now eid at entry s) = core s"
  by (simp add: writeIntent_def putOutboxEntryLocked_def Let_def core_def)

lemma writeInitialIntentsLocked_core [simp]: "core (writeInitialIntentsLocked now eid entries at s) = core s"
  unfolding writeInitialIntentsLocked_def by (rule fold_same) simp

text \<open>A rollback closes the channels of the execution and forgets it.\<close>

lemma dropDone_ok:
  assumes "doneOK {} E (doneCh s)" "entry = fmlookup E eid"
  shows "dropDone eid entry s = s\<lparr>doneCh := fmdrop eid (doneCh s)\<rparr>"
proof (cases "entry = None \<or> \<not> closed (the entry)")
  case True
  have "fmlookup (doneCh s) eid \<noteq> Some True"
    using spec [OF assms(1) [unfolded doneOK_def], of eid] assms(2) True by (cases "fmlookup E eid") auto
  then consider "fmlookup (doneCh s) eid = None" | "fmlookup (doneCh s) eid = Some False"
    by (cases "fmlookup (doneCh s) eid") auto
  moreover have "fmdrop eid (fmupd eid True (doneCh s)) = fmdrop eid (doneCh s)" by (rule fmap_ext) simp
  ultimately show ?thesis
    unfolding dropDone_def Let_def if_P [OF True] by cases (simp_all add: closeDone_def)
qed (auto simp: dropDone_def)

lemma doneOK_drop:
  assumes "doneOK {} E D"
  shows "doneOK {} (fmdrop eid E) (fmdrop eid D)"
  unfolding doneOK_def
proof (intro allI impI)
  fix x
  show "case fmlookup (fmdrop eid E) x of None \<Rightarrow> fmlookup (fmdrop eid D) x \<noteq> Some True
      | Some e' \<Rightarrow> fmlookup (fmdrop eid D) x = Some (closed e') \<and>
          closed e' = isTerminalStatus (es_Status (snap e'))"
    using spec [OF assms [unfolded doneOK_def], of x] by (cases "x = eid"; cases "fmlookup E x") simp_all
qed

lemma fold_closeChan_watchers: "eventWatchers (fold closeChan ws s) = eventWatchers s"
  by (rule fold_same) simp

lemma rollbackCreatedExecution_core:
  assumes "storeInv lim s0" "\<And>k. 0 < fst (lim k)" "s1 = releaseWorkflowSlotLocked now eid s0"
  defines "s2 \<equiv> s1\<lparr>executions := fmdrop eid (executions s1), doneCh := fmdrop eid (doneCh s1)\<rparr>"
  shows "core (rollbackCreatedExecution now eid s0) =
     core ((fold closeChan (watchersOf s2 eid) s2)\<lparr>eventWatchers := fmdrop eid (eventWatchers s2)\<rparr>)"
proof -
  have "doneOK {} (executions s1) (doneCh s1)"
    using release_storeInv(1) [OF assms(1,2), where now = now and eid = eid] unfolding assms(3) by (simp add: storeInv_def)
  then have "dropDone eid (fmlookup (executions s1) eid) (s1\<lparr>executions := fmdrop eid (executions s1)\<rparr>) = s2"
    using dropDone_ok [of "executions s1" "s1\<lparr>executions := fmdrop eid (executions s1)\<rparr>"] by (simp add: s2_def)
  then show ?thesis
    by (simp add: rollbackCreatedExecution_def Let_def assms(3) [symmetric] watchersOf_def core_def fold_closeChan_watchers)
qed

lemma rollbackCreatedExecution_inv:
  assumes inv: "storeInv lim s0" and lim: "\<And>k. 0 < fst (lim k)"
  shows "storeInv lim (rollbackCreatedExecution now eid s0)"
proof -
  define s1 where "s1 = releaseWorkflowSlotLocked now eid s0"
  define s2 where "s2 = s1\<lparr>executions := fmdrop eid (executions s1), doneCh := fmdrop eid (doneCh s1)\<rparr>"
  define s3 where "s3 = fold closeChan (watchersOf s2 eid) s2"
  have r: "slotPolicy lim s1" "chanOK s1" "doneOK {} (executions s1) (doneCh s1)"
      "\<forall>x\<in>refs s1. live (executions s1) x" "eid \<notin> refs s1"
    using release_storeInv [OF inv lim, where now = now and eid = eid] by (simp_all add: storeInv_def s1_def)
  have c2: "chanOK s2" by (rule chanOK_cong [OF r(2)]) (simp_all add: s2_def)
  have ev: "eraseEvents s3 = eraseEvents s2" unfolding s3_def by (rule fold_same) (rule closeChan_frame)
  note f = eraseEvents_D [OF ev]
  let ?s = "s3\<lparr>eventWatchers := fmdrop eid (eventWatchers s2)\<rparr>"
  have "storeInv lim ?s"
    unfolding storeInv_def
  proof (intro conjI)
    show "slotPolicy lim ?s" using r(1) f by (simp add: slotPolicy_def slotsOK_def s2_def)
    show "chanOK ?s" using chanOK_closeAll [OF c2, of eid] by (simp add: s3_def)
    show "doneOK {} (executions ?s) (doneCh ?s)" using doneOK_drop [OF r(3)] f by (simp add: s2_def)
    have "refs ?s = refs s1" using f by (simp add: refs_def s2_def)
    then show "\<forall>x\<in>refs ?s. live (executions ?s) x" using r(4,5) f by (auto simp: live_def s2_def)
  qed
  then show ?thesis
    using storeInv_core [OF rollbackCreatedExecution_core [OF inv lim s1_def]] by (simp add: s2_def s3_def)
qed

lemma settleCreate_inv:
  assumes "storeInv lim (fst r)" "\<And>k. 0 < fst (lim k)"
  shows "storeInv lim (fst (settleCreate now hold eid r))"
proof -
  obtain s err where r: "r = (s, err)" by fastforce
  have "storeInv lim (pruneTransientSkipAfterTerminal eid (if hold then releaseInitialMirrorHold eid s else s))"
    using assms(1) r storeInv_core [of "pruneTransientSkipAfterTerminal eid (if hold then releaseInitialMirrorHold eid s else s)" s]
    by simp
  then show ?thesis
    using rollbackCreatedExecution_inv [OF assms, of now eid] r
    by (cases hold) (simp_all add: settleCreate_def split: option.split)
qed

lemma chargeOrParkLocked_effect:
  assumes "slotsOK s" "chargeOrParkLocked now eid adm s = (s', r)"
  shows "executions s' = executions s" "doneCh s' = doneCh s" "eventWatchers s' = eventWatchers s" "chans s' = chans s"
    "nextChan s' = nextChan s" "panicked s' = panicked s" "outbox s' = outbox s"
    "refs s' = (if isOk r then insert eid (refs s) else refs s)"
proof -
  have "executions s' = executions s \<and> doneCh s' = doneCh s \<and> eventWatchers s' = eventWatchers s \<and> chans s' = chans s
    \<and> nextChan s' = nextChan s \<and> panicked s' = panicked s \<and> outbox s' = outbox s
    \<and> refs s' = (if isOk r then insert eid (refs s) else refs s)"
    using assms(1)
  proof (cases rule: chargeOrParkLocked_cases [where now = now and eid = eid and adm = adm])
    case charged
    with assms(2) show ?thesis by (auto simp: chargeSlotLocked_def putSlot_def admissionState_def refs_def split: if_splits)
  next
    case (parked w)
    with assms(2) show ?thesis by (auto simp: putSlot_def admissionState_def refs_def split: if_splits)
  next
    case (refused e)
    with assms(2) show ?thesis by (auto simp: admissionState_def refs_def split: if_splits)
  qed
  then show "executions s' = executions s" "doneCh s' = doneCh s" "eventWatchers s' = eventWatchers s" "chans s' = chans s"
    "nextChan s' = nextChan s" "panicked s' = panicked s" "outbox s' = outbox s"
    "refs s' = (if isOk r then insert eid (refs s) else refs s)" by simp_all
qed

text \<open>A fresh identifier: neither an execution nor a reference of a slot.\<close>

lemma storeInv_fresh:
  assumes "storeInv lim s" "fmlookup (executions s) x = None"
  shows "fmlookup (slotHolders s) x = None" "fmlookup (queued s) x = None" "x \<notin> refs s"
proof -
  show "x \<notin> refs s" using assms by (auto simp: storeInv_def live_def)
  then show "fmlookup (slotHolders s) x = None" "fmlookup (queued s) x = None" by (simp_all add: refs_def)
qed

lemma createLocked_inv:
  assumes "storeInv lim s" "fmlookup (executions s) (es_ID e) = None" "\<not> isTerminalStatus (es_Status e)"
    and "core s1 = core s"
  shows "storeInv lim (createExecutionLocked now e s1)"
proof -
  have "storeInv lim s1" using assms(1) storeInv_core [OF assms(4)] by simp
  moreover have "fmlookup (executions s1) (es_ID e) = None"
    using assms(2) arg_cong [OF assms(4), of executions] by (simp add: core_sel)
  ultimately show ?thesis using createExecutionLocked_inv [of lim s1 e now] assms(3) by (simp add: storeInv_def)
qed

lemma CreateExecution_inv:
  assumes "storeInv lim s" "\<And>k. 0 < fst (lim k)" "fmlookup (executions s) (es_ID e) = None" "\<not> isTerminalStatus (es_Status e)"
  shows "storeInv lim (fst (CreateExecution now hint ins e s))"
  unfolding CreateExecution_def
  by (rule settleCreate_inv [OF _ assms(2)], subst storeInv_core [OF mirrorCreateExecution_core], unfold createLocked_def)
    (rule createLocked_inv [OF assms(1,3,4)], simp)

lemma CreateExecutionWithOutbox_inv:
  assumes "storeInv lim s" "\<And>k. 0 < fst (lim k)" "fmlookup (executions s) (es_ID e) = None" "\<not> isTerminalStatus (es_Status e)"
  shows "storeInv lim (fst (CreateExecutionWithOutbox now hint ins e entries s))"
proof -
  obtain hold s1 where m: "markMirrorCreatePendingLocked (es_ID e) (noteMirrorModeLocked hint e s) = (hold, s1)"
    by fastforce
  have "core s1 = core s" using mirror_core(2) [of "es_ID e" "noteMirrorModeLocked hint e s"] m by simp
  then have "storeInv lim (createExecutionLocked now e s1)" by (rule createLocked_inv [OF assms(1,3,4)])
  then have "storeInv lim (fst (mirrorCreateExecution ins (es_ID e) (writeInitialIntentsLocked now (es_ID e) entries at
      (createExecutionLocked now e s1))))" for at
    using storeInv_core [OF mirrorCreateExecution_core] storeInv_core [OF writeInitialIntentsLocked_core] by simp
  then show ?thesis
    using settleCreate_inv [OF _ assms(2)] by (simp add: CreateExecutionWithOutbox_def createWithOutboxLocked_def m)
qed

text \<open>The critical section of an admission, refused or not.\<close>

lemma createWithConcurrencyLocked_inv:
  assumes inv: "storeInv lim s" and lim: "\<And>k. 0 < fst (lim k)" and fresh: "fmlookup (executions s) (es_ID e) = None"
    and adm: "withinLimits lim adm"
  shows "storeInv lim (fst (createWithConcurrencyLocked now hint e entries adm s))"
proof -
  obtain s0 r where c: "chargeOrParkLocked now (es_ID e) adm s = (s0, r)" by fastforce
  have ok: "slotsOK s" using inv by (simp add: storeInv_def slotPolicy_def)
  note eff = chargeOrParkLocked_effect [OF ok c]
  have sp: "slotPolicy lim s0"
    using chargeOrParkLocked_policy [of lim s, OF _ storeInv_fresh(1,2) [OF inv fresh] adm lim, of now] inv c
    by (simp add: storeInv_def)
  have ch: "chanOK s0" by (rule chanOK_cong [of s]) (use inv eff in \<open>simp_all add: storeInv_def\<close>)
  have dn: "doneOK {} (executions s0) (doneCh s0)" using inv eff by (simp add: storeInv_def)
  have lv: "\<forall>x\<in>refs s0 - {es_ID e}. live (executions s0) x" using inv eff by (auto simp: storeInv_def)
  show ?thesis
  proof (cases r)
    case (Inl err)
    then show ?thesis using inv sp ch dn eff c
      by (simp add: createWithConcurrencyLocked_def storeInv_def)
  next
    case (Inr pending)
    define e1 where "e1 = e\<lparr>es_Status := (if pending then ExecutionStatusQueued else ExecutionStatusRunning)\<rparr>"
    obtain hold s1 where m: "markMirrorCreatePendingLocked (es_ID e) (noteMirrorModeLocked hint e1 s0) = (hold, s1)"
      by fastforce
    have cs: "core s1 = core s0" using mirror_core(2) [of "es_ID e" "noteMirrorModeLocked hint e1 s0"] m by simp
    have k: "executions s1 = executions s0" "refs s1 = refs s0" "doneCh s1 = doneCh s0"
      using arg_cong [OF cs, of executions] arg_cong [OF cs, of slotHolders] arg_cong [OF cs, of queued]
        arg_cong [OF cs, of doneCh] by (simp_all add: core_sel refs_def)
    have "slotPolicy lim s1" "chanOK s1"
      using sp ch cs by (metis core_sel slotPolicy_def slotsOK_def, metis ch cs core_sel chanOK_cong)
    then have "storeInv lim (createExecutionLocked now e1 s1)"
      using dn lv fresh eff by (intro createExecutionLocked_inv) (simp_all add: k e1_def isTerminalStatus_def)
    then have "storeInv lim (writeInitialIntentsLocked now (es_ID e) entries at (createExecutionLocked now e1 s1))" for at
      using storeInv_core [OF writeInitialIntentsLocked_core] by simp
    moreover have "fst (createWithConcurrencyLocked now hint e entries adm s) =
        writeInitialIntentsLocked now (es_ID e) entries (if pending \<or> hold then queuedOutboxHold else zeroTime)
          (createExecutionLocked now e1 s1)"
      using c m Inr by (simp add: createWithConcurrencyLocked_def e1_def [symmetric] Let_def)
    ultimately show ?thesis by simp
  qed
qed

lemma CreateExecutionWithConcurrency_inv:
  assumes "storeInv lim s" "\<And>k. 0 < fst (lim k)" "fmlookup (executions s) (es_ID e) = None"
    and "withinLimits lim adm"
  shows "storeInv lim (fst (CreateExecutionWithConcurrency now hint ins e entries adm s))"
proof -
  obtain s1 r where c: "createWithConcurrencyLocked now hint e entries adm s = (s1, r)" by fastforce
  have i: "storeInv lim s1" using createWithConcurrencyLocked_inv [OF assms, of now hint entries] c by simp
  then have "storeInv lim (fst (settleCreate now hold (es_ID e) (mirrorCreateExecution ins (es_ID e) s1)))" for hold
    using settleCreate_inv [OF _ assms(2)] storeInv_core [OF mirrorCreateExecution_core] by simp
  then show ?thesis
    using i c by (auto simp: CreateExecutionWithConcurrency_def case_prod_beta split: sum.split option.split)
qed

end
