(* ===== verification/LifecycleProps.thy ===== *)
theory LifecycleProps
  imports ExecutionLifecycle
begin

text \<open>The contract of the lifecycle operations of the local store
  (\<open>memory_state.go\<close>, \<open>atomic_state.go\<close>, \<open>execution_pause.go\<close>,
  \<open>store_mirror.go\<close>): which status writes are applied, what a pause holds
  back, what a refused admission and a rollback leave behind.\<close>

section \<open>Status writes\<close>

text \<open>A status write may start queued executions in the slots that it frees.\<close>

definition maybeStarted :: "memoryState \<Rightarrow> memoryState \<Rightarrow> ExecutionID \<Rightarrow> bool" where
  "maybeStarted s s' x \<longleftrightarrow> statusOf s' x = statusOf s x \<or>
     statusOf s x = Some ExecutionStatusQueued \<and> statusOf s' x = Some ExecutionStatusRunning"

lemma starts_maybeStarted: "starts now (executions s) (executions s') \<Longrightarrow> maybeStarted s s' x"
  by (drule spec [OF iffD1 [OF starts_def], of _ _ _ x]) (auto simp: maybeStarted_def statusOf_def)

lemma statusOf_setExecSnap [simp]:
  "statusOf (setExecSnap eid e sn s) x = (if x = eid then Some (es_Status sn) else statusOf s x)"
  by (simp add: statusOf_def setExecSnap_def)

lemma closeDone_executions [simp]: "executions (closeDone eid s) = executions s"
  by (simp add: closeDone_def split: option.split bool.split)

lemma statusOf_closeEntry [simp]: "statusOf (closeEntry eid s) x = statusOf s x"
  by (simp add: statusOf_def closeEntry_def split: option.split)

lemma statusOf_publishLocked [simp]: "statusOf (publishLocked ev s) x = statusOf s x"
  by (simp add: statusOf_def)

lemma statusOf_core: "core s' = core s \<Longrightarrow> statusOf s' x = statusOf s x"
  by (metis core_sel(1) statusOf_def)

lemma maybeStarted_release: "maybeStarted s (releaseWorkflowSlotLocked now eid s) x"
  by (rule starts_maybeStarted [OF releaseWorkflowSlotLocked_starts])

lemma maybeStarted_publish [simp]: "maybeStarted s (publishLocked ev s') x = maybeStarted s s' x"
  by (simp add: maybeStarted_def)

lemma maybeStarted_refl [simp]: "maybeStarted s s x"
  by (simp add: maybeStarted_def)

lemma ending_status:
  assumes "core s1 = core (setExecSnap eid e sn s)" "es_Status sn \<noteq> ExecutionStatusQueued"
    and "s' = closeEntry eid (releaseWorkflowSlotLocked now eid s1)"
  shows "statusOf s' eid = Some (es_Status sn)" "x \<noteq> eid \<Longrightarrow> maybeStarted s s' x"
  using maybeStarted_release [of s1 now eid eid] maybeStarted_release [of s1 now eid x] assms
    statusOf_core [OF assms(1)]
  by (simp_all add: maybeStarted_def)

definition casAllows :: "ExecutionStatus option \<Rightarrow> ExecutionStatus \<Rightarrow> bool" where
  "casAllows cur status \<longleftrightarrow> (case cur of
      None \<Rightarrow> False
    | Some c \<Rightarrow> \<not> IsTerminalExecutionStatus c \<and> (c = ExecutionStatusCanceling \<longrightarrow> status = ExecutionStatusCanceled))"

lemma updateExecutionStatusLocked_unfold:
  fixes now :: Time and errMsg :: string
  assumes "fmlookup (executions s) eid = Some e" "casAllows (statusOf s eid) status"
  defines "s1 \<equiv> (if status = ExecutionStatusCanceling \<and> \<not> hasKey (cancelingSince s) eid
                       then s\<lparr>cancelingSince := fmupd eid now (cancelingSince s)\<rparr> else s)"
    and "sn \<equiv> (snap e)\<lparr>es_Status := status, es_UpdatedAt := now,
                               es_Error := (if errMsg \<noteq> '''' then errMsg else es_Error (snap e))\<rparr>"
  defines "s2 \<equiv> setExecSnap eid e sn s1"
  shows "updateExecutionStatusLocked now eid status errMsg s =
    (True, publishLocked (statusEvent eid status errMsg)
      (if isTerminalStatus status
       then closeEntry eid (releaseWorkflowSlotLocked now eid
              (withdrawDeadlineLocked eid status (s2\<lparr>cancelingSince := fmdrop eid (cancelingSince s2)\<rparr>)))
       else s2))"
  using assms(1,2) unfolding s1_def sn_def s2_def
  by (simp add: updateExecutionStatusLocked_def casAllows_def statusOf_def isTerminalStatus_def Let_def)

lemma withdrawDeadlineLocked_core [simp]: "core (withdrawDeadlineLocked eid st s) = core s"
  by (simp add: withdrawDeadlineLocked_def)

text \<open>No execution is forgotten, and what ended keeps its status.\<close>

definition terminalKept :: "memoryState \<Rightarrow> memoryState \<Rightarrow> bool" where
  "terminalKept s s' \<longleftrightarrow> (\<forall>x. statusOf s x \<noteq> None \<longrightarrow> statusOf s' x \<noteq> None)
     \<and> (\<forall>x st. statusOf s x = Some st \<longrightarrow> isTerminalStatus st \<longrightarrow> statusOf s' x = Some st)"

lemma terminalKept_refl [simp]: "terminalKept s s"
  by (simp add: terminalKept_def)

lemma terminalKept_trans: "terminalKept s s1 \<Longrightarrow> terminalKept s1 s2 \<Longrightarrow> terminalKept s s2"
  by (simp add: terminalKept_def)

lemma terminalKept_core: "core s' = core s \<Longrightarrow> terminalKept s s'"
  unfolding terminalKept_def using statusOf_core [of s' s] by metis

lemma terminalKept_pre: "core s1 = core s \<Longrightarrow> terminalKept s1 s' \<Longrightarrow> terminalKept s s'"
  by (rule terminalKept_trans [OF terminalKept_core])

lemma terminalKept_post: "terminalKept s s1 \<Longrightarrow> core s' = core s1 \<Longrightarrow> terminalKept s s'"
  by (rule terminalKept_trans [OF _ terminalKept_core])

lemma terminalKept_starts: "starts now (executions s) (executions s') \<Longrightarrow> terminalKept s s'"
  using starts_maybeStarted [of now s s'] unfolding terminalKept_def maybeStarted_def isTerminalStatus_def
  by (metis ExecutionStatus.distinct IsTerminalExecutionStatus.simps option.distinct(1) option.inject)

lemma terminalKept_maybe:
  assumes "statusOf s eid = Some c" "\<not> isTerminalStatus c" "statusOf s' eid \<noteq> None" "\<And>x. x \<noteq> eid \<Longrightarrow> maybeStarted s s' x"
  shows "terminalKept s s'"
  unfolding terminalKept_def
proof (intro conjI allI impI)
  fix x st
  assume x: "statusOf s x = Some st" "isTerminalStatus st"
  then have "x \<noteq> eid" using assms(1,2) by auto
  then show "statusOf s' x = Some st" using assms(4) [of x] x by (auto simp: maybeStarted_def isTerminalStatus_def)
next
  fix x
  assume "statusOf s x \<noteq> None"
  then show "statusOf s' x \<noteq> None" using assms(3) assms(4) [of x] by (cases "x = eid") (auto simp: maybeStarted_def)
qed

lemma terminalKept_finish:
  assumes "isTerminalStatus st"
  shows "terminalKept s (finishExecutionLocked now eid st e s)"
proof (cases "fmlookup (executions s) eid")
  case (Some en)
  show ?thesis
  proof (cases "isTerminalStatus (es_Status (snap en))")
    case True
    then show ?thesis by (simp add: finishExecutionLocked_def Some isTerminalStatus_def)
  next
    case False
    define sn where "sn = (snap en)\<lparr>es_Status := st, es_UpdatedAt := now,
       es_Error := (if st = ExecutionStatusFailed \<and> e \<noteq> '''' then e else es_Error (snap en))\<rparr>"
    define s1 where "s1 = withdrawDeadlineLocked eid st (setExecSnap eid en sn s)"
    have c: "core s1 = core (setExecSnap eid en sn s)" by (simp add: s1_def)
    have q: "es_Status sn \<noteq> ExecutionStatusQueued" using assms by (auto simp: sn_def isTerminalStatus_def)
    have "maybeStarted s (closeEntry eid (releaseWorkflowSlotLocked now eid s1)) x" if "x \<noteq> eid" for x
      by (rule ending_status(2) [OF c q refl that])
    moreover have "statusOf s eid = Some (es_Status (snap en))" by (simp add: statusOf_def Some)
    ultimately have "terminalKept s (closeEntry eid (releaseWorkflowSlotLocked now eid s1))"
      using False ending_status(1) [OF c q refl, of now] by (intro terminalKept_maybe) auto
    then show ?thesis
      using False by (simp add: finishExecutionLocked_def Some isTerminalStatus_def Let_def s1_def sn_def terminalKept_def)
  qed
qed (simp add: finishExecutionLocked_def)

lemma terminalKept_status: "terminalKept s (snd (updateExecutionStatusLocked now eid st e s))"
proof (cases "casAllows (statusOf s eid) st")
  case False
  then show ?thesis by (auto simp: updateExecutionStatusLocked_def casAllows_def statusOf_def isTerminalStatus_def Let_def split: option.splits)
next
  case True
  then obtain en where en: "fmlookup (executions s) eid = Some en" "\<not> isTerminalStatus (es_Status (snap en))"
    by (auto simp: casAllows_def statusOf_def isTerminalStatus_def split: option.splits)
  have c: "statusOf s eid = Some (es_Status (snap en))" by (simp add: statusOf_def en)
  have m: "statusOf (snd (updateExecutionStatusLocked now eid st e s)) eid \<noteq> None"
    "x \<noteq> eid \<Longrightarrow> maybeStarted s (snd (updateExecutionStatusLocked now eid st e s)) x" for x
  proof -
    define s1 where "s1 = (if st = ExecutionStatusCanceling \<and> \<not> hasKey (cancelingSince s) eid
                     then s\<lparr>cancelingSince := fmupd eid now (cancelingSince s)\<rparr> else s)"
    define sn where "sn = (snap en)\<lparr>es_Status := st, es_UpdatedAt := now, es_Error := (if e \<noteq> '''' then e else es_Error (snap en))\<rparr>"
    define s2 where "s2 = setExecSnap eid en sn s1"
    define s3 where "s3 = withdrawDeadlineLocked eid st (s2\<lparr>cancelingSince := fmdrop eid (cancelingSince s2)\<rparr>)"
    have c2: "core s2 = core (setExecSnap eid en sn s)" unfolding s2_def by (rule core_setExecSnap_cong) (simp add: s1_def)
    then have c3: "core s3 = core (setExecSnap eid en sn s)" by (simp add: s3_def)
    have u: "updateExecutionStatusLocked now eid st e s = (True, publishLocked (statusEvent eid st e)
        (if isTerminalStatus st then closeEntry eid (releaseWorkflowSlotLocked now eid s3) else s2))"
      using updateExecutionStatusLocked_unfold [OF en(1) True] by (simp only: s1_def sn_def s2_def s3_def)
    have q: "es_Status sn \<noteq> ExecutionStatusQueued" if "isTerminalStatus st"
      using that by (auto simp: sn_def isTerminalStatus_def)
    show "statusOf (snd (updateExecutionStatusLocked now eid st e s)) eid \<noteq> None"
      using ending_status(1) [OF c3 q refl, of now] statusOf_core [OF c2, of eid] by (simp add: u)
    show "maybeStarted s (snd (updateExecutionStatusLocked now eid st e s)) x" if "x \<noteq> eid"
      using ending_status(2) [OF c3 q refl that, of now] statusOf_core [OF c2, of x] that
      by (simp add: u) (simp add: maybeStarted_def)
  qed
  from terminalKept_maybe [OF c en(2) m] show ?thesis .
qed

text \<open>C15. A status write is applied exactly when the execution exists, has not
  ended, and is not canceling unless the write confirms the cancellation.  A
  write that is not applied changes nothing.  One that is applied sets the
  status of that execution; to other executions it can only start queued ones
  in the slot it frees.\<close>

theorem status_cas:
  "case updateExecutionStatusLocked now eid status errMsg s of (applied, s') \<Rightarrow>
     applied = casAllows (statusOf s eid) status
     \<and> (if applied then statusOf s' eid = Some status else s' = s)
     \<and> (\<forall>x. x = eid \<or> maybeStarted s s' x)"
proof (cases "casAllows (statusOf s eid) status")
  case True
  then obtain e where e: "fmlookup (executions s) eid = Some e" by (auto simp: casAllows_def statusOf_def split: option.splits)
  define s1 where "s1 = (if status = ExecutionStatusCanceling \<and> \<not> hasKey (cancelingSince s) eid
                       then s\<lparr>cancelingSince := fmupd eid now (cancelingSince s)\<rparr> else s)"
  define sn where "sn = (snap e)\<lparr>es_Status := status, es_UpdatedAt := now,
                               es_Error := (if errMsg \<noteq> '''' then errMsg else es_Error (snap e))\<rparr>"
  define s2 where "s2 = setExecSnap eid e sn s1"
  define s3 where "s3 = withdrawDeadlineLocked eid status (s2\<lparr>cancelingSince := fmdrop eid (cancelingSince s2)\<rparr>)"
  have c2: "core s2 = core (setExecSnap eid e sn s)"
    unfolding s2_def by (rule core_setExecSnap_cong) (simp add: s1_def)
  then have c3: "core s3 = core (setExecSnap eid e sn s)" by (simp add: s3_def)
  note u = updateExecutionStatusLocked_unfold [OF e True, of now errMsg,
      folded s1_def sn_def, folded s2_def, folded s3_def]
  show ?thesis
  proof (cases "isTerminalStatus status")
    case t: True
    then have "es_Status sn \<noteq> ExecutionStatusQueued" by (auto simp: sn_def isTerminalStatus_def)
    note es = ending_status [OF c3 this refl, where now = now]
    have "es_Status sn = status" by (simp add: sn_def)
    then show ?thesis using True t es(1) es(2) by (simp add: u) blast
  next
    case False
    then show ?thesis using True statusOf_core [OF c2] by (simp add: u maybeStarted_def sn_def)
  qed
next
  case False
  then have "updateExecutionStatusLocked now eid status errMsg s = (False, s)"
    by (cases "fmlookup (executions s) eid")
      (auto simp: casAllows_def updateExecutionStatusLocked_def Let_def statusOf_def isTerminalStatus_def)
  then show ?thesis using False by simp
qed

text \<open>The finish that the commit paths use: it yields to an ending that came
  first.\<close>

lemma finish_status:
  assumes "isTerminalStatus status"
  shows "statusOf (finishExecutionLocked now eid status errMsg s) eid =
      (case statusOf s eid of None \<Rightarrow> None
       | Some c \<Rightarrow> Some (if isTerminalStatus c then c else status))"
    "x \<noteq> eid \<Longrightarrow> maybeStarted s (finishExecutionLocked now eid status errMsg s) x"
proof -
  have "statusOf (finishExecutionLocked now eid status errMsg s) eid =
      (case statusOf s eid of None \<Rightarrow> None
       | Some c \<Rightarrow> Some (if isTerminalStatus c then c else status))
    \<and> (x \<noteq> eid \<longrightarrow> maybeStarted s (finishExecutionLocked now eid status errMsg s) x)"
  proof (cases "fmlookup (executions s) eid")
    case (Some e)
    define sn where "sn = (snap e)\<lparr>es_Status := status, es_UpdatedAt := now, es_Error :=
      (if status = ExecutionStatusFailed \<and> errMsg \<noteq> '''' then errMsg else es_Error (snap e))\<rparr>"
    have "es_Status sn \<noteq> ExecutionStatusQueued" using assms by (auto simp: sn_def isTerminalStatus_def)
    note es = ending_status [where ?s1.0 = "withdrawDeadlineLocked eid status (setExecSnap eid e sn s)" and now = now,
        OF _ this refl]
    have st: "statusOf s eid = Some (es_Status (snap e))" using Some by (simp add: statusOf_def)
    show ?thesis
    proof (cases "isTerminalStatus (es_Status (snap e))")
      case False
      then have "finishExecutionLocked now eid status errMsg s =
          publishLocked (statusEvent eid status (es_Error sn)) (closeEntry eid (releaseWorkflowSlotLocked now eid
            (withdrawDeadlineLocked eid status (setExecSnap eid e sn s))))"
        using Some by (simp add: finishExecutionLocked_def Let_def sn_def isTerminalStatus_def)
      then show ?thesis using es [where e = e and s = s] False st by (simp add: sn_def)
    qed (use Some st in \<open>simp add: finishExecutionLocked_def isTerminalStatus_def\<close>)
  qed (simp add: finishExecutionLocked_def statusOf_def maybeStarted_def)
  then show "statusOf (finishExecutionLocked now eid status errMsg s) eid =
      (case statusOf s eid of None \<Rightarrow> None
       | Some c \<Rightarrow> Some (if isTerminalStatus c then c else status))"
    "x \<noteq> eid \<Longrightarrow> maybeStarted s (finishExecutionLocked now eid status errMsg s) x" by simp_all
qed

section \<open>Pause and resume\<close>

lemma mirror_outbox [simp]:
  "outbox (pruneMirrorStateLocked eid s) = outbox s"
  "outbox (pruneTransientSkipAfterTerminal eid s) = outbox s"
  "outbox (snd (beginMirrorMode eid b s)) = outbox s"
  "outbox (clearMirrorCreatePending eid s) = outbox s"
  "outbox (noteMirrorModeLocked hint sn s) = outbox s"
  "outbox (snd (markMirrorCreatePendingLocked eid s)) = outbox s"
  by (simp_all add: pruneMirrorStateLocked_def pruneTransientSkipAfterTerminal_def beginMirrorMode_def
      clearMirrorCreatePending_def noteMirrorModeLocked_def markMirrorCreatePendingLocked_def)

lemma finishMirror_outbox [simp]: "outbox (finishMirror eid s) = outbox s"
  by (simp add: finishMirror_def Let_def)

lemma mirrorExecutionStatus_outbox [simp]: "outbox (mirrorExecutionStatus eid s) = outbox s"
  using mirror_outbox(3) [of eid False s]
  by (auto simp: mirrorExecutionStatus_def split: prod.split bool.split simp del: mirror_outbox(3))

lemma ready_cong:
  assumes "outbox s' = outbox s" "dispatchHeldLocked s' eid = dispatchHeldLocked s eid"
  shows "readyOutboxIDsLocked s' eid t n = readyOutboxIDsLocked s eid t n"
    "ListOutbox s' eid t n = ListOutbox s eid t n"
proof -
  have "outboxOf s' = outboxOf s" using assms(1) by (simp add: outboxOf_def fun_eq_iff)
  then show "readyOutboxIDsLocked s' eid t n = readyOutboxIDsLocked s eid t n"
      "ListOutbox s' eid t n = ListOutbox s eid t n"
    using assms(2) by (simp_all add: readyOutboxIDsLocked_def ListOutbox_def)
qed

lemma held_lists_nothing:
  "dispatchHeldLocked s eid \<Longrightarrow> ListOutbox s eid t n = [] \<and> LeaseOutbox s eid t n = (s, [])"
  by (simp add: ListOutbox_def LeaseOutbox_def readyOutboxIDsLocked_def)

lemma PauseExecution_running:
  assumes "statusOf s eid = Some ExecutionStatusRunning" "PauseExecution now eid s = (s1, err)"
  shows "err = None" "statusOf s1 eid = Some ExecutionStatusPaused" "outbox s1 = outbox s"
    "x \<noteq> eid \<Longrightarrow> statusOf s1 x = statusOf s x"
proof -
  obtain e where e: "fmlookup (executions s) eid = Some e" "es_Status (snap e) = ExecutionStatusRunning"
    using assms(1) by (auto simp: statusOf_def)
  let ?s = "setExecSnap eid e ((snap e)\<lparr>es_Status := ExecutionStatusPaused, es_UpdatedAt := now\<rparr>) s"
  have r: "s1 = mirrorExecutionStatus eid ?s" "err = None"
    using assms(2) e by (auto simp: PauseExecution_def)
  show "err = None" by (rule r(2))
  show "statusOf s1 eid = Some ExecutionStatusPaused" "x \<noteq> eid \<Longrightarrow> statusOf s1 x = statusOf s x"
    using statusOf_core [OF mirrorExecutionStatus_core] by (simp_all add: r(1))
  show "outbox s1 = outbox s" by (simp add: r(1) setExecSnap_def)
qed

lemma ResumeExecution_paused:
  assumes "statusOf s eid = Some ExecutionStatusPaused" "ResumeExecution now eid s = (s1, err)"
  shows "err = None" "statusOf s1 eid = Some ExecutionStatusRunning" "outbox s1 = outbox s"
proof -
  obtain e where e: "fmlookup (executions s) eid = Some e" "es_Status (snap e) = ExecutionStatusPaused"
    using assms(1) by (auto simp: statusOf_def)
  let ?s = "setExecSnap eid e ((snap e)\<lparr>es_Status := ExecutionStatusRunning, es_UpdatedAt := now\<rparr>) s"
  have r: "s1 = mirrorExecutionStatus eid ?s" "err = None"
    using assms(2) e by (auto simp: ResumeExecution_def)
  show "err = None" by (rule r(2))
  show "statusOf s1 eid = Some ExecutionStatusRunning"
    using statusOf_core [OF mirrorExecutionStatus_core] by (simp add: r(1))
  show "outbox s1 = outbox s" by (simp add: r(1) setExecSnap_def)
qed

text \<open>C40. Pausing a running execution withholds every intent from the
  dispatcher, whatever the time and the limit; resuming it makes ready exactly
  what was ready before the pause.  Neither touches the intents themselves.\<close>

theorem pause_resume:
  assumes "statusOf s eid = Some ExecutionStatusRunning"
    and "PauseExecution now eid s = (s1, err1)" "ResumeExecution now' eid s1 = (s2, err2)"
  shows "err1 = None \<and> err2 = None \<and> LeaseOutbox s1 eid t n = (s1, []) \<and> ListOutbox s1 eid t n = []
    \<and> statusOf s2 eid = Some ExecutionStatusRunning \<and> outbox s2 = outbox s
    \<and> readyOutboxIDsLocked s2 eid t n = readyOutboxIDsLocked s eid t n"
proof -
  note p = PauseExecution_running [OF assms(1,2)] and r = ResumeExecution_paused [OF _ assms(3)]
  have "dispatchHeldLocked s1 eid" using p(2) by (simp add: dispatchHeldLocked_def)
  moreover have "\<not> dispatchHeldLocked s eid" "\<not> dispatchHeldLocked s2 eid"
    using assms(1) r(2) p(2) by (simp_all add: dispatchHeldLocked_def)
  ultimately show ?thesis
    using p r [OF p(2)] held_lists_nothing ready_cong(1) [of s2 s eid] by simp
qed

theorem pause_resume_witness:
  "LeaseOutbox (fst (PauseExecution 300 ''ex'' sampleStore)) ''ex'' 400 (- 1) = (fst (PauseExecution 300 ''ex'' sampleStore), [])
   \<and> readyOutboxIDsLocked (fst (ResumeExecution 500 ''ex'' (fst (PauseExecution 300 ''ex'' sampleStore)))) ''ex'' 400 (- 1)
     = [''execute/0/0'', ''execute/1/0'']"
proof -
  have "statusOf sampleStore ''ex'' = Some ExecutionStatusRunning"
    "readyOutboxIDsLocked sampleStore ''ex'' 400 (- 1) = [''execute/0/0'', ''execute/1/0'']" by code_simp+
  then show ?thesis
    using pause_resume [OF _ prod.collapse [symmetric] prod.collapse [symmetric], of sampleStore "''ex''" 300 500 400 "- 1"]
    by simp
qed

end
