(* ===== verification/Fencing.thy ===== *)
theory Fencing
  imports Prelude
begin

text \<open>The contract of a fenced lease: a grant puts a token in force, an operation
  that presents a token is accepted only for the token in force, and a refused
  one changes nothing.  Node leases and group leases are instances of it.\<close>

locale lease_fence =
  fixes tokenOf :: "'s \<Rightarrow> 'k \<Rightarrow> string option"
    and keyOf :: "'l \<Rightarrow> 'k"
    and tok :: "'l \<Rightarrow> string"
    and acquire :: "'l \<Rightarrow> 's \<Rightarrow> bool \<times> 's"
    and present :: "'k \<Rightarrow> string \<Rightarrow> 's \<Rightarrow> bool \<times> 's"
  assumes acquire_token: "acquire l s = (True, s') \<Longrightarrow> tok l \<noteq> '''' \<Longrightarrow> tokenOf s' (keyOf l) = Some (tok l)"
    and present_fenced: "present k t s = (True, s') \<Longrightarrow> tokenOf s k = Some t"
    and present_refused: "present k t s = (False, s') \<Longrightarrow> s' = s"
begin

lemma stale_refused:
  assumes "acquire l s = (True, s')" "tok l \<noteq> ''''" "t \<noteq> tok l"
  shows "present (keyOf l) t s' = (False, s')"
proof -
  obtain b s'' where p: "present (keyOf l) t s' = (b, s'')" by fastforce
  have "\<not> b" using acquire_token [OF assms(1,2)] present_fenced [of "keyOf l" t s' s''] p assms(3) by auto
  then show ?thesis using p present_refused [of "keyOf l" t s' s''] by simp
qed

lemma one_holder:
  "present k t s = (True, s1) \<Longrightarrow> present k t' s = (True, s2) \<Longrightarrow> t = t'"
  by (metis option.inject present_fenced)

end

end
