(* ===== verification/NodeLeases.thy ===== *)
theory NodeLeases
  imports LifecycleProps Fencing
begin

text \<open>
  Node records and their leases in the local store (\<open>memory_state.go\<close>, from
  \<open>UpsertNode\<close> to \<open>ClaimTaskLease\<close>, and \<open>RenewTaskLease\<close>): the fenced upsert, the
  monotone privacy marker of outputs, acquiring, claiming, renewing, revoking and
  resetting a lease, and the sweep for expired ones.  \<open>mirrorNode\<close> writes a row
  of the durable store; of it the model keeps the projection lock.
\<close>

section \<open>Output privacy\<close>

definition outputIsPrivateLocked :: "memoryState \<Rightarrow> string \<Rightarrow> bool" where
  "outputIsPrivateLocked s key \<longleftrightarrow> mapGet False (privateOutputs s) key \<or>
     (case fmlookup (nodes s) key of None \<Rightarrow> False | Some n \<Rightarrow> ns_PrivateOutput n)"

definition hideOutput :: "NodeSnapshot \<Rightarrow> NodeSnapshot" where
  "hideOutput n = n\<lparr>ns_PrivateOutput := True, ns_Output := None\<rparr>"

definition preserveOutputPrivacyLocked :: "string \<Rightarrow> bool \<Rightarrow> memoryState \<Rightarrow> bool \<times> memoryState" where
  "preserveOutputPrivacyLocked key requested s =
     (if \<not> (requested \<or> outputIsPrivateLocked s key) then (False, s)
      else
        let s1 = s\<lparr>privateOutputs := fmupd key True (privateOutputs s)\<rparr>
        in (True, case fmlookup (nodes s1) key of
              None \<Rightarrow> s1
            | Some n \<Rightarrow> if \<not> ns_PrivateOutput n \<or> ns_Output n \<noteq> None
                        then s1\<lparr>nodes := fmupd key (hideOutput n) (nodes s1)\<rparr> else s1))"

definition publicNodeSnapshotLocked :: "memoryState \<Rightarrow> string \<Rightarrow> NodeSnapshot option \<Rightarrow> NodeSnapshot option" where
  "publicNodeSnapshotLocked s key ns =
     map_option (\<lambda>n. if outputIsPrivateLocked s key then hideOutput n else n) ns"

text \<open>The pattern of every node rewrite: the privacy decision is recorded, then
  the copy is stored with it.\<close>

definition setPrivacy :: "bool \<Rightarrow> NodeSnapshot \<Rightarrow> NodeSnapshot" where
  "setPrivacy p n = n\<lparr>ns_PrivateOutput := p, ns_Output := (if p then None else ns_Output n)\<rparr>"

definition storeNode :: "string \<Rightarrow> NodeSnapshot \<Rightarrow> memoryState \<Rightarrow> memoryState" where
  "storeNode key cp s = (case preserveOutputPrivacyLocked key (ns_PrivateOutput cp) s of
      (p, s1) \<Rightarrow> s1\<lparr>nodes := fmupd key (setPrivacy p cp) (nodes s1)\<rparr>)"

section \<open>Upsert\<close>

definition mirrorNode :: "ExecutionID \<Rightarrow> memoryState \<Rightarrow> memoryState" where
  "mirrorNode eid s = (case beginMirrorMode eid False s of
      (False, s1) \<Rightarrow> s1 | (True, s1) \<Rightarrow> finishMirror eid s1)"

definition keepTiming :: "NodeSnapshot option \<Rightarrow> NodeSnapshot \<Rightarrow> NodeSnapshot" where
  "keepTiming existing n = (case existing of
      None \<Rightarrow> n
    | Some x \<Rightarrow> n\<lparr>ns_StartedAt := (if IsZero (ns_StartedAt x) then ns_StartedAt n else ns_StartedAt x),
                 ns_FinishedAt := (if IsZero (ns_FinishedAt x) then ns_FinishedAt n else ns_FinishedAt x)\<rparr>)"

definition stampFinished :: "Time \<Rightarrow> NodeSnapshot \<Rightarrow> NodeSnapshot" where
  "stampFinished now n =
     (if IsTerminalNodeStatus (ns_Status n) \<and> IsZero (ns_FinishedAt n) then n\<lparr>ns_FinishedAt := now\<rparr> else n)"

definition upsertNodeLocked :: "Time \<Rightarrow> NodeSnapshot \<Rightarrow> memoryState \<Rightarrow> bool \<times> memoryState" where
  "upsertNodeLocked now n s =
     (let key = memoryNodeKey (ns_ExecutionID n) (ns_Name n)
      in case preserveOutputPrivacyLocked key (ns_PrivateOutput n) s of
           (privateOutput, s1) \<Rightarrow>
             let existing = fmlookup (nodes s1) key;
                 accepted = (s1\<lparr>nodes := fmupd key (setPrivacy privateOutput (stampFinished now (keepTiming existing n))) (nodes s1)\<rparr>)
             in case existing of
                  None \<Rightarrow> (True, accepted)
                | Some x \<Rightarrow>
                    if isTerminalNode (ns_Status x) \<and> ns_ActivationID n \<le> ns_ActivationID x then (False, s1)
                    else if ns_Status x \<in> {NodeStatusCommitting, NodeStatusWaiting} \<and> ns_Status n = NodeStatusRunning
                      then (False, s1)
                    else (True, accepted))"

definition UpsertNode :: "Time \<Rightarrow> NodeSnapshot \<Rightarrow> memoryState \<Rightarrow> memoryState" where
  "UpsertNode now n s = (case upsertNodeLocked now n s of
      (applied, s1) \<Rightarrow> if applied then mirrorNode (ns_ExecutionID n) s1 else s1)"

definition GetNode :: "memoryState \<Rightarrow> ExecutionID \<Rightarrow> string \<Rightarrow> NodeSnapshot option" where
  "GetNode s eid name = publicNodeSnapshotLocked s (memoryNodeKey eid name) (fmlookup (nodes s) (memoryNodeKey eid name))"

definition CancelSuspendedNode :: "Time \<Rightarrow> ExecutionID \<Rightarrow> string \<Rightarrow> memoryState \<Rightarrow> bool \<times> memoryState" where
  "CancelSuspendedNode now eid name s =
     (let key = memoryNodeKey eid name in
      case fmlookup (nodes s) key of
        None \<Rightarrow> (False, s)
      | Some ns \<Rightarrow>
          if ns_Status ns \<noteq> NodeStatusSuspended then (False, s)
          else
            let cp = ns\<lparr>ns_Status := NodeStatusCanceled,
                        ns_FinishedAt := (if IsZero (ns_FinishedAt ns) then now else ns_FinishedAt ns)\<rparr>;
                s1 = storeNode key cp s;
                s2 = s1\<lparr>suspended := fmdrop key (suspended s1), signalSets := fmdrop key (signalSets s1)\<rparr>
            in (True, mirrorNode eid s2))"

section \<open>Leases\<close>

definition leaseHeld :: "Time \<Rightarrow> NodeSnapshot \<Rightarrow> bool" where
  "leaseHeld at n \<longleftrightarrow> ns_Status n = NodeStatusRunning \<and> ns_LeaseToken n \<noteq> '''' \<and>
     (IsZero (ns_LeaseIssuedAt n) \<or> ns_LeaseTTL n \<le> 0 \<or> at < ns_LeaseIssuedAt n + ns_LeaseTTL n)"

definition acquireRefused :: "TaskLease \<Rightarrow> NodeSnapshot \<Rightarrow> bool" where
  "acquireRefused lease cur \<longleftrightarrow>
     (let act = t_ActivationID (tl_Task lease)
      in act > 0 \<and> ns_ActivationID cur > act
       \<or> isTerminalNode (ns_Status cur) \<and> (act \<le> 0 \<or> ns_ActivationID cur \<ge> act)
       \<or> ns_Status cur \<in> {NodeStatusCommitting, NodeStatusWaiting}
       \<or> leaseHeld (tl_IssuedAt lease) cur)"

definition leasedNode :: "TaskLease \<Rightarrow> NodeSnapshot option \<Rightarrow> bool \<Rightarrow> NodeSnapshot" where
  "leasedNode lease current privateOutput =
     (let t = tl_Task lease
      in emptyNode\<lparr>ns_ExecutionID := t_ExecutionID t, ns_Name := t_NodeName t, ns_NodeIdx := t_NodeIdx t,
           ns_UnitIdx := t_UnitIdx t, ns_Status := NodeStatusRunning, ns_LeaseID := tl_LeaseID lease,
           ns_LeaseToken := tl_LeaseToken lease,
           ns_Attempt := (case current of None \<Rightarrow> 1
              | Some c \<Rightarrow> if ns_ActivationID c = t_ActivationID t then ns_Attempt c + 1 else 1),
           ns_ActivationID := t_ActivationID t, ns_AutoDepth := t_AutoDepth t,
           ns_LeaseIssuedAt := tl_IssuedAt lease, ns_LeaseTTL := tl_TTL lease,
           ns_StartedAt := (case current of None \<Rightarrow> tl_IssuedAt lease
              | Some c \<Rightarrow> if IsZero (ns_StartedAt c) then tl_IssuedAt lease else ns_StartedAt c),
           ns_LeaseTaskType := t_Type t, ns_LeasePayload := t_Payload t, ns_LeaseGeneration := t_Generation t,
           ns_PrivateOutput := privateOutput,
           ns_ChildExecutionID := (case current of None \<Rightarrow> '''' | Some c \<Rightarrow> ns_ChildExecutionID c),
           ns_FinishedAt := (case current of None \<Rightarrow> zeroTime | Some c \<Rightarrow> ns_FinishedAt c)\<rparr>)"

definition acquireTaskLeaseLocked :: "TaskLease \<Rightarrow> memoryState \<Rightarrow> (NodeSnapshot option \<times> bool) \<times> memoryState" where
  "acquireTaskLeaseLocked lease s =
     (let eid = t_ExecutionID (tl_Task lease); key = memoryNodeKey eid (t_NodeName (tl_Task lease));
          current = fmlookup (nodes s) key
      in if mapGet False (rolledBack s) eid then ((None, False), s)
         else if (case current of None \<Rightarrow> False | Some c \<Rightarrow> acquireRefused lease c)
           then ((publicNodeSnapshotLocked s key current, False), s)
         else case preserveOutputPrivacyLocked key False s of
           (privateOutput, s1) \<Rightarrow>
             let s2 = s1\<lparr>nodes := fmupd key (leasedNode lease current privateOutput) (nodes s1)\<rparr>
             in ((publicNodeSnapshotLocked s2 key current, True), s2))"

definition AcquireTaskLease :: "TaskLease \<Rightarrow> memoryState \<Rightarrow> (NodeSnapshot option \<times> bool) \<times> memoryState" where
  "AcquireTaskLease lease s = (case acquireTaskLeaseLocked lease s of
      ((previous, acquired), s1) \<Rightarrow>
        ((previous, acquired), if acquired then mirrorNode (t_ExecutionID (tl_Task lease)) s1 else s1))"

record LeaseAcquireResult =
  lr_Previous :: "NodeSnapshot option"
  lr_Acquired :: bool
  lr_ExecutionFound :: bool
  lr_ExecutionStatus :: ExecutionStatus

definition emptyAcquireResult :: LeaseAcquireResult where
  "emptyAcquireResult = \<lparr>lr_Previous = None, lr_Acquired = False, lr_ExecutionFound = False,
     lr_ExecutionStatus = ExecutionStatusEmpty\<rparr>"

definition AcquireTaskLeaseChecked :: "bool \<Rightarrow> TaskLease \<Rightarrow> memoryState \<Rightarrow> LeaseAcquireResult \<times> memoryState" where
  "AcquireTaskLeaseChecked allowCycles lease s =
     (let eid = t_ExecutionID (tl_Task lease); key = memoryNodeKey eid (t_NodeName (tl_Task lease))
      in case fmlookup (executions s) eid of
           None \<Rightarrow> (emptyAcquireResult, s)
         | Some e \<Rightarrow>
             let res = emptyAcquireResult\<lparr>lr_ExecutionFound := True, lr_ExecutionStatus := es_Status (snap e)\<rparr>;
                 current = fmlookup (nodes s) key
             in if IsTerminalExecutionStatus (es_Status (snap e)) then (res, s)
                else if allowCycles \<and> t_ActivationID (tl_Task lease) \<le> 0
                  \<or> \<not> allowCycles \<and> (case current of None \<Rightarrow> False | Some c \<Rightarrow> isTerminalNode (ns_Status c))
                  then (res\<lparr>lr_Previous := publicNodeSnapshotLocked s key current\<rparr>, s)
                else case acquireTaskLeaseLocked lease s of
                  ((previous, acquired), s1) \<Rightarrow>
                    (res\<lparr>lr_Previous := previous, lr_Acquired := acquired\<rparr>,
                     if acquired then mirrorNode eid s1 else s1))"

definition nodeLeased :: "NodeSnapshot \<Rightarrow> bool" where
  "nodeLeased n \<longleftrightarrow> ns_Status n \<in> {NodeStatusRunning, NodeStatusCommitting, NodeStatusWaiting}"

definition clearLease :: "NodeSnapshot \<Rightarrow> NodeSnapshot" where
  "clearLease n = n\<lparr>ns_LeaseID := '''', ns_LeaseToken := '''', ns_LeaseIssuedAt := zeroTime, ns_LeaseTTL := 0,
     ns_LeaseTaskType := TaskTypeNodeExec, ns_LeasePayload := None, ns_LeaseGeneration := 0\<rparr>"

text \<open>The token is a variadic argument of the source: \<^term>\<open>None\<close> is a call without
  it.\<close>

definition resetNodeForRetryLocked :: "ExecutionID \<Rightarrow> string \<Rightarrow> LeaseToken option \<Rightarrow> memoryState \<Rightarrow> bool \<times> memoryState" where
  "resetNodeForRetryLocked eid name token s =
     (let key = memoryNodeKey eid name in
      case fmlookup (nodes s) key of
        None \<Rightarrow> (False, s)
      | Some ns \<Rightarrow>
          if \<not> nodeLeased ns then (False, s)
          else if (case token of None \<Rightarrow> False | Some t \<Rightarrow> t = '''' \<or> ns_LeaseToken ns \<noteq> t) then (False, s)
          else (True, storeNode key (clearLease (ns\<lparr>ns_Status := NodeStatusPending\<rparr>)) s))"

definition ResetNodeForRetryWithOutbox :: "Time \<Rightarrow> ExecutionID \<Rightarrow> string \<Rightarrow> LeaseToken \<Rightarrow> OutboxEntry \<Rightarrow>
    memoryState \<Rightarrow> bool \<times> memoryState" where
  "ResetNodeForRetryWithOutbox now eid name token entry s =
     (case resetNodeForRetryLocked eid name (Some token) s of
        (False, s1) \<Rightarrow> (False, s1)
      | (True, s1) \<Rightarrow> (True, snd (putOutboxLocked now eid (oe_ID entry) (oe_Task entry) (oe_AvailableAt entry) s1)))"

definition revokeLeaseLocked :: "ExecutionID \<Rightarrow> string \<Rightarrow> LeaseToken \<Rightarrow> memoryState \<Rightarrow> bool \<times> memoryState" where
  "revokeLeaseLocked eid name token s =
     (let key = memoryNodeKey eid name in
      case fmlookup (nodes s) key of
        None \<Rightarrow> (False, s)
      | Some ns \<Rightarrow>
          if \<not> nodeLeased ns then (False, s)
          else if token = '''' \<or> ns_LeaseToken ns \<noteq> token then (False, s)
          else (True, storeNode key (clearLease (ns\<lparr>ns_Status := NodeStatusPending\<rparr>)) s))"

definition RevokeLease :: "ExecutionID \<Rightarrow> string \<Rightarrow> LeaseToken \<Rightarrow> memoryState \<Rightarrow> bool \<times> memoryState" where
  "RevokeLease eid name token s = revokeLeaseLocked eid name token s"

definition RevokeLeaseWithOutbox :: "Time \<Rightarrow> ExecutionID \<Rightarrow> string \<Rightarrow> LeaseToken \<Rightarrow> OutboxEntry \<Rightarrow>
    memoryState \<Rightarrow> bool \<times> memoryState" where
  "RevokeLeaseWithOutbox now eid name token entry s =
     (case revokeLeaseLocked eid name token s of
        (False, s1) \<Rightarrow> (False, s1)
      | (True, s1) \<Rightarrow> (True, snd (putOutboxLocked now eid (oe_ID entry) (oe_Task entry) (oe_AvailableAt entry) s1)))"

definition ClaimTaskLease :: "TaskLease \<Rightarrow> memoryState \<Rightarrow> (NodeSnapshot option \<times> bool) \<times> memoryState" where
  "ClaimTaskLease lease s =
     (let t = tl_Task lease; key = memoryNodeKey (t_ExecutionID t) (t_NodeName t) in
      case fmlookup (nodes s) key of
        None \<Rightarrow> ((None, False), s)
      | Some ns \<Rightarrow>
          let public = publicNodeSnapshotLocked s key (Some ns)
          in if t_ActivationID t > 0 \<and> ns_ActivationID ns \<noteq> t_ActivationID t then ((public, False), s)
             else if isTerminalNode (ns_Status ns) then ((public, True), s)
             else if ns_Status ns \<noteq> NodeStatusRunning \<or> ns_LeaseToken ns = '''' \<or> ns_LeaseToken ns \<noteq> tl_LeaseToken lease
               then ((public, False), s)
             else if tl_LeaseID lease \<noteq> '''' \<and> ns_LeaseID ns \<noteq> tl_LeaseID lease then ((public, False), s)
             else if tl_Attempt lease \<noteq> 0 \<and> ns_Attempt ns \<noteq> tl_Attempt lease then ((public, False), s)
             else
               let s1 = storeNode key (ns\<lparr>ns_Status := NodeStatusCommitting\<rparr>) s
               in ((publicNodeSnapshotLocked s1 key (fmlookup (nodes s1) key), True), s1))"

definition RenewTaskLease :: "Time \<Rightarrow> ExecutionID \<Rightarrow> string \<Rightarrow> LeaseToken \<Rightarrow> Time \<Rightarrow> memoryState \<Rightarrow> bool \<times> memoryState" where
  "RenewTaskLease now eid name token deadline s =
     (let key = memoryNodeKey eid name in
      if token = '''' then (False, s)
      else case fmlookup (nodes s) key of
        None \<Rightarrow> (False, s)
      | Some ns \<Rightarrow>
          if ns_LeaseToken ns \<noteq> token then (False, s)
          else if ns_Status ns \<notin> {NodeStatusRunning, NodeStatusWaiting} then (False, s)
          else
            let issuedAt = (if IsZero (ns_LeaseIssuedAt ns) then now else ns_LeaseIssuedAt ns);
                ttl = (if deadline - issuedAt < 0 then 0 else deadline - issuedAt)
            in (True, s\<lparr>nodes := fmupd key (ns\<lparr>ns_LeaseIssuedAt := issuedAt, ns_LeaseTTL := ttl\<rparr>) (nodes s)\<rparr>))"

section \<open>The expiry sweep\<close>

definition nodeExpired :: "Time \<Rightarrow> NodeSnapshot \<Rightarrow> bool" where
  "nodeExpired before n \<longleftrightarrow> nodeLeased n \<and> \<not> IsZero (ns_LeaseIssuedAt n) \<and> ns_LeaseTTL n > 0 \<and>
     \<not> ns_LeaseIssuedAt n + ns_LeaseTTL n > before"

definition expiredOfNode :: "NodeSnapshot \<Rightarrow> ExpiredLease" where
  "expiredOfNode n = \<lparr>xl_ExecutionID = ns_ExecutionID n, xl_NodeName = ns_Name n, xl_NodeIdx = ns_NodeIdx n,
     xl_UnitIdx = ns_UnitIdx n, xl_LeaseID = ns_LeaseID n, xl_LeaseToken = ns_LeaseToken n,
     xl_IssuedAt = ns_LeaseIssuedAt n, xl_TTL = ns_LeaseTTL n, xl_ActivationID = ns_ActivationID n,
     xl_AutoDepth = ns_AutoDepth n, xl_TaskType = ns_LeaseTaskType n, xl_Payload = ns_LeasePayload n,
     xl_Generation = ns_LeaseGeneration n\<rparr>"

definition groupExpired :: "Time \<Rightarrow> groupUnitState \<Rightarrow> bool" where
  "groupExpired before g \<longleftrightarrow> gu_status g = groupUnitRunning \<and> gu_leaseToken g \<noteq> '''' \<and>
     \<not> IsZero (gu_deadline g) \<and> \<not> gu_deadline g > before"

definition expiredOfGroup :: "groupUnitState \<Rightarrow> ExpiredLease" where
  "expiredOfGroup g = \<lparr>xl_ExecutionID = gu_execID g, xl_NodeName = gu_groupName g, xl_NodeIdx = gu_entryNodeIdx g,
     xl_UnitIdx = gu_unitIdx g, xl_LeaseID = gu_leaseID g, xl_LeaseToken = gu_leaseToken g,
     xl_IssuedAt = gu_issuedAt g, xl_TTL = gu_ttl g, xl_ActivationID = gu_activationID g,
     xl_AutoDepth = 0, xl_TaskType = TaskTypeGroupExec, xl_Payload = None, xl_Generation = 0\<rparr>"

text \<open>The keys in the orders in which Go iterates over the two maps.\<close>

definition ListExpiredLeases :: "memoryState \<Rightarrow> string list \<Rightarrow> string list \<Rightarrow> Time \<Rightarrow> ExpiredLease list" where
  "ListExpiredLeases s nodeOrder groupOrder before =
     map expiredOfNode (filter (nodeExpired before) (List.map_filter (fmlookup (nodes s)) nodeOrder))
     @ map expiredOfGroup (filter (groupExpired before) (List.map_filter (fmlookup (groupUnits s)) groupOrder))"

section \<open>Counters\<close>

definition DecrementInDegree :: "ExecutionID \<Rightarrow> int \<Rightarrow> bool \<Rightarrow> memoryState \<Rightarrow> (int \<times> int) \<times> memoryState" where
  "DecrementInDegree eid unitIdx portActive s =
     (let key = memoryCounterKey eid unitIdx;
          s1 = s\<lparr>inDegrees := fmupd key (mapGet 0 (inDegrees s) key - 1) (inDegrees s)\<rparr>;
          s2 = (if portActive then s1\<lparr>activeIns := fmupd key (mapGet 0 (activeIns s1) key + 1) (activeIns s1)\<rparr> else s1)
      in ((mapGet 0 (inDegrees s2) key, mapGet 0 (activeIns s2) key), s2))"

definition CheckCompletion :: "memoryState \<Rightarrow> ExecutionID \<Rightarrow> int \<Rightarrow> bool \<times> bool" where
  "CheckCompletion s eid totalNodes =
     (if (case statusOf s eid of
            Some st \<Rightarrow> isTerminalStatus st \<or> st = ExecutionStatusCanceling
          | None \<Rightarrow> False) then (False, False)
      else
        let mine = map (\<lambda>k. the (fmlookup (nodes s) k)) (filter (\<lambda>k. hasPrefix k (eid @ ''/'')) (sortedKeys (nodes s)))
        in (int (length (filter (\<lambda>n. isTerminalNode (ns_Status n)) mine)) \<ge> totalNodes,
            list_ex (\<lambda>n. ns_Status n = NodeStatusFailed) mine))"

section \<open>The privacy marker\<close>

lemma hideOutput_sel [simp]:
  "ns_PrivateOutput (hideOutput n)" "ns_Output (hideOutput n) = None" "ns_Status (hideOutput n) = ns_Status n"
  "ns_ActivationID (hideOutput n) = ns_ActivationID n" "ns_StartedAt (hideOutput n) = ns_StartedAt n"
  "ns_FinishedAt (hideOutput n) = ns_FinishedAt n" "ns_LeaseToken (hideOutput n) = ns_LeaseToken n"
  by (simp_all add: hideOutput_def)

lemma hideOutput_id: "ns_PrivateOutput n \<Longrightarrow> ns_Output n = None \<Longrightarrow> hideOutput n = n"
  by (cases n) (simp add: hideOutput_def)

lemma setPrivacy_sel [simp]:
  "ns_PrivateOutput (setPrivacy p n) = p" "ns_Output (setPrivacy p n) = (if p then None else ns_Output n)"
  "ns_Status (setPrivacy p n) = ns_Status n" "ns_ActivationID (setPrivacy p n) = ns_ActivationID n"
  "ns_StartedAt (setPrivacy p n) = ns_StartedAt n" "ns_FinishedAt (setPrivacy p n) = ns_FinishedAt n"
  "ns_LeaseToken (setPrivacy p n) = ns_LeaseToken n" "ns_LeaseIssuedAt (setPrivacy p n) = ns_LeaseIssuedAt n"
  "ns_LeaseTTL (setPrivacy p n) = ns_LeaseTTL n" "ns_Attempt (setPrivacy p n) = ns_Attempt n"
  by (simp_all add: setPrivacy_def)

lemma preserveOutputPrivacyLocked_cases [consumes 1, case_names pub priv]:
  assumes "preserveOutputPrivacyLocked key r s = (p, s1)"
  obtains (pub) "\<not> p" "s1 = s" "\<not> r" "\<not> outputIsPrivateLocked s key"
  | (priv) "p" "r \<or> outputIsPrivateLocked s key" "privateOutputs s1 = fmupd key True (privateOutputs s)"
      "\<And>k. fmlookup (nodes s1) k = (if k = key then map_option hideOutput (fmlookup (nodes s) k) else fmlookup (nodes s) k)"
proof (cases "r \<or> outputIsPrivateLocked s key")
  case True
  let ?s = "s\<lparr>privateOutputs := fmupd key True (privateOutputs s)\<rparr>"
  consider n where "fmlookup (nodes s) key = Some n" "\<not> ns_PrivateOutput n \<or> ns_Output n \<noteq> None"
      "s1 = ?s\<lparr>nodes := fmupd key (hideOutput n) (nodes s)\<rparr>"
    | "s1 = ?s" "map_option hideOutput (fmlookup (nodes s) key) = fmlookup (nodes s) key"
    using assms True hideOutput_id
    by (cases "fmlookup (nodes s) key") (auto simp: preserveOutputPrivacyLocked_def Let_def split: if_splits)
  then have "privateOutputs s1 = fmupd key True (privateOutputs s)"
    "\<And>k. fmlookup (nodes s1) k = (if k = key then map_option hideOutput (fmlookup (nodes s) k) else fmlookup (nodes s) k)"
    by (cases; simp)+
  then show thesis using True assms by (intro priv) (auto simp: preserveOutputPrivacyLocked_def Let_def)
next
  case False
  then show thesis using assms by (intro pub) (auto simp: preserveOutputPrivacyLocked_def)
qed

lemma preserve_fst: "fst (preserveOutputPrivacyLocked key r s) \<longleftrightarrow> r \<or> outputIsPrivateLocked s key"
  by (simp add: preserveOutputPrivacyLocked_def Let_def)

lemma preserve_core [simp]: "core (snd (preserveOutputPrivacyLocked key r s)) = core s"
  by (simp add: preserveOutputPrivacyLocked_def Let_def core_def split: option.split)

text \<open>What rewriting the record of one node does: the other records stay, and the
  outputs that are private stay private.\<close>

definition rewritesNode :: "string \<Rightarrow> NodeSnapshot \<Rightarrow> memoryState \<Rightarrow> memoryState \<Rightarrow> bool" where
  "rewritesNode key n' s s' \<longleftrightarrow>
     (\<forall>k. fmlookup (nodes s') k = (if k = key then Some n' else fmlookup (nodes s) k))
     \<and> (\<forall>k. outputIsPrivateLocked s' k \<longleftrightarrow> outputIsPrivateLocked s k \<or> k = key \<and> ns_PrivateOutput n')
     \<and> (outputIsPrivateLocked s key \<longrightarrow> ns_PrivateOutput n') \<and> (ns_PrivateOutput n' \<longrightarrow> ns_Output n' = None)"

lemma preserve_then_store:
  assumes "preserveOutputPrivacyLocked key r s = (p, s1)" "ns_PrivateOutput n' = p" "p \<longrightarrow> ns_Output n' = None"
  shows "rewritesNode key n' s (s1\<lparr>nodes := fmupd key n' (nodes s1)\<rparr>)"
  using assms(1)
proof (cases rule: preserveOutputPrivacyLocked_cases)
  case pub
  then show ?thesis
    using assms(2,3) by (auto simp: rewritesNode_def outputIsPrivateLocked_def split: option.splits)
next
  case priv
  then have "outputIsPrivateLocked (s1\<lparr>nodes := fmupd key n' (nodes s1)\<rparr>) k \<longleftrightarrow> outputIsPrivateLocked s k \<or> k = key" for k
    using assms(2) by (simp add: outputIsPrivateLocked_def)
  then show ?thesis using priv assms(2,3) by (simp add: rewritesNode_def)
qed

lemma storeNode_rewrites:
  "rewritesNode key (setPrivacy (ns_PrivateOutput cp \<or> outputIsPrivateLocked s key) cp) s (storeNode key cp s)"
proof -
  obtain p s1 where p: "preserveOutputPrivacyLocked key (ns_PrivateOutput cp) s = (p, s1)" by fastforce
  moreover from p have "p \<longleftrightarrow> ns_PrivateOutput cp \<or> outputIsPrivateLocked s key"
    using preserve_fst [of key "ns_PrivateOutput cp" s] by simp
  ultimately show ?thesis
    using preserve_then_store [OF p, of "setPrivacy p cp"] by (simp add: storeNode_def)
qed

lemma storeNode_core [simp]: "core (storeNode key cp s) = core s"
  using preserve_core [of key "ns_PrivateOutput cp" s]
  by (auto simp: storeNode_def core_def split: prod.split simp del: preserve_core)

lemma mirrorNode_core [simp]: "core (mirrorNode eid s) = core s"
  using mirror_core(6) [of eid False s]
  by (auto simp: mirrorNode_def split: prod.split bool.split simp del: mirror_core(6))

lemma mirror_nodes [simp]:
  "nodes (snd (beginMirrorMode eid b s)) = nodes s" "privateOutputs (snd (beginMirrorMode eid b s)) = privateOutputs s"
  "nodes (pruneMirrorStateLocked eid s) = nodes s" "privateOutputs (pruneMirrorStateLocked eid s) = privateOutputs s"
  by (simp_all add: beginMirrorMode_def pruneMirrorStateLocked_def)

lemma finishMirror_nodes [simp]:
  "nodes (finishMirror eid s) = nodes s" "privateOutputs (finishMirror eid s) = privateOutputs s"
  by (simp_all add: finishMirror_def Let_def)

lemma mirrorNode_nodes [simp]:
  "nodes (mirrorNode eid s) = nodes s" "privateOutputs (mirrorNode eid s) = privateOutputs s"
  using mirror_nodes(1,2) [of eid False s]
  by (auto simp: mirrorNode_def split: prod.split bool.split simp del: mirror_nodes(1,2))

lemma outputIsPrivateLocked_cong:
  "nodes s' = nodes s \<Longrightarrow> privateOutputs s' = privateOutputs s \<Longrightarrow> outputIsPrivateLocked s' k = outputIsPrivateLocked s k"
  by (simp add: outputIsPrivateLocked_def)

lemma rewritesNode_cong:
  "rewritesNode key n' s s1 \<Longrightarrow> nodes s' = nodes s1 \<Longrightarrow> privateOutputs s' = privateOutputs s1 \<Longrightarrow> rewritesNode key n' s s'"
  using outputIsPrivateLocked_cong [of s' s1] by (simp add: rewritesNode_def)

section \<open>What every node operation keeps\<close>

text \<open>Timing is write-once, a private output stays private and unreadable, and a
  terminal record is left as it is (up to hiding its output) unless a later
  activation re-enters the node.\<close>

definition timingKept :: "NodeSnapshot \<Rightarrow> NodeSnapshot \<Rightarrow> bool" where
  "timingKept n n' \<longleftrightarrow> (IsZero (ns_StartedAt n) \<or> ns_StartedAt n' = ns_StartedAt n)
     \<and> (IsZero (ns_FinishedAt n) \<or> ns_FinishedAt n' = ns_FinishedAt n)"

definition endKept :: "NodeSnapshot \<Rightarrow> NodeSnapshot \<Rightarrow> bool" where
  "endKept n n' \<longleftrightarrow> isTerminalNode (ns_Status n) \<longrightarrow>
     n' = n \<or> n' = hideOutput n \<or> ns_ActivationID n' > ns_ActivationID n"

definition privacyOK :: "memoryState \<Rightarrow> bool" where
  "privacyOK s \<longleftrightarrow> (\<forall>k n. fmlookup (nodes s) k = Some n \<longrightarrow> outputIsPrivateLocked s k \<longrightarrow>
     ns_PrivateOutput n \<and> ns_Output n = None)"

definition nodesEvolve :: "memoryState \<Rightarrow> memoryState \<Rightarrow> bool" where
  "nodesEvolve s s' \<longleftrightarrow>
     (\<forall>k n. fmlookup (nodes s) k = Some n \<longrightarrow>
        (\<exists>n'. fmlookup (nodes s') k = Some n' \<and> timingKept n n' \<and> endKept n n'))
     \<and> (\<forall>k. outputIsPrivateLocked s k \<longrightarrow> outputIsPrivateLocked s' k)
     \<and> (privacyOK s \<longrightarrow> privacyOK s')"

lemma timingKept_refl [simp]: "timingKept n n"
  by (simp add: timingKept_def)

lemma timingKept_trans: "timingKept n n' \<Longrightarrow> timingKept n' n'' \<Longrightarrow> timingKept n n''"
  by (auto simp: timingKept_def)

lemma endKept_refl [simp]: "endKept n n"
  by (simp add: endKept_def)

lemma hide_kept [simp]: "timingKept n (hideOutput n)" "endKept n (hideOutput n)"
  by (simp_all add: timingKept_def endKept_def)

lemma nodesEvolve_same:
  assumes "nodes s' = nodes s" "privateOutputs s' = privateOutputs s"
  shows "nodesEvolve s s'"
  using outputIsPrivateLocked_cong [OF assms] assms(1) by (simp add: nodesEvolve_def privacyOK_def)

lemma nodesEvolve_refl [simp]: "nodesEvolve s s"
  by (rule nodesEvolve_same) simp_all

lemma nodesEvolve_cong:
  assumes "nodesEvolve s s1" "nodes s' = nodes s1" "privateOutputs s' = privateOutputs s1"
  shows "nodesEvolve s s'"
proof -
  have o: "outputIsPrivateLocked s' k = outputIsPrivateLocked s1 k" for k
    by (rule outputIsPrivateLocked_cong [OF assms(2,3)])
  have p: "privacyOK s' = privacyOK s1" unfolding privacyOK_def o assms(2) ..
  show ?thesis using assms(1) unfolding nodesEvolve_def o p assms(2) .
qed

lemma rewritesNode_evolves:
  assumes "rewritesNode key n' s s'"
    and "\<And>n. fmlookup (nodes s) key = Some n \<Longrightarrow> timingKept n n' \<and> endKept n n'"
  shows "nodesEvolve s s'"
proof -
  have "privacyOK s'" if "privacyOK s"
    using that assms(1) by (auto simp: privacyOK_def rewritesNode_def split: if_splits)
  then show ?thesis using assms by (auto simp: nodesEvolve_def rewritesNode_def)
qed

lemma preserve_evolves: "nodesEvolve s (snd (preserveOutputPrivacyLocked key r s))"
proof -
  obtain p s1 where p: "preserveOutputPrivacyLocked key r s = (p, s1)" by fastforce
  then have "nodesEvolve s s1"
  proof (cases rule: preserveOutputPrivacyLocked_cases)
    case priv
    have o: "outputIsPrivateLocked s1 k \<longleftrightarrow> outputIsPrivateLocked s k \<or> k = key" for k
      using priv by (auto simp: outputIsPrivateLocked_def split: option.splits)
    have "privacyOK s1" if "privacyOK s"
      using that priv(4) unfolding privacyOK_def o by (auto split: if_splits)
    then show ?thesis using priv(4) o by (auto simp: nodesEvolve_def)
  qed simp
  then show ?thesis using p by simp
qed

text \<open>Keeping the record under the fences: a status other than a terminal one may
  be rewritten freely, with its timing carried over.\<close>

lemma storeNode_evolves:
  assumes "fmlookup (nodes s) key = Some n" "timingKept n cp" "\<not> isTerminalNode (ns_Status n)"
  shows "nodesEvolve s (storeNode key cp s)"
  using assms by (intro rewritesNode_evolves [OF storeNode_rewrites]) (simp add: timingKept_def endKept_def)

lemma keepTiming_hide [simp]: "keepTiming (map_option hideOutput x) n = keepTiming x n"
  by (cases x) (simp_all add: keepTiming_def)

lemma keepTiming_kept: "timingKept x (stampFinished now (keepTiming (Some x) n))"
  by (simp add: timingKept_def keepTiming_def stampFinished_def)

lemma stamp_keep_sel [simp]:
  "ns_Status (stampFinished now n) = ns_Status n" "ns_ActivationID (stampFinished now n) = ns_ActivationID n"
  "ns_Status (keepTiming x n) = ns_Status n" "ns_ActivationID (keepTiming x n) = ns_ActivationID n"
  by (simp_all add: stampFinished_def keepTiming_def split: option.split)

lemma upsertNodeLocked_evolves: "nodesEvolve s (snd (upsertNodeLocked now n s))"
proof -
  define key where "key = memoryNodeKey (ns_ExecutionID n) (ns_Name n)"
  obtain p s1 where p: "preserveOutputPrivacyLocked key (ns_PrivateOutput n) s = (p, s1)" by fastforce
  define n' where "n' = setPrivacy p (stampFinished now (keepTiming (fmlookup (nodes s1) key) n))"
  have lk: "fmlookup (nodes s1) key = (if p then map_option hideOutput (fmlookup (nodes s) key) else fmlookup (nodes s) key)"
    using p by (cases rule: preserveOutputPrivacyLocked_cases) simp_all
  have kt: "keepTiming (fmlookup (nodes s1) key) n = keepTiming (fmlookup (nodes s) key) n" by (simp add: lk)
  have ok: "nodesEvolve s s1" using preserve_evolves [of s key "ns_PrivateOutput n"] p by simp
  have acc: "nodesEvolve s (s1\<lparr>nodes := fmupd key n' (nodes s1)\<rparr>)"
    if "\<And>x. fmlookup (nodes s) key = Some x \<Longrightarrow> isTerminalNode (ns_Status x) \<Longrightarrow> ns_ActivationID n > ns_ActivationID x"
  proof (rule rewritesNode_evolves [OF preserve_then_store [OF p]])
    fix x assume x: "fmlookup (nodes s) key = Some x"
    have "timingKept x n'" using keepTiming_kept [of x now n] x by (simp add: n'_def kt timingKept_def)
    moreover have "endKept x n'" using that [OF x] by (simp add: endKept_def n'_def)
    ultimately show "timingKept x n' \<and> endKept x n'" ..
  qed (simp_all add: n'_def)
  show ?thesis
  proof (cases "fmlookup (nodes s) key")
    case None
    then have "fmlookup (nodes s1) key = None" by (simp add: lk)
    then show ?thesis using acc None by (simp add: upsertNodeLocked_def Let_def key_def [symmetric] p n'_def)
  next
    case (Some x)
    then obtain x' where x': "fmlookup (nodes s1) key = Some x'" "ns_Status x' = ns_Status x" "ns_ActivationID x' = ns_ActivationID x"
      using lk by (cases p) simp_all
    show ?thesis
      using ok acc Some x' by (auto simp: upsertNodeLocked_def Let_def key_def [symmetric] p n'_def)
  qed
qed

lemma upsertNodeLocked_core [simp]: "core (snd (upsertNodeLocked now n s)) = core s"
proof -
  define key where "key = memoryNodeKey (ns_ExecutionID n) (ns_Name n)"
  obtain p s1 where p: "preserveOutputPrivacyLocked key (ns_PrivateOutput n) s = (p, s1)" by fastforce
  then have "core s1 = core s" using preserve_core [of key "ns_PrivateOutput n" s] by simp
  moreover have "core (s1\<lparr>nodes := m\<rparr>) = core s1" for m by (simp add: core_def)
  ultimately show ?thesis
    by (simp add: upsertNodeLocked_def Let_def key_def [symmetric] p split: option.split)
qed

lemma UpsertNode_evolves: "nodesEvolve s (UpsertNode now n s)" "core (UpsertNode now n s) = core s"
  using upsertNodeLocked_evolves [of s now n] upsertNodeLocked_core [of now n s]
  by (auto simp: UpsertNode_def intro: nodesEvolve_cong split: prod.split simp del: upsertNodeLocked_core)

lemma CancelSuspendedNode_evolves:
  "nodesEvolve s (snd (CancelSuspendedNode now eid name s))" "core (snd (CancelSuspendedNode now eid name s)) = core s"
proof -
  define key where "key = memoryNodeKey eid name"
  have "nodesEvolve s (snd (CancelSuspendedNode now eid name s)) \<and> core (snd (CancelSuspendedNode now eid name s)) = core s"
  proof (cases "fmlookup (nodes s) key")
    case (Some ns)
    define cp where "cp = ns\<lparr>ns_Status := NodeStatusCanceled,
      ns_FinishedAt := (if IsZero (ns_FinishedAt ns) then now else ns_FinishedAt ns)\<rparr>"
    have "nodesEvolve s (storeNode key cp s)" if "ns_Status ns = NodeStatusSuspended"
      by (rule storeNode_evolves [OF Some]) (simp_all add: cp_def timingKept_def that isTerminalNode_def)
    then have "nodesEvolve s (mirrorNode eid ((storeNode key cp s)\<lparr>suspended := a, signalSets := b\<rparr>))"
      if "ns_Status ns = NodeStatusSuspended" for a b
      using that by (auto intro: nodesEvolve_cong)
    moreover have "core ((storeNode key cp s)\<lparr>suspended := a, signalSets := b\<rparr>) = core (storeNode key cp s)" for a b
      by (simp add: core_def)
    ultimately show ?thesis
      using Some by (simp add: CancelSuspendedNode_def Let_def key_def [symmetric] cp_def [symmetric])
  qed (simp add: CancelSuspendedNode_def Let_def key_def [symmetric])
  then show "nodesEvolve s (snd (CancelSuspendedNode now eid name s))"
    "core (snd (CancelSuspendedNode now eid name s)) = core s" by simp_all
qed

lemma clearLease_sel [simp]:
  "ns_Status (clearLease n) = ns_Status n" "ns_StartedAt (clearLease n) = ns_StartedAt n"
  "ns_FinishedAt (clearLease n) = ns_FinishedAt n" "ns_ActivationID (clearLease n) = ns_ActivationID n"
  "ns_LeaseToken (clearLease n) = ''''" "ns_Attempt (clearLease n) = ns_Attempt n"
  "ns_PrivateOutput (clearLease n) = ns_PrivateOutput n" "ns_Output (clearLease n) = ns_Output n"
  by (simp_all add: clearLease_def)

lemma nodeLeased_not_terminal: "nodeLeased n \<Longrightarrow> \<not> isTerminalNode (ns_Status n)"
  by (auto simp: nodeLeased_def isTerminalNode_def)

lemma unlease_evolves:
  "fmlookup (nodes s) key = Some ns \<Longrightarrow> nodeLeased ns \<Longrightarrow>
    nodesEvolve s (storeNode key (clearLease (ns\<lparr>ns_Status := NodeStatusPending\<rparr>)) s)"
  by (rule storeNode_evolves, assumption) (simp_all add: timingKept_def nodeLeased_not_terminal)

lemma resetNodeForRetryLocked_evolves:
  "nodesEvolve s (snd (resetNodeForRetryLocked eid name tok s))" "core (snd (resetNodeForRetryLocked eid name tok s)) = core s"
  by (simp_all add: resetNodeForRetryLocked_def Let_def unlease_evolves split: option.split)

lemma revokeLeaseLocked_evolves:
  "nodesEvolve s (snd (revokeLeaseLocked eid name tok s))" "core (snd (revokeLeaseLocked eid name tok s)) = core s"
  by (simp_all add: revokeLeaseLocked_def Let_def unlease_evolves split: option.split)

lemma put_nodes [simp]:
  "nodes (snd (putOutboxEntryLocked now eid e s)) = nodes s"
  "privateOutputs (snd (putOutboxEntryLocked now eid e s)) = privateOutputs s"
  "core (snd (putOutboxEntryLocked now eid e s)) = core s"
  by (simp_all add: putOutboxEntryLocked_def)

lemma putOutboxLocked_nodes [simp]:
  "nodes (snd (putOutboxLocked now eid i t a s)) = nodes s"
  "privateOutputs (snd (putOutboxLocked now eid i t a s)) = privateOutputs s"
  "core (snd (putOutboxLocked now eid i t a s)) = core s"
  by (simp_all add: putOutboxLocked_def)

lemma resetWithOutbox_evolves:
  "nodesEvolve s (snd (ResetNodeForRetryWithOutbox now eid name tok entry s))"
  "core (snd (ResetNodeForRetryWithOutbox now eid name tok entry s)) = core s"
  "nodesEvolve s (snd (RevokeLeaseWithOutbox now eid name tok entry s))"
  "core (snd (RevokeLeaseWithOutbox now eid name tok entry s)) = core s"
  using resetNodeForRetryLocked_evolves [where s = s and eid = eid and name = name and tok = "Some tok"]
    revokeLeaseLocked_evolves [where s = s and eid = eid and name = name and tok = tok]
  by (auto simp: ResetNodeForRetryWithOutbox_def RevokeLeaseWithOutbox_def intro: nodesEvolve_cong split: prod.split bool.split)

lemma leasedNode_sel [simp]:
  "ns_Status (leasedNode lease c p) = NodeStatusRunning" "ns_LeaseToken (leasedNode lease c p) = tl_LeaseToken lease"
  "ns_ActivationID (leasedNode lease c p) = t_ActivationID (tl_Task lease)" "ns_PrivateOutput (leasedNode lease c p) = p"
  "ns_LeaseIssuedAt (leasedNode lease c p) = tl_IssuedAt lease" "ns_LeaseTTL (leasedNode lease c p) = tl_TTL lease"
  "ns_Output (leasedNode lease c p) = None"
  by (simp_all add: leasedNode_def Let_def emptyNode_def)

definition leaseKey :: "TaskLease \<Rightarrow> string" where
  "leaseKey lease = memoryNodeKey (t_ExecutionID (tl_Task lease)) (t_NodeName (tl_Task lease))"

lemma acquireTaskLeaseLocked_cases [consumes 1, case_names refused granted]:
  assumes "acquireTaskLeaseLocked lease s = ((prev, acq), s1)"
  obtains (refused) "\<not> acq" "s1 = s"
  | (granted) p where "acq" "rewritesNode (leaseKey lease) (leasedNode lease (fmlookup (nodes s) (leaseKey lease)) p) s s1"
      "core s1 = core s" "\<not> mapGet False (rolledBack s) (t_ExecutionID (tl_Task lease))"
      "\<And>c. fmlookup (nodes s) (leaseKey lease) = Some c \<Longrightarrow> \<not> acquireRefused lease c"
proof -
  define key where "key = leaseKey lease"
  define cur where "cur = fmlookup (nodes s) key"
  obtain p s2 where p: "preserveOutputPrivacyLocked key False s = (p, s2)" by fastforce
  define s3 where "s3 = s2\<lparr>nodes := fmupd key (leasedNode lease cur p) (nodes s2)\<rparr>"
  note defn = acquireTaskLeaseLocked_def [of lease s, unfolded Let_def, folded leaseKey_def, folded key_def, folded cur_def, unfolded p prod.case, folded s3_def]
  show thesis
  proof (cases "mapGet False (rolledBack s) (t_ExecutionID (tl_Task lease)) \<or> (case cur of None \<Rightarrow> False | Some c \<Rightarrow> acquireRefused lease c)")
    case True
    then show thesis using assms unfolding defn by (intro refused) (auto split: if_splits)
  next
    case False
    then have r: "acq" "s1 = s3" using assms unfolding defn by simp_all
    have "core s2 = core s" using preserve_core [of key False s] p by simp
    then have "core s3 = core s" by (simp add: s3_def core_def)
    moreover have "rewritesNode key (leasedNode lease cur p) s s3"
      unfolding s3_def by (rule preserve_then_store [OF p]) simp_all
    ultimately show thesis using r False by (intro granted [of p]) (simp_all add: key_def [symmetric] cur_def [symmetric])
  qed
qed

lemma acquireTaskLeaseLocked_evolves:
  "nodesEvolve s (snd (acquireTaskLeaseLocked lease s))" "core (snd (acquireTaskLeaseLocked lease s)) = core s"
proof -
  obtain prev acq s1 where a: "acquireTaskLeaseLocked lease s = ((prev, acq), s1)" by (metis surj_pair)
  then have "nodesEvolve s s1 \<and> core s1 = core s"
  proof (cases rule: acquireTaskLeaseLocked_cases)
    case (granted p)
    have "nodesEvolve s s1"
    proof (rule rewritesNode_evolves [OF granted(2)])
      fix n assume n: "fmlookup (nodes s) (leaseKey lease) = Some n"
      have "timingKept n (leasedNode lease (Some n) p)"
        by (simp add: timingKept_def leasedNode_def Let_def)
      moreover have "endKept n (leasedNode lease (Some n) p)"
        using granted(5) [OF n] by (auto simp: endKept_def acquireRefused_def Let_def)
      ultimately show "timingKept n (leasedNode lease (fmlookup (nodes s) (leaseKey lease)) p)
          \<and> endKept n (leasedNode lease (fmlookup (nodes s) (leaseKey lease)) p)" by (simp add: n)
    qed
    then show ?thesis using granted(3) by simp
  qed simp
  then show "nodesEvolve s (snd (acquireTaskLeaseLocked lease s))" "core (snd (acquireTaskLeaseLocked lease s)) = core s"
    by (simp_all add: a)
qed

lemma AcquireTaskLease_evolves:
  "nodesEvolve s (snd (AcquireTaskLease lease s))" "core (snd (AcquireTaskLease lease s)) = core s"
  using acquireTaskLeaseLocked_evolves [where s = s and lease = lease]
  by (auto simp: AcquireTaskLease_def intro: nodesEvolve_cong split: prod.split)

lemma AcquireTaskLeaseChecked_evolves:
  "nodesEvolve s (snd (AcquireTaskLeaseChecked ac lease s))" "core (snd (AcquireTaskLeaseChecked ac lease s)) = core s"
  using acquireTaskLeaseLocked_evolves [where s = s and lease = lease]
  by (auto simp: AcquireTaskLeaseChecked_def Let_def intro: nodesEvolve_cong split: prod.split option.split)

lemma ClaimTaskLease_evolves:
  "nodesEvolve s (snd (ClaimTaskLease lease s))" "core (snd (ClaimTaskLease lease s)) = core s"
proof -
  define key where "key = leaseKey lease"
  have "nodesEvolve s (snd (ClaimTaskLease lease s)) \<and> core (snd (ClaimTaskLease lease s)) = core s"
  proof (cases "fmlookup (nodes s) key")
    case (Some ns)
    have "nodesEvolve s (storeNode key (ns\<lparr>ns_Status := NodeStatusCommitting\<rparr>) s)" if "\<not> isTerminalNode (ns_Status ns)"
      by (rule storeNode_evolves [OF Some]) (simp_all add: timingKept_def that)
    then show ?thesis
      using Some by (simp add: ClaimTaskLease_def Let_def key_def leaseKey_def)
  qed (simp add: ClaimTaskLease_def Let_def key_def leaseKey_def)
  then show "nodesEvolve s (snd (ClaimTaskLease lease s))" "core (snd (ClaimTaskLease lease s)) = core s" by simp_all
qed

lemma RenewTaskLease_evolves:
  "nodesEvolve s (snd (RenewTaskLease now eid name tok deadline s))"
  "core (snd (RenewTaskLease now eid name tok deadline s)) = core s"
proof -
  define key where "key = memoryNodeKey eid name"
  have "nodesEvolve s (s\<lparr>nodes := fmupd key (ns\<lparr>ns_LeaseIssuedAt := i, ns_LeaseTTL := t\<rparr>) (nodes s)\<rparr>)"
    if n: "fmlookup (nodes s) key = Some ns" "ns_Status ns \<in> {NodeStatusRunning, NodeStatusWaiting}" for ns i t
  proof -
    let ?n = "ns\<lparr>ns_LeaseIssuedAt := i, ns_LeaseTTL := t\<rparr>" and ?s = "s\<lparr>nodes := fmupd key (ns\<lparr>ns_LeaseIssuedAt := i, ns_LeaseTTL := t\<rparr>) (nodes s)\<rparr>"
    have o: "outputIsPrivateLocked ?s k = outputIsPrivateLocked s k" for k using n(1) by (auto simp: outputIsPrivateLocked_def)
    have "privacyOK ?s" if "privacyOK s" using that n(1) unfolding privacyOK_def o by auto
    moreover have "timingKept ns ?n" "endKept ns ?n" using n(2) by (auto simp: timingKept_def endKept_def isTerminalNode_def)
    ultimately show ?thesis using n(1) unfolding nodesEvolve_def o by auto
  qed
  then show "nodesEvolve s (snd (RenewTaskLease now eid name tok deadline s))"
    by (auto simp: RenewTaskLease_def Let_def key_def split: option.split)
  show "core (snd (RenewTaskLease now eid name tok deadline s)) = core s"
    by (auto simp: RenewTaskLease_def Let_def core_def split: option.split)
qed

section \<open>The fence\<close>

definition nodeToken :: "memoryState \<Rightarrow> ExecutionID \<times> string \<Rightarrow> LeaseToken option" where
  "nodeToken s k = (case fmlookup (nodes s) (memoryNodeKey (fst k) (snd k)) of
      None \<Rightarrow> None
    | Some n \<Rightarrow> if nodeLeased n \<and> ns_LeaseToken n \<noteq> '''' then Some (ns_LeaseToken n) else None)"

definition leaseNode :: "TaskLease \<Rightarrow> ExecutionID \<times> string" where
  "leaseNode lease = (t_ExecutionID (tl_Task lease), t_NodeName (tl_Task lease))"

definition grantNode :: "TaskLease \<Rightarrow> memoryState \<Rightarrow> bool \<times> memoryState" where
  "grantNode lease s = (snd (fst (acquireTaskLeaseLocked lease s)), snd (acquireTaskLeaseLocked lease s))"

lemma grantNode_token:
  assumes "grantNode lease s = (True, s')" "tl_LeaseToken lease \<noteq> ''''"
  shows "nodeToken s' (leaseNode lease) = Some (tl_LeaseToken lease)"
proof -
  obtain prev acq s1 where a: "acquireTaskLeaseLocked lease s = ((prev, acq), s1)" by (metis surj_pair)
  then have b: "acq" "s1 = s'" using assms(1) by (simp_all add: grantNode_def)
  from a show ?thesis
  proof (cases rule: acquireTaskLeaseLocked_cases)
    case (granted p)
    then show ?thesis
      using b assms(2) by (simp add: rewritesNode_def nodeToken_def leaseNode_def leaseKey_def nodeLeased_def)
  qed (use b in simp)
qed

interpretation node_revoke: lease_fence nodeToken leaseNode tl_LeaseToken grantNode "\<lambda>k. revokeLeaseLocked (fst k) (snd k)"
  by unfold_locales
    (erule (1) grantNode_token, auto simp: revokeLeaseLocked_def nodeToken_def Let_def split: option.splits if_splits)

interpretation node_reset: lease_fence nodeToken leaseNode tl_LeaseToken grantNode
    "\<lambda>k t. resetNodeForRetryLocked (fst k) (snd k) (Some t)"
  by unfold_locales
    (erule (1) grantNode_token, auto simp: resetNodeForRetryLocked_def nodeToken_def Let_def split: option.splits if_splits)

interpretation node_renew: lease_fence nodeToken leaseNode tl_LeaseToken grantNode
    "\<lambda>k t. RenewTaskLease now (fst k) (snd k) t deadline" for now deadline
  by unfold_locales
    (erule (1) grantNode_token, auto simp: RenewTaskLease_def nodeToken_def nodeLeased_def Let_def split: option.splits if_splits)

text \<open>C23. Node leases are fenced: once a lease with a new token was granted, the
  runner that held the node before cannot renew, revoke or reset the lease with
  its old token; each of its calls is refused and leaves the store as it is.\<close>

theorem stale_node_token:
  assumes "acquireTaskLeaseLocked lease s = ((prev, True), s1)" "tl_LeaseToken lease \<noteq> ''''"
    and "old \<noteq> tl_LeaseToken lease" "eid = t_ExecutionID (tl_Task lease)" "name = t_NodeName (tl_Task lease)"
  shows "RenewTaskLease now eid name old deadline s1 = (False, s1)
    \<and> revokeLeaseLocked eid name old s1 = (False, s1)
    \<and> resetNodeForRetryLocked eid name (Some old) s1 = (False, s1)"
proof -
  have "grantNode lease s = (True, s1)" using assms(1) by (simp add: grantNode_def)
  then show ?thesis
    using node_renew.stale_refused [OF _ assms(2,3)] node_revoke.stale_refused [OF _ assms(2,3)]
      node_reset.stale_refused [OF _ assms(2,3)] assms(4,5)
    by (simp add: leaseNode_def)
qed

text \<open>C24. A node lease is exclusive: while the lease granted to one runner has
  not run out, no other lease for the node is granted, and the attempt changes
  nothing.\<close>

theorem node_lease_exclusive:
  assumes "acquireTaskLeaseLocked lease s = ((prev, True), s1)" "tl_LeaseToken lease \<noteq> ''''"
    and "t_ExecutionID (tl_Task lease') = t_ExecutionID (tl_Task lease)"
    and "t_NodeName (tl_Task lease') = t_NodeName (tl_Task lease)"
    and "tl_IssuedAt lease' < tl_IssuedAt lease + tl_TTL lease"
  shows "\<exists>prev'. acquireTaskLeaseLocked lease' s1 = ((prev', False), s1)"
proof -
  from assms(1) obtain p where n: "fmlookup (nodes s1) (leaseKey lease) =
      Some (leasedNode lease (fmlookup (nodes s) (leaseKey lease)) p)"
    by (cases rule: acquireTaskLeaseLocked_cases) (auto simp: rewritesNode_def)
  have k: "leaseKey lease' = leaseKey lease" using assms(3,4) by (simp add: leaseKey_def)
  obtain prev' acq s2 where a: "acquireTaskLeaseLocked lease' s1 = ((prev', acq), s2)" by (metis surj_pair)
  have "acquireRefused lease' (leasedNode lease (fmlookup (nodes s) (leaseKey lease)) p)"
    using assms(2,5) by (simp add: acquireRefused_def leaseHeld_def)
  with a n k have "\<not> acq \<and> s2 = s1"
    by (cases rule: acquireTaskLeaseLocked_cases) auto
  then show ?thesis using a by auto
qed

lemma storeNode_lookup:
  "fmlookup (nodes (storeNode key cp s)) key = Some (setPrivacy (ns_PrivateOutput cp \<or> outputIsPrivateLocked s key) cp)"
  using storeNode_rewrites [of key cp s] by (simp add: rewritesNode_def)

lemma storeNode_sel [simp]: "rolledBack (storeNode key cp s) = rolledBack s" "outbox (storeNode key cp s) = outbox s"
  by (simp_all add: storeNode_def preserveOutputPrivacyLocked_def Let_def split: option.split)

lemma putOutboxLocked_rolledBack [simp]: "rolledBack (snd (putOutboxLocked now eid i t a s)) = rolledBack s"
  by (simp add: putOutboxLocked_def putOutboxEntryLocked_def)

lemma putOutboxLocked_written:
  assumes "i \<noteq> ''''"
  shows "hasKey (outboxOf (snd (putOutboxLocked now eid i t a s)) eid) i"
  using assms by (simp add: putOutboxLocked_def putOutboxEntryLocked_def mkOutboxEntry_def outboxOf_def hasKey_def)

lemma acquire_pending:
  assumes "acquireTaskLeaseLocked lease s = ((prev, acq), s1)" "fmlookup (nodes s) (leaseKey lease) = Some c"
    and "ns_Status c = NodeStatusPending" "ns_ActivationID c = t_ActivationID (tl_Task lease)"
    and "\<not> mapGet False (rolledBack s) (t_ExecutionID (tl_Task lease))"
  shows "acq" "map_option ns_Attempt (fmlookup (nodes s1) (leaseKey lease)) = Some (ns_Attempt c + 1)"
proof -
  have "\<not> acquireRefused lease c"
    using assms(3,4) by (simp add: acquireRefused_def isTerminalNode_def leaseHeld_def Let_def)
  then show "acq"
    using assms by (simp add: acquireTaskLeaseLocked_def Let_def leaseKey_def split: prod.splits)
  with assms(1) show "map_option ns_Attempt (fmlookup (nodes s1) (leaseKey lease)) = Some (ns_Attempt c + 1)"
    by (cases rule: acquireTaskLeaseLocked_cases)
      (simp_all add: rewritesNode_def assms(2,4) leasedNode_def Let_def)
qed

lemma acquire_rolledBack:
  "acquireTaskLeaseLocked lease s = ((prev, acq), s1) \<Longrightarrow> rolledBack s1 = rolledBack s"
  by (auto simp: acquireTaskLeaseLocked_def preserveOutputPrivacyLocked_def Let_def split: if_splits option.splits)

lemma in_set_map_filter: "x \<in> set (List.map_filter f xs) \<longleftrightarrow> (\<exists>k\<in>set xs. f k = Some x)"
  by (induction xs) (auto simp: List.map_filter_simps split: option.split)

lemma acquire_sweepable:
  assumes "acquireTaskLeaseLocked lease s = ((prev, True), s1)"
    and "\<not> IsZero (tl_IssuedAt lease)" "0 < tl_TTL lease" "tl_IssuedAt lease + tl_TTL lease \<le> t"
    and "leaseKey lease \<in> set nodeOrder"
  shows "\<exists>x\<in>set (ListExpiredLeases s1 nodeOrder groupOrder t). xl_ExecutionID x = t_ExecutionID (tl_Task lease)
    \<and> xl_NodeName x = t_NodeName (tl_Task lease) \<and> xl_LeaseToken x = tl_LeaseToken lease"
proof -
  from assms(1) obtain p where n: "fmlookup (nodes s1) (leaseKey lease) =
      Some (leasedNode lease (fmlookup (nodes s) (leaseKey lease)) p)"
    by (cases rule: acquireTaskLeaseLocked_cases) (auto simp: rewritesNode_def)
  define n where "n = leasedNode lease (fmlookup (nodes s) (leaseKey lease)) p"
  have "nodeExpired t n" using assms(2-4) by (simp add: nodeExpired_def nodeLeased_def n_def)
  then have "expiredOfNode n \<in> set (ListExpiredLeases s1 nodeOrder groupOrder t)"
    using assms(5) n unfolding ListExpiredLeases_def by (auto simp: in_set_map_filter n_def)
  moreover have "ns_ExecutionID n = t_ExecutionID (tl_Task lease)" "ns_Name n = t_NodeName (tl_Task lease)"
    by (simp_all add: n_def leasedNode_def Let_def)
  ultimately show ?thesis by (intro bexI [of _ "expiredOfNode n"]) (simp_all add: expiredOfNode_def n_def)
qed

text \<open>C25. A task is not lost with its runner.  When a lease has run out, the sweep
  lists it with its token; revoking with that token succeeds and writes the
  delivery intent in the same step; and the next lease of the same activation is
  granted, one attempt later.\<close>

theorem expired_lease_recovered:
  assumes a: "acquireTaskLeaseLocked lease s = ((prev, True), s1)"
    and tok: "tl_LeaseToken lease \<noteq> ''''" and timed: "\<not> IsZero (tl_IssuedAt lease)" "0 < tl_TTL lease"
    and due: "tl_IssuedAt lease + tl_TTL lease \<le> t" and order: "leaseKey lease \<in> set nodeOrder"
    and eid: "eid = t_ExecutionID (tl_Task lease)" and name: "name = t_NodeName (tl_Task lease)"
    and entry: "oe_ID entry \<noteq> ''''" and again: "tl_Task lease' = tl_Task lease"
    and s2: "RevokeLeaseWithOutbox now eid name (tl_LeaseToken lease) entry s1 = (b, s2)"
    and s3: "acquireTaskLeaseLocked lease' s2 = ((prev2, acq), s3)"
  shows "(\<exists>x\<in>set (ListExpiredLeases s1 nodeOrder groupOrder t).
            xl_ExecutionID x = eid \<and> xl_NodeName x = name \<and> xl_LeaseToken x = tl_LeaseToken lease)
    \<and> b \<and> hasKey (outboxOf s2 eid) (oe_ID entry) \<and> acq
    \<and> map_option ns_Attempt (fmlookup (nodes s3) (leaseKey lease))
      = map_option (\<lambda>n. ns_Attempt n + 1) (fmlookup (nodes s1) (leaseKey lease))"
proof -
  define key where "key = leaseKey lease"
  have key: "memoryNodeKey eid name = key" "leaseKey lease' = key" by (simp_all add: key_def leaseKey_def eid name again)
  from a obtain p where n1: "fmlookup (nodes s1) key = Some (leasedNode lease (fmlookup (nodes s) key) p)"
      and live: "\<not> mapGet False (rolledBack s1) eid"
    using acquire_rolledBack [OF a] by (cases rule: acquireTaskLeaseLocked_cases) (auto simp: key_def eid rewritesNode_def)
  define n where "n = leasedNode lease (fmlookup (nodes s) key) p"
  define cp where "cp = clearLease (n\<lparr>ns_Status := NodeStatusPending\<rparr>)"
  have "revokeLeaseLocked eid name (tl_LeaseToken lease) s1 = (True, storeNode key cp s1)"
    using n1 tok by (simp add: revokeLeaseLocked_def Let_def key n_def [symmetric] cp_def)
      (simp add: nodeLeased_def n_def)
  then have r: "b" "s2 = snd (putOutboxLocked now eid (oe_ID entry) (oe_Task entry) (oe_AvailableAt entry) (storeNode key cp s1))"
    using s2 by (auto simp: RevokeLeaseWithOutbox_def)
  have "fmlookup (nodes s2) key = Some (setPrivacy (ns_PrivateOutput cp \<or> outputIsPrivateLocked s1 key) cp)"
    by (simp add: r(2) storeNode_lookup)
  note acq = acquire_pending [OF s3, unfolded key, OF this]
  have "acq" "map_option ns_Attempt (fmlookup (nodes s3) key) = Some (ns_Attempt n + 1)"
    using acq live again by (simp_all add: cp_def r(2) eid n_def)
  then show ?thesis
    using acquire_sweepable [OF a timed due order] putOutboxLocked_written [OF entry] r n1
    by (simp add: eid name key_def n_def)
qed

section \<open>A leased store\<close>

definition sampleLease :: "LeaseToken \<Rightarrow> Time \<Rightarrow> TaskLease" where
  "sampleLease tok at = \<lparr> tl_LeaseID = tok, tl_LeaseToken = tok, tl_Attempt = 1,
     tl_Task = emptyTask\<lparr>t_ExecutionID := ''ex'', t_NodeName := ''a'', t_ActivationID := 1\<rparr>,
     tl_IssuedAt = at, tl_TTL = 30, tl_ExecutionDeadline = zeroTime \<rparr>"

definition sampleLeased :: memoryState where
  "sampleLeased = snd (acquireTaskLeaseLocked (sampleLease ''t1'' 100) (newMemoryState False))"

theorem stale_node_token_witness:
  "RenewTaskLease 200 ''ex'' ''a'' ''t1'' 300 (snd (acquireTaskLeaseLocked (sampleLease ''t2'' 140) sampleLeased))
    = (False, snd (acquireTaskLeaseLocked (sampleLease ''t2'' 140) sampleLeased))"
proof -
  have g: "fst (acquireTaskLeaseLocked (sampleLease ''t2'' 140) sampleLeased) =
      (fst (fst (acquireTaskLeaseLocked (sampleLease ''t2'' 140) sampleLeased)), True)"
    by code_simp
  show ?thesis
    by (rule stale_node_token [of "sampleLease ''t2'' 140" sampleLeased, THEN conjunct1])
      (use g in \<open>auto simp: sampleLease_def prod_eq_iff\<close>)
qed

theorem node_lease_exclusive_witness:
  "\<exists>prev. acquireTaskLeaseLocked (sampleLease ''t2'' 120) sampleLeased = ((prev, False), sampleLeased)"
proof -
  have g: "snd (fst (acquireTaskLeaseLocked (sampleLease ''t1'' 100) (newMemoryState False)))" by code_simp
  show ?thesis
    by (rule node_lease_exclusive [of "sampleLease ''t1'' 100" "newMemoryState False"])
      (use g in \<open>auto simp: sampleLease_def sampleLeased_def prod_eq_iff\<close>)
qed

theorem expired_lease_recovered_witness:
  "hasKey (outboxOf (snd (RevokeLeaseWithOutbox 200 ''ex'' ''a'' ''t1'' sampleEntry sampleLeased)) ''ex'') (oe_ID sampleEntry)
   \<and> snd (fst (acquireTaskLeaseLocked (sampleLease ''t2'' 200)
        (snd (RevokeLeaseWithOutbox 200 ''ex'' ''a'' ''t1'' sampleEntry sampleLeased))))"
proof -
  have g: "snd (fst (acquireTaskLeaseLocked (sampleLease ''t1'' 100) (newMemoryState False)))" by code_simp
  let ?r = "RevokeLeaseWithOutbox 200 ''ex'' ''a'' ''t1'' sampleEntry sampleLeased"
  let ?a = "acquireTaskLeaseLocked (sampleLease ''t2'' 200) (snd ?r)"
  have "(\<exists>x\<in>set (ListExpiredLeases sampleLeased [leaseKey (sampleLease ''t1'' 100)] [] 200).
            xl_ExecutionID x = ''ex'' \<and> xl_NodeName x = ''a'' \<and> xl_LeaseToken x = tl_LeaseToken (sampleLease ''t1'' 100))
    \<and> fst ?r \<and> hasKey (outboxOf (snd ?r) ''ex'') (oe_ID sampleEntry) \<and> snd (fst ?a)
    \<and> map_option ns_Attempt (fmlookup (nodes (snd ?a)) (leaseKey (sampleLease ''t1'' 100)))
      = map_option (\<lambda>n. ns_Attempt n + 1) (fmlookup (nodes sampleLeased) (leaseKey (sampleLease ''t1'' 100)))"
    by (rule expired_lease_recovered [of "sampleLease ''t1'' 100" "newMemoryState False" _ sampleLeased 200 _ _ _ _ "sampleLease ''t2'' 200" 200])
      (use g in \<open>auto simp: sampleLease_def sampleLeased_def sampleEntry_def mkOutboxEntry_def zeroTime_def IsZero_def prod_eq_iff\<close>)
  then show ?thesis by simp
qed

end
