(* ===== verification/Signals.thy ===== *)
theory Signals
  imports NodeLeases
begin

text \<open>
  Suspension and signals in the local store (\<open>memory_state.go\<close>, from
  \<open>SuspendTaskLease\<close> to \<open>GetSubExecutionResults\<close>) and the delivery intents of a
  suspension (\<open>engine/atomic.go\<close>): a node parks on signal names, a signal wakes
  the node that waits for it or is kept until a node asks for it, and a node in
  multi-signal mode collects signals up to a quorum.

  The loops over the map of suspended nodes follow Go's unspecified iteration
  order, which is the argument \<open>order\<close> of the operations.  A suspend
  specification is a pointer of the source; the operations that dereference it
  without a check take the specification itself.
\<close>

section \<open>Delivery intents of a suspension\<close>

definition resumeOutboxID :: "TaskLease \<Rightarrow> string \<Rightarrow> string" where
  "resumeOutboxID lease kind =
     intentID ''resume'' (t_ExecutionID (tl_Task lease)) (t_NodeName (tl_Task lease)) (t_ActivationID (tl_Task lease))
       @ ''/'' @ tl_LeaseID lease @ ''/'' @ kind"

definition SuspendResumeOutboxEntry :: "TaskLease \<Rightarrow> string \<Rightarrow> SignalPayload option \<Rightarrow> Time \<Rightarrow> OutboxEntry" where
  "SuspendResumeOutboxEntry lease kind payload avail =
     (let t = tl_Task lease
      in mkOutboxEntry (resumeOutboxID lease kind)
           (emptyTask\<lparr>t_ExecutionID := t_ExecutionID t, t_NodeName := t_NodeName t, t_NodeIdx := t_NodeIdx t,
              t_UnitIdx := t_UnitIdx t, t_Type := TaskTypeNodeResume, t_Payload := payload,
              t_ActivationID := t_ActivationID t\<rparr>)
           avail)"

definition wakeup :: "SignalTrigger \<Rightarrow> string \<Rightarrow> SignalPayload option" where
  "wakeup trigger name = Some \<lparr>sp_Triggered = trigger, sp_Name = name, sp_Data = None, sp_All = None\<rparr>"

definition SuspendOutboxEntries :: "Time \<Rightarrow> TaskLease option \<Rightarrow> SuspendSpec option \<Rightarrow> SignalPayload option \<Rightarrow>
    Time \<Rightarrow> OutboxEntry list" where
  "SuspendOutboxEntries clock lease spec payload at =
     (case (lease, spec) of
        (Some l, Some sp) \<Rightarrow>
          let now = (if IsZero at then clock else at)
          in if payload \<noteq> None then [SuspendResumeOutboxEntry l ''signal'' payload now]
             else (if ss_Mode sp = ModeTimer
                     then [SuspendResumeOutboxEntry l ''timer'' (wakeup TimerFired ''_timer'') (now + ss_Timer sp)] else [])
                @ (if ss_Timeout sp > 0
                     then [SuspendResumeOutboxEntry l ''timeout'' (wakeup TimeoutFired ''_timeout'') (now + ss_Timeout sp)] else [])
      | _ \<Rightarrow> [])"

section \<open>Multi-signal collection\<close>

definition mapLen :: "('k::linorder, 'v) fmap \<Rightarrow> int" where
  "mapLen m = int (length (sortedKeys m))"

definition signalQuorum :: "SuspendSpec option \<Rightarrow> int" where
  "signalQuorum spec = (case spec of
      None \<Rightarrow> 1
    | Some sp \<Rightarrow> if ss_Quorum sp > 0 then ss_Quorum sp
                 else if ss_Signals sp \<noteq> [] then int (length (ss_Signals sp))
                 else 1)"

text \<open>The copy of a nil payload is an empty map.\<close>

definition cloneSignalSet :: "(string, data) fmap \<Rightarrow> (string, data) fmap" where
  "cloneSignalSet m = fmmap (\<lambda>d. Some (case d of None \<Rightarrow> fmempty | Some x \<Rightarrow> x)) m"

definition received :: "string \<Rightarrow> data \<Rightarrow> SignalPayload" where
  "received name d = \<lparr>sp_Triggered = SignalReceived, sp_Name = name, sp_Data = d, sp_All = None\<rparr>"

definition addMultiSignalLocked :: "ExecutionID \<Rightarrow> string \<Rightarrow> string \<Rightarrow> data \<Rightarrow> SuspendSpec \<Rightarrow> memoryState \<Rightarrow>
    SignalPayload option \<times> memoryState" where
  "addMultiSignalLocked eid nodeName signalName d spec s =
     (let key = memoryNodeKey eid nodeName;
          collected = fmupd signalName d (mapGet fmempty (signalSets s) key);
          s1 = s\<lparr>signalSets := fmupd key collected (signalSets s)\<rparr>
      in if mapLen collected < signalQuorum (Some spec) then (None, s1)
         else (Some ((received signalName d)\<lparr>sp_All := Some (cloneSignalSet collected)\<rparr>), s1))"

section \<open>Pre-delivered signals\<close>

definition dropSignal :: "string \<Rightarrow> memoryState \<Rightarrow> memoryState" where
  "dropSignal key s = s\<lparr>signals := fmdrop key (signals s)\<rparr>"

fun takeSignal :: "ExecutionID \<Rightarrow> string list \<Rightarrow> memoryState \<Rightarrow> SignalPayload option \<times> memoryState" where
  "takeSignal eid [] s = (None, s)"
| "takeSignal eid (sig # sigs) s = (case fmlookup (signals s) (memoryNodeKey eid sig) of
      None \<Rightarrow> takeSignal eid sigs s
    | Some d \<Rightarrow> (Some (received sig d), dropSignal (memoryNodeKey eid sig) s))"

fun takeSignals :: "ExecutionID \<Rightarrow> string \<Rightarrow> SuspendSpec \<Rightarrow> string list \<Rightarrow> memoryState \<Rightarrow>
    SignalPayload option \<times> memoryState" where
  "takeSignals eid name spec [] s = (None, s)"
| "takeSignals eid name spec (sig # sigs) s = (case fmlookup (signals s) (memoryNodeKey eid sig) of
      None \<Rightarrow> takeSignals eid name spec sigs s
    | Some d \<Rightarrow> (case addMultiSignalLocked eid name sig d spec (dropSignal (memoryNodeKey eid sig) s) of
        (None, s1) \<Rightarrow> takeSignals eid name spec sigs s1
      | (Some p, s1) \<Rightarrow> (Some p, s1\<lparr>signalSets := fmdrop (memoryNodeKey eid name) (signalSets s1)\<rparr>)))"

definition park :: "string \<Rightarrow> SuspendSpec \<Rightarrow> memoryState \<Rightarrow> memoryState" where
  "park key spec s = s\<lparr>resumed := fmdrop key (resumed s), suspended := fmupd key spec (suspended s)\<rparr>"

definition suspendOrConsumeMultiLocked :: "ExecutionID \<Rightarrow> string \<Rightarrow> SuspendSpec \<Rightarrow> memoryState \<Rightarrow>
    SignalPayload option \<times> memoryState" where
  "suspendOrConsumeMultiLocked eid nodeName spec s =
     (case takeSignals eid nodeName spec (ss_Signals spec) s of
        (Some p, s1) \<Rightarrow> (Some p, s1)
      | (None, s1) \<Rightarrow> (None, park (memoryNodeKey eid nodeName) spec s1))"

definition SuspendOrConsume :: "ExecutionID \<Rightarrow> string \<Rightarrow> SuspendSpec \<Rightarrow> memoryState \<Rightarrow> SignalPayload option \<times> memoryState" where
  "SuspendOrConsume eid name spec s =
     (if ss_Mode spec = ModeMultiSignal then suspendOrConsumeMultiLocked eid name spec s
      else case takeSignal eid (ss_Signals spec) s of
        (Some p, s1) \<Rightarrow> (Some p, s1)
      | (None, s1) \<Rightarrow> (None, park (memoryNodeKey eid name) spec s1))"

section \<open>Suspending a leased node\<close>

definition claims :: "TaskLease \<Rightarrow> NodeSnapshot \<Rightarrow> bool" where
  "claims lease n \<longleftrightarrow> ns_Status n = NodeStatusCommitting \<and> ns_LeaseID n = tl_LeaseID lease
     \<and> ns_LeaseToken n = tl_LeaseToken lease \<and> ns_Attempt n = tl_Attempt lease
     \<and> ns_ActivationID n = t_ActivationID (tl_Task lease)"

definition putAll :: "Time \<Rightarrow> ExecutionID \<Rightarrow> OutboxEntry list \<Rightarrow> memoryState \<Rightarrow> memoryState" where
  "putAll now eid entries s =
     fold (\<lambda>e s. snd (putOutboxLocked now eid (oe_ID e) (oe_Task e) (oe_AvailableAt e) s)) entries s"

text \<open>\<open>now\<close> is the clock of the intents' availability; the clock of their creation,
  read later in the same section, is \<open>now'\<close>.\<close>

definition SuspendTaskLease :: "Time \<Rightarrow> Time \<Rightarrow> TaskLease option \<Rightarrow> data \<Rightarrow> bool \<Rightarrow> bool \<Rightarrow> SuspendSpec option \<Rightarrow> string \<Rightarrow>
    memoryState \<Rightarrow> (StoreError, SignalPayload option \<times> bool) result \<times> memoryState" where
  "SuspendTaskLease now now' leaseP output storeOutput privateOutput specP oldSignalName s =
     (case (leaseP, specP) of
        (Some lease, Some spec) \<Rightarrow>
          let eid = t_ExecutionID (tl_Task lease); name = t_NodeName (tl_Task lease);
              key = memoryNodeKey eid name
          in (case fmlookup (nodes s) key of
                None \<Rightarrow> (Inr (None, False), s)
              | Some node \<Rightarrow>
                  if \<not> claims lease node then (Inr (None, False), s)
                  else case preserveOutputPrivacyLocked key privateOutput s of
                    (p, s1) \<Rightarrow>
                      let s2 = (if storeOutput then s1\<lparr>outputs := fmupd key output (outputs s1)\<rparr> else s1);
                          s3 = s2\<lparr>resumed := fmdrop key (resumed s2)\<rparr>;
                          s4 = (if oldSignalName \<noteq> '''' then s3\<lparr>suspended := fmdrop key (suspended s3)\<rparr> else s3)
                      in (case (if ss_Mode spec = ModeMultiSignal then takeSignals eid name spec (ss_Signals spec) s4
                                else takeSignal eid (ss_Signals spec) s4) of
                            (payload, s5) \<Rightarrow>
                              let s6 = s5\<lparr>suspended := (case payload of None \<Rightarrow> fmupd key spec (suspended s5)
                                                           | Some _ \<Rightarrow> fmdrop key (suspended s5))\<rparr>;
                                  cp = setPrivacy p (clearLease (node\<lparr>ns_Status := NodeStatusSuspended\<rparr>));
                                  s7 = s6\<lparr>nodes := fmupd key cp (nodes s6)\<rparr>
                              in (Inr (payload, True),
                                  putAll now' eid (SuspendOutboxEntries now' leaseP specP payload now) s7)))
      | _ \<Rightarrow> (Inl ErrInvalidLeaseToken, s))"

definition SuspendTaskLeaseWithOutbox :: "Time \<Rightarrow> Time \<Rightarrow> TaskLease option \<Rightarrow> data \<Rightarrow> bool \<Rightarrow> bool \<Rightarrow> SuspendSpec option \<Rightarrow>
    string \<Rightarrow> memoryState \<Rightarrow> (StoreError, bool) result \<times> memoryState" where
  "SuspendTaskLeaseWithOutbox now now' leaseP output storeOutput privateOutput specP oldSignalName s =
     (case SuspendTaskLease now now' leaseP output storeOutput privateOutput specP oldSignalName s of
        (Inl e, s1) \<Rightarrow> (Inl e, s1)
      | (Inr (_, committed), s1) \<Rightarrow> (Inr committed, s1))"

section \<open>Delivering signals\<close>

definition mirrorSaveSignal :: "ExecutionID \<Rightarrow> memoryState \<Rightarrow> memoryState" where
  "mirrorSaveSignal eid s = (case beginMirrorMode eid False s of
      (False, s1) \<Rightarrow> s1 | (True, s1) \<Rightarrow> finishMirror eid s1)"

definition mirrorRevokeSignal :: "ExecutionID \<Rightarrow> memoryState \<Rightarrow> memoryState" where
  "mirrorRevokeSignal eid s = (case beginMirrorMode eid False s of
      (False, s1) \<Rightarrow> s1 | (True, s1) \<Rightarrow> finishMirror eid s1)"

definition waits :: "ExecutionID \<Rightarrow> string \<Rightarrow> memoryState \<Rightarrow> string \<Rightarrow> bool" where
  "waits eid sig s key \<longleftrightarrow> hasPrefix key (eid @ ''/'') \<and>
     (case fmlookup (suspended s) key of None \<Rightarrow> False | Some spec \<Rightarrow> sig \<in> set (ss_Signals spec))"

definition storeSignal :: "ExecutionID \<Rightarrow> string \<Rightarrow> data \<Rightarrow> memoryState \<Rightarrow> memoryState" where
  "storeSignal eid sig d s = s\<lparr>signals := fmupd (memoryNodeKey eid sig) d (signals s)\<rparr>"

definition wake :: "string \<Rightarrow> memoryState \<Rightarrow> memoryState" where
  "wake key s = s\<lparr>suspended := fmdrop key (suspended s), signalSets := fmdrop key (signalSets s)\<rparr>"

definition DeliverSignal :: "string list \<Rightarrow> ExecutionID \<Rightarrow> string \<Rightarrow> data \<Rightarrow> memoryState \<Rightarrow>
    (string \<times> SignalPayload option) \<times> memoryState" where
  "DeliverSignal order eid sig d s =
     (case find (waits eid sig s) order of
        None \<Rightarrow> (('''', None), mirrorSaveSignal eid (storeSignal eid sig d s))
      | Some key \<Rightarrow>
          let name = trimPrefix key (eid @ ''/''); spec = the (fmlookup (suspended s) key)
          in if ss_Mode spec = ModeMultiSignal then
               (case addMultiSignalLocked eid name sig d spec s of
                  (None, s1) \<Rightarrow> (('''', None), s1)
                | (Some p, s1) \<Rightarrow> ((name, Some p), wake key s1))
             else ((name, None), s\<lparr>suspended := fmdrop key (suspended s)\<rparr>))"

definition PeekResumeTarget :: "string list \<Rightarrow> memoryState \<Rightarrow> ExecutionID \<Rightarrow> string \<Rightarrow> string" where
  "PeekResumeTarget order s eid sig = (case find (waits eid sig s) order of
      None \<Rightarrow> '''' | Some key \<Rightarrow> trimPrefix key (eid @ ''/''))"

record ResumeIntent =
  ri_NodeName :: string
  ri_NodeIdx :: int
  ri_UnitIdx :: int
  ri_ActivationID :: int
  ri_AutoDepth :: int

definition signalResumeID :: "ExecutionID \<Rightarrow> string \<Rightarrow> int \<Rightarrow> string" where
  "signalResumeID eid name activationID = intentID ''resume'' eid name activationID @ ''/signal''"

definition scheduleResumeOutbox :: "Time \<Rightarrow> ExecutionID \<Rightarrow> string \<Rightarrow> ResumeIntent \<Rightarrow> SignalPayload \<Rightarrow> memoryState \<Rightarrow>
    memoryState" where
  "scheduleResumeOutbox now eid nodeName intent payload s =
     (let activationID = (case fmlookup (nodes s) (memoryNodeKey eid nodeName) of
                            None \<Rightarrow> ri_ActivationID intent | Some n \<Rightarrow> ns_ActivationID n);
          task = emptyTask\<lparr>t_ExecutionID := eid, t_NodeName := nodeName, t_NodeIdx := ri_NodeIdx intent,
                   t_UnitIdx := ri_UnitIdx intent, t_Type := TaskTypeNodeResume, t_Payload := Some payload,
                   t_ActivationID := activationID, t_AutoDepth := ri_AutoDepth intent\<rparr>
      in snd (putOutboxLocked now eid (signalResumeID eid nodeName activationID) task now s))"

definition DeliverSignalWithOutbox :: "Time \<Rightarrow> string list \<Rightarrow> ExecutionID \<Rightarrow> string \<Rightarrow> data \<Rightarrow> ResumeIntent \<Rightarrow> memoryState \<Rightarrow>
    (string \<times> SignalPayload option \<times> bool) \<times> memoryState" where
  "DeliverSignalWithOutbox now order eid sig d intent s =
     (if ri_NodeName intent = '''' then (('''', None, False), storeSignal eid sig d s)
      else case find (waits eid sig s) order of
        None \<Rightarrow> (('''', None, False), storeSignal eid sig d s)
      | Some key \<Rightarrow>
          let nodeName = trimPrefix key (eid @ ''/''); spec = the (fmlookup (suspended s) key)
          in if ss_Mode spec = ModeMultiSignal then
               (case addMultiSignalLocked eid nodeName sig d spec s of
                  (None, s1) \<Rightarrow> (('''', None, False), s1)
                | (Some p, s1) \<Rightarrow> ((nodeName, Some p, True), scheduleResumeOutbox now eid nodeName intent p (wake key s1)))
             else
               let p = received sig d
               in ((nodeName, Some p, True),
                   scheduleResumeOutbox now eid nodeName intent p (s\<lparr>suspended := fmdrop key (suspended s)\<rparr>)))"

definition AcquireResumeLock :: "ExecutionID \<Rightarrow> string \<Rightarrow> memoryState \<Rightarrow> bool \<times> memoryState" where
  "AcquireResumeLock eid name s =
     (let key = memoryNodeKey eid name
      in if mapGet False (resumed s) key then (False, s)
         else (True, s\<lparr>resumed := fmupd key True (resumed s)\<rparr>))"

definition RevokeSignal :: "ExecutionID \<Rightarrow> string \<Rightarrow> memoryState \<Rightarrow> bool \<times> memoryState" where
  "RevokeSignal eid sig s =
     (let sigKey = memoryNodeKey eid sig
      in if \<not> hasKey (signals s) sigKey then (False, s)
         else if list_ex (\<lambda>key. waits eid sig s key \<and> mapGet False (resumed s) key) (sortedKeys (suspended s))
           then (False, s)
         else (True, mirrorRevokeSignal eid (dropSignal sigKey s)))"

definition ResuspendAtomic :: "ExecutionID \<Rightarrow> string \<Rightarrow> string \<Rightarrow> SuspendSpec \<Rightarrow> memoryState \<Rightarrow>
    SignalPayload option \<times> memoryState" where
  "ResuspendAtomic eid nodeName newSignalName spec s =
     (let key = memoryNodeKey eid nodeName;
          s1 = s\<lparr>resumed := fmdrop key (resumed s), suspended := fmdrop key (suspended s)\<rparr>;
          newSigKey = memoryNodeKey eid newSignalName
      in case fmlookup (signals s1) newSigKey of
           Some d \<Rightarrow> (Some (received newSignalName d), dropSignal newSigKey s1)
         | None \<Rightarrow> (None, s1\<lparr>suspended := fmupd key spec (suspended s1)\<rparr>))"

definition ListSuspendedNodes :: "string list \<Rightarrow> memoryState \<Rightarrow> ExecutionID \<Rightarrow> string list" where
  "ListSuspendedNodes order s eid =
     map (\<lambda>key. trimPrefix key (eid @ ''/''))
       (filter (\<lambda>key. hasKey (suspended s) key \<and> hasPrefix key (eid @ ''/'')) order)"

section \<open>Outputs and sub-executions\<close>

definition PutOutput :: "ExecutionID \<Rightarrow> string \<Rightarrow> data \<Rightarrow> memoryState \<Rightarrow> memoryState" where
  "PutOutput eid name d s =
     (let key = memoryNodeKey eid name; s1 = snd (preserveOutputPrivacyLocked key False s)
      in s1\<lparr>outputs := fmupd key d (outputs s1)\<rparr>)"

definition GetOutput :: "memoryState \<Rightarrow> ExecutionID \<Rightarrow> string \<Rightarrow> data" where
  "GetOutput s eid name = mapGet None (outputs s) (memoryNodeKey eid name)"

definition GetOutputs :: "memoryState \<Rightarrow> ExecutionID \<Rightarrow> string list \<Rightarrow> (string, data) fmap" where
  "GetOutputs s eid names =
     fold (\<lambda>name m. case fmlookup (outputs s) (eid @ ''/'' @ name) of None \<Rightarrow> m | Some d \<Rightarrow> fmupd name d m) names fmempty"

definition GetAllOutputs :: "memoryState \<Rightarrow> ExecutionID \<Rightarrow> (string, data) fmap" where
  "GetAllOutputs s eid =
     fold (\<lambda>key m. if hasPrefix key (eid @ ''/'') \<and> \<not> outputIsPrivateLocked s key
                   then fmupd (trimPrefix key (eid @ ''/'')) (mapGet None (outputs s) key) m else m)
       (sortedKeys (outputs s)) fmempty"

definition CreateSubExecution :: "SubExecution \<Rightarrow> memoryState \<Rightarrow> memoryState" where
  "CreateSubExecution sub s =
     (let key = memoryNodeKey (sx_ParentExecID sub) (sx_ParentNode sub)
      in s\<lparr>subExecs := fmupd key (mapGet [] (subExecs s) key @ [sub]) (subExecs s)\<rparr>)"

definition completeSub :: "ExecutionID \<Rightarrow> ExecutionStatus \<Rightarrow> data \<Rightarrow> SubExecution \<Rightarrow> SubExecution" where
  "completeSub child status result sub =
     (if sx_ChildExecID sub = child then sub\<lparr>sx_Status := status, sx_Result := result\<rparr> else sub)"

definition CompleteSubExecution :: "ExecutionID \<Rightarrow> string \<Rightarrow> ExecutionID \<Rightarrow> ExecutionStatus \<Rightarrow> data \<Rightarrow> memoryState \<Rightarrow>
    bool \<times> memoryState" where
  "CompleteSubExecution parent parentNode child status result s =
     (let key = memoryNodeKey parent parentNode
      in case fmlookup (subExecs s) key of
           None \<Rightarrow> (True, s)
         | Some subs \<Rightarrow>
             let subs' = map (completeSub child status result) subs
             in (list_all (\<lambda>sub. IsTerminalExecutionStatus (sx_Status sub)) subs',
                 s\<lparr>subExecs := fmupd key subs' (subExecs s)\<rparr>))"

definition GetSubExecutionResults :: "memoryState \<Rightarrow> ExecutionID \<Rightarrow> string \<Rightarrow> data list" where
  "GetSubExecutionResults s parent parentNode =
     filter (\<lambda>r. r \<noteq> None) (map sx_Result (mapGet [] (subExecs s) (memoryNodeKey parent parentNode)))"

section \<open>What the signal operations leave alone\<close>

lemma core_upd [simp]:
  "core (s\<lparr>signals := a\<rparr>) = core s" "core (s\<lparr>signalSets := b\<rparr>) = core s" "core (s\<lparr>suspended := c\<rparr>) = core s"
  "core (s\<lparr>resumed := e\<rparr>) = core s" "core (s\<lparr>outputs := f\<rparr>) = core s" "core (s\<lparr>nodes := g\<rparr>) = core s"
  "core (s\<lparr>subExecs := h\<rparr>) = core s"
  by (simp_all add: core_def)

lemma addMulti_frame [simp]:
  "core (snd (addMultiSignalLocked eid n sig d spec s)) = core s"
  "nodes (snd (addMultiSignalLocked eid n sig d spec s)) = nodes s"
  "privateOutputs (snd (addMultiSignalLocked eid n sig d spec s)) = privateOutputs s"
  "suspended (snd (addMultiSignalLocked eid n sig d spec s)) = suspended s"
  "signals (snd (addMultiSignalLocked eid n sig d spec s)) = signals s"
  "outbox (snd (addMultiSignalLocked eid n sig d spec s)) = outbox s"
  by (simp_all add: addMultiSignalLocked_def Let_def)

lemma addMulti_eq:
  assumes "addMultiSignalLocked eid n sig d spec s = (p, s1)"
  shows "core s1 = core s" "nodes s1 = nodes s" "privateOutputs s1 = privateOutputs s" "suspended s1 = suspended s"
    "signals s1 = signals s" "outbox s1 = outbox s"
  using addMulti_frame [where s = s and eid = eid and n = n and sig = sig and d = d and spec = spec] assms by simp_all

lemma dropSignal_frame [simp]:
  "core (dropSignal k s) = core s" "nodes (dropSignal k s) = nodes s" "privateOutputs (dropSignal k s) = privateOutputs s"
  "outbox (dropSignal k s) = outbox s" "suspended (dropSignal k s) = suspended s"
  by (simp_all add: dropSignal_def)

lemma takeSignal_frame [simp]:
  "core (snd (takeSignal eid sigs s)) = core s" "nodes (snd (takeSignal eid sigs s)) = nodes s"
  "privateOutputs (snd (takeSignal eid sigs s)) = privateOutputs s" "outbox (snd (takeSignal eid sigs s)) = outbox s"
  "suspended (snd (takeSignal eid sigs s)) = suspended s"
  by (induction sigs) (simp_all split: option.split)

definition sameNodes :: "memoryState \<Rightarrow> memoryState \<Rightarrow> bool" where
  "sameNodes s s' \<longleftrightarrow> core s' = core s \<and> nodes s' = nodes s \<and> privateOutputs s' = privateOutputs s
     \<and> outbox s' = outbox s"

lemma takeSignals_same: "sameNodes s (snd (takeSignals eid name spec sigs s))"
proof (induction sigs arbitrary: s)
  case (Cons sig sigs)
  show ?case
  proof (cases "fmlookup (signals s) (memoryNodeKey eid sig)")
    case None
    then show ?thesis using Cons.IH by simp
  next
    case (Some d)
    obtain p s1 where a: "addMultiSignalLocked eid name sig d spec (dropSignal (memoryNodeKey eid sig) s) = (p, s1)" by fastforce
    then have "sameNodes s s1"
      by (simp add: addMulti_eq sameNodes_def)
    then show ?thesis using Cons.IH [of s1] Some a by (cases p) (simp_all add: sameNodes_def)
  qed
qed (simp add: sameNodes_def)

lemma park_frame [simp]:
  "core (park k spec s) = core s" "nodes (park k spec s) = nodes s" "privateOutputs (park k spec s) = privateOutputs s"
  "outbox (park k spec s) = outbox s" "signals (park k spec s) = signals s"
  by (simp_all add: park_def)

lemma SuspendOrConsume_same: "sameNodes s (snd (SuspendOrConsume eid name spec s))"
  using takeSignals_same [of s eid name spec "ss_Signals spec"] takeSignal_frame [where s = s and eid = eid and sigs = "ss_Signals spec"]
  by (auto simp: SuspendOrConsume_def suspendOrConsumeMultiLocked_def sameNodes_def split: prod.splits option.splits
      simp del: takeSignal_frame)

lemma sameNodes_evolves: "sameNodes s s' \<Longrightarrow> nodesEvolve s s'"
  by (rule nodesEvolve_same) (simp_all add: sameNodes_def)

lemma mirrorSignal_is [simp]: "mirrorSaveSignal = mirrorNode" "mirrorRevokeSignal = mirrorNode"
  by (simp_all add: fun_eq_iff mirrorSaveSignal_def mirrorRevokeSignal_def mirrorNode_def)

lemma storeSignal_frame [simp]:
  "core (storeSignal eid sig d s) = core s" "nodes (storeSignal eid sig d s) = nodes s"
  "privateOutputs (storeSignal eid sig d s) = privateOutputs s" "outbox (storeSignal eid sig d s) = outbox s"
  "suspended (storeSignal eid sig d s) = suspended s"
  by (simp_all add: storeSignal_def)

lemma wake_frame [simp]:
  "core (wake k s) = core s" "nodes (wake k s) = nodes s" "privateOutputs (wake k s) = privateOutputs s"
  "outbox (wake k s) = outbox s" "suspended (wake k s) = fmdrop k (suspended s)"
  by (simp_all add: wake_def)

lemma mirrorNode_frame [simp]:
  "outbox (mirrorNode eid s) = outbox s" "signals (mirrorNode eid s) = signals s" "suspended (mirrorNode eid s) = suspended s"
  by (auto simp: mirrorNode_def beginMirrorMode_def finishMirror_def pruneMirrorStateLocked_def Let_def split: prod.splits if_splits)

lemma DeliverSignal_same: "sameNodes s (snd (DeliverSignal order eid sig d s))"
  by (auto simp: DeliverSignal_def sameNodes_def Let_def addMulti_eq split: prod.splits option.splits)

lemma RevokeSignal_same: "sameNodes s (snd (RevokeSignal eid sig s))"
  by (simp add: RevokeSignal_def sameNodes_def Let_def)

lemma ResuspendAtomic_same: "sameNodes s (snd (ResuspendAtomic eid name sig spec s))"
  by (simp add: ResuspendAtomic_def sameNodes_def Let_def split: option.split)

lemma AcquireResumeLock_same: "sameNodes s (snd (AcquireResumeLock eid name s))"
  by (simp add: AcquireResumeLock_def sameNodes_def Let_def)

lemma SubExecution_same:
  "sameNodes s (CreateSubExecution sub s)" "sameNodes s (snd (CompleteSubExecution parent pn child status result s))"
  by (simp_all add: CreateSubExecution_def CompleteSubExecution_def sameNodes_def Let_def split: option.split)

lemma scheduleResume_frame [simp]:
  "core (scheduleResumeOutbox now eid n i p s) = core s" "nodes (scheduleResumeOutbox now eid n i p s) = nodes s"
  "privateOutputs (scheduleResumeOutbox now eid n i p s) = privateOutputs s"
  "suspended (scheduleResumeOutbox now eid n i p s) = suspended s"
  "signals (scheduleResumeOutbox now eid n i p s) = signals s"
  by (simp_all add: scheduleResumeOutbox_def Let_def putOutboxLocked_def putOutboxEntryLocked_def core_def)

lemma DeliverSignalWithOutbox_frame:
  "core (snd (DeliverSignalWithOutbox now order eid sig d i s)) = core s"
  "nodes (snd (DeliverSignalWithOutbox now order eid sig d i s)) = nodes s"
  "privateOutputs (snd (DeliverSignalWithOutbox now order eid sig d i s)) = privateOutputs s"
  by (auto simp: DeliverSignalWithOutbox_def Let_def addMulti_eq split: prod.splits option.splits)

lemma PutOutput_evolves: "nodesEvolve s (PutOutput eid name d s)" "core (PutOutput eid name d s) = core s"
  using preserve_evolves [of s "memoryNodeKey eid name" False]
  by (auto simp: PutOutput_def Let_def intro: nodesEvolve_cong)

lemma putAll_frame [simp]:
  "core (putAll now eid es s) = core s" "nodes (putAll now eid es s) = nodes s"
  "privateOutputs (putAll now eid es s) = privateOutputs s" "suspended (putAll now eid es s) = suspended s"
  unfolding putAll_def
  by (rule fold_same; simp add: putOutboxLocked_def putOutboxEntryLocked_def core_def)+

lemma put_keeps_key:
  "hasKey (outboxOf s e) k \<Longrightarrow> hasKey (outboxOf (snd (putOutboxLocked now eid i t a s)) e) k"
  by (auto simp: putOutboxLocked_def putOutboxEntryLocked_lookup hasKey_def)

lemma putAll_keeps: "hasKey (outboxOf s e) k \<Longrightarrow> hasKey (outboxOf (putAll now eid es s) e) k"
  unfolding putAll_def by (induction es arbitrary: s) (simp_all add: put_keeps_key)

lemma putAll_written: "x \<in> set es \<Longrightarrow> oe_ID x \<noteq> '''' \<Longrightarrow> hasKey (outboxOf (putAll now eid es s) eid) (oe_ID x)"
proof (induction es arbitrary: s)
  case (Cons y es)
  let ?s = "snd (putOutboxLocked now eid (oe_ID y) (oe_Task y) (oe_AvailableAt y) s)"
  have eq: "putAll now eid (y # es) s = putAll now eid es ?s" by (simp add: putAll_def)
  show ?case
  proof (cases "x = y")
    case True
    then show ?thesis unfolding eq using Cons.prems(2) putAll_keeps putOutboxLocked_written by metis
  qed (use Cons in \<open>simp add: eq\<close>)
qed simp

lemma resumeOutboxID_nonempty [simp]: "resumeOutboxID l kind \<noteq> ''''"
  by (simp add: resumeOutboxID_def intentID_def)

lemma SuspendResumeOutboxEntry_ID [simp]: "oe_ID (SuspendResumeOutboxEntry l kind p t) = resumeOutboxID l kind"
  by (simp add: SuspendResumeOutboxEntry_def Let_def mkOutboxEntry_def)

section \<open>A leased node suspends once\<close>

lemma take_frame:
  assumes "(if m then takeSignals eid name spec sigs s else takeSignal eid sigs s) = (payload, s')"
  shows "core s' = core s" "nodes s' = nodes s" "privateOutputs s' = privateOutputs s"
  using takeSignals_same [of s eid name spec sigs] takeSignal_frame [where s = s and eid = eid and sigs = sigs] assms
  by (auto simp: sameNodes_def split: if_splits simp del: takeSignal_frame)

lemma SuspendTaskLease_cases [consumes 1, case_names nil refused committed]:
  assumes "SuspendTaskLease now now' leaseP output storeOutput privateOutput specP old s = (r, s')"
  obtains (nil) "leaseP = None \<or> specP = None" "r = Inl ErrInvalidLeaseToken" "s' = s"
  | (refused) "r = Inr (None, False)" "s' = s"
      "\<And>l n. leaseP = Some l \<Longrightarrow> fmlookup (nodes s) (leaseKey l) = Some n \<Longrightarrow> \<not> claims l n"
  | (committed) l spec n p payload where "leaseP = Some l" "specP = Some spec" "r = Inr (payload, True)"
      "fmlookup (nodes s) (leaseKey l) = Some n" "claims l n"
      "rewritesNode (leaseKey l) (setPrivacy p (clearLease (n\<lparr>ns_Status := NodeStatusSuspended\<rparr>))) s s'"
      "core s' = core s"
      "fmlookup (suspended s') (leaseKey l) = (case payload of None \<Rightarrow> Some spec | Some _ \<Rightarrow> None)"
      "\<And>x. x \<in> set (SuspendOutboxEntries now' leaseP specP payload now) \<Longrightarrow>
         hasKey (outboxOf s' (t_ExecutionID (tl_Task l))) (oe_ID x)"
proof -
  show thesis
  proof (cases "leaseP = None \<or> specP = None")
    case True
    then show thesis using assms by (intro nil) (auto simp: SuspendTaskLease_def split: option.splits)
  next
    case False
    then obtain l spec where ls: "leaseP = Some l" "specP = Some spec" by auto
    define key where "key = leaseKey l"
    define eid where "eid = t_ExecutionID (tl_Task l)"
    define name where "name = t_NodeName (tl_Task l)"
    note defn = assms [unfolded SuspendTaskLease_def ls Let_def, simplified option.case prod.case,
        folded leaseKey_def, folded key_def eid_def name_def]
    show thesis
    proof (cases "\<exists>n. fmlookup (nodes s) key = Some n \<and> claims l n")
      case False
      then show thesis using defn ls by (intro refused) (auto simp: key_def split: option.splits if_splits)
    next
      case True
      then obtain n where n: "fmlookup (nodes s) key = Some n" "claims l n" by auto
      obtain p s1 where p: "preserveOutputPrivacyLocked key privateOutput s = (p, s1)" by fastforce
      define s2 where "s2 = (if storeOutput then s1\<lparr>outputs := fmupd key output (outputs s1)\<rparr> else s1)"
      define s3 where "s3 = s2\<lparr>resumed := fmdrop key (resumed s2)\<rparr>"
      define s4 where "s4 = (if old \<noteq> '''' then s3\<lparr>suspended := fmdrop key (suspended s3)\<rparr> else s3)"
      obtain payload s5 where t: "(if ss_Mode spec = ModeMultiSignal then takeSignals eid name spec (ss_Signals spec) s4
          else takeSignal eid (ss_Signals spec) s4) = (payload, s5)" by fastforce
      define s6 where "s6 = s5\<lparr>suspended := (case payload of None \<Rightarrow> fmupd key spec (suspended s5)
          | Some _ \<Rightarrow> fmdrop key (suspended s5))\<rparr>"
      define cp where "cp = setPrivacy p (clearLease (n\<lparr>ns_Status := NodeStatusSuspended\<rparr>))"
      define s7 where "s7 = s6\<lparr>nodes := fmupd key cp (nodes s6)\<rparr>"
      note fr = take_frame [OF t]
      have s4: "core s4 = core s1" "nodes s4 = nodes s1" "privateOutputs s4 = privateOutputs s1"
        by (simp_all add: s4_def s3_def s2_def)
      have r: "r = Inr (payload, True)" "s' = putAll now' eid (SuspendOutboxEntries now' leaseP specP payload now) s7"
        using defn unfolding n(1) option.case p prod.case s2_def [symmetric] s3_def [symmetric] s4_def [symmetric] t
          s6_def [symmetric] cp_def [symmetric] s7_def [symmetric] using n(2) by (simp_all add: ls)
      have rw: "rewritesNode key cp s (s1\<lparr>nodes := fmupd key cp (nodes s1)\<rparr>)"
        by (rule preserve_then_store [OF p]) (simp_all add: cp_def)
      have "rewritesNode key cp s s'"
        by (rule rewritesNode_cong [OF rw]) (simp_all add: r(2) s7_def s6_def fr s4)
      moreover have "core s' = core s"
        using preserve_core [of key privateOutput s] p by (simp add: r(2) s7_def s6_def fr s4)
      moreover have "fmlookup (suspended s') key = (case payload of None \<Rightarrow> Some spec | Some _ \<Rightarrow> None)"
        by (simp add: r(2) s7_def s6_def split: option.split)
      moreover have "hasKey (outboxOf s' eid) (oe_ID x)"
        if "x \<in> set (SuspendOutboxEntries now' leaseP specP payload now)" for x
        unfolding r(2) using that
        by (intro putAll_written) (auto simp: SuspendOutboxEntries_def Let_def split: option.splits if_splits)
      ultimately show thesis
        using ls r(1) n by (intro committed) (auto simp: key_def eid_def cp_def)
    qed
  qed
qed

lemma SuspendTaskLease_evolves:
  "nodesEvolve s (snd (SuspendTaskLease now now' l out st pr spec old s))"
  "core (snd (SuspendTaskLease now now' l out st pr spec old s)) = core s"
proof -
  obtain r s' where a: "SuspendTaskLease now now' l out st pr spec old s = (r, s')" by fastforce
  then have "nodesEvolve s s' \<and> core s' = core s"
  proof (cases rule: SuspendTaskLease_cases)
    case (committed lease spec n p payload)
    have "nodesEvolve s s'"
      by (rule rewritesNode_evolves [OF committed(6)])
        (use committed(4,5) in \<open>auto simp: timingKept_def endKept_def claims_def isTerminalNode_def\<close>)
    then show ?thesis using committed(7) by simp
  qed simp_all
  then show "nodesEvolve s (snd (SuspendTaskLease now now' l out st pr spec old s))"
    "core (snd (SuspendTaskLease now now' l out st pr spec old s)) = core s" by (simp_all add: a)
qed

text \<open>C26. A claimed lease is parked once, and never without a way to wake: when the
  suspension commits, the node is suspended with its lease cleared and either
  waits for its signals or, when a signal was there already, has a resume intent
  in the outbox; a timer and a timeout have their intents; and the same lease
  cannot suspend the node again.\<close>

theorem suspend_commits_once:
  assumes "SuspendTaskLease now now' (Some lease) output storeOutput privateOutput (Some spec) old s = (Inr (payload, True), s')"
    and "eid = t_ExecutionID (tl_Task lease)"
  shows "map_option ns_Status (fmlookup (nodes s') (leaseKey lease)) = Some NodeStatusSuspended
    \<and> map_option ns_LeaseToken (fmlookup (nodes s') (leaseKey lease)) = Some ''''
    \<and> fmlookup (suspended s') (leaseKey lease) = (case payload of None \<Rightarrow> Some spec | Some _ \<Rightarrow> None)
    \<and> (payload \<noteq> None \<longrightarrow> hasKey (outboxOf s' eid) (resumeOutboxID lease ''signal''))
    \<and> (payload = None \<and> ss_Mode spec = ModeTimer \<longrightarrow> hasKey (outboxOf s' eid) (resumeOutboxID lease ''timer''))
    \<and> (payload = None \<and> ss_Timeout spec > 0 \<longrightarrow> hasKey (outboxOf s' eid) (resumeOutboxID lease ''timeout''))
    \<and> SuspendTaskLease t t' (Some lease) output' storeOutput' privateOutput' (Some spec') old' s' = (Inr (None, False), s')"
  using assms(1)
proof (cases rule: SuspendTaskLease_cases)
  case (committed l sp n p pl)
  have n': "fmlookup (nodes s') (leaseKey lease) = Some (setPrivacy p (clearLease (n\<lparr>ns_Status := NodeStatusSuspended\<rparr>)))"
    using committed(1,6) by (simp add: rewritesNode_def)
  have w: "hasKey (outboxOf s' eid) k" if "k \<in> oe_ID ` set (SuspendOutboxEntries now' (Some lease) (Some spec) payload now)" for k
    using committed that assms(2) by auto
  have "hasKey (outboxOf s' eid) (resumeOutboxID lease ''signal'')" if "payload \<noteq> None"
    by (rule w) (simp add: that SuspendOutboxEntries_def Let_def)
  moreover have "hasKey (outboxOf s' eid) (resumeOutboxID lease ''timer'')" if "payload = None" "ss_Mode spec = ModeTimer"
    by (rule w) (simp add: that SuspendOutboxEntries_def Let_def)
  moreover have "hasKey (outboxOf s' eid) (resumeOutboxID lease ''timeout'')" if "payload = None" "ss_Timeout spec > 0"
    by (rule w) (simp add: that SuspendOutboxEntries_def Let_def)
  moreover have "SuspendTaskLease t t' (Some lease) output' storeOutput' privateOutput' (Some spec') old' s' = (Inr (None, False), s')"
    using n' by (simp add: SuspendTaskLease_def Let_def leaseKey_def claims_def)
  moreover have "l = lease" "sp = spec" "pl = payload" using committed(1-3) by simp_all
  ultimately show ?thesis using n' committed(8) by (simp split: option.splits)
qed simp_all

section \<open>No signal is lost\<close>

lemma fmdrop_upd [simp]: "fmdrop k (fmupd k v m) = fmdrop k m"
  by (rule fmap_ext) simp

lemma find_unique:
  assumes "k \<in> set order" "\<And>k'. P k' \<longleftrightarrow> k' = k"
  shows "find P order = Some k"
  using assms(1) by (induction order) (auto simp: assms(2))

lemma find_None_all: "(\<And>k. \<not> P k) \<Longrightarrow> find P order = None"
  by (induction order) auto

lemma takeSignal_none:
  "(\<And>x. x \<in> set sigs \<Longrightarrow> fmlookup (signals s) (memoryNodeKey eid x) = None) \<Longrightarrow> takeSignal eid sigs s = (None, s)"
  by (induction sigs) simp_all

lemma takeSignal_only:
  assumes "sig \<in> set sigs" "\<And>x. x \<in> set sigs \<Longrightarrow> x \<noteq> sig \<Longrightarrow> fmlookup (signals s) (memoryNodeKey eid x) = None"
    and "fmlookup (signals s) (memoryNodeKey eid sig) = Some d"
  shows "takeSignal eid sigs s = (Some (received sig d), dropSignal (memoryNodeKey eid sig) s)"
  using assms(1,2)
proof (induction sigs)
  case (Cons x sigs)
  show ?case
  proof (cases "x = sig")
    case False
    then show ?thesis using Cons by simp
  qed (simp add: assms(3))
qed simp

lemma trimPrefix_key [simp]: "trimPrefix (memoryNodeKey eid name) (eid @ ''/'') = name"
  using trimPrefix_append [of "eid @ ''/''" name] by (simp add: memoryNodeKey_def)

lemma hasPrefix_key [simp]: "hasPrefix (memoryNodeKey eid name) (eid @ ''/'')"
  using hasPrefix_append [of "eid @ ''/''" name] by (simp add: memoryNodeKey_def)

lemma waits_key: "waits eid sig s key \<Longrightarrow> \<exists>name. key = memoryNodeKey eid name"
  by (auto simp: waits_def hasPrefix_iff memoryNodeKey_def)

text \<open>C27. A signal and the node that waits for it meet in either order, for a node that
  waits for any one of its signals (not in multi-signal mode), when none of these
  signals is stored yet and no other node waits for the delivered one.  When the node
  parks first, the delivery names that node and returns no payload, since its caller
  has the data; when the signal comes first, the node takes it, with its data, instead
  of parking.  Either way neither a waiter nor the signal is left behind, in whatever
  order the map of suspended nodes is walked.\<close>

theorem signal_meets_waiter:
  assumes mode: "ss_Mode spec \<noteq> ModeMultiSignal" and sig: "sig \<in> set (ss_Signals spec)"
    and none: "\<And>x. x \<in> set (ss_Signals spec) \<Longrightarrow> fmlookup (signals s) (memoryNodeKey eid x) = None"
    and alone: "\<And>k. \<not> waits eid sig s k" and order: "memoryNodeKey eid name \<in> set order"
  shows "fst (SuspendOrConsume eid name spec s) = None
    \<and> fst (DeliverSignal order eid sig d (snd (SuspendOrConsume eid name spec s))) = (name, None)
    \<and> suspended (snd (DeliverSignal order eid sig d (snd (SuspendOrConsume eid name spec s))))
      = fmdrop (memoryNodeKey eid name) (suspended s)
    \<and> signals (snd (DeliverSignal order eid sig d (snd (SuspendOrConsume eid name spec s)))) = signals s
    \<and> fst (SuspendOrConsume eid name spec (snd (DeliverSignal order eid sig d s))) = Some (received sig d)
    \<and> suspended (snd (SuspendOrConsume eid name spec (snd (DeliverSignal order eid sig d s)))) = suspended s
    \<and> signals (snd (SuspendOrConsume eid name spec (snd (DeliverSignal order eid sig d s)))) = signals s"
proof -
  define key where "key = memoryNodeKey eid name"
  have a: "SuspendOrConsume eid name spec s = (None, park key spec s)"
    using mode takeSignal_none [OF none] by (simp add: SuspendOrConsume_def key_def)
  have w: "waits eid sig (park key spec s) k \<longleftrightarrow> k = key" for k
    using alone [of k] sig by (auto simp: waits_def park_def key_def)
  have f: "find (waits eid sig (park key spec s)) order = Some key"
    by (rule find_unique) (use order w in \<open>auto simp: key_def\<close>)
  have b: "DeliverSignal order eid sig d (park key spec s)
      = ((name, None), (park key spec s)\<lparr>suspended := fmdrop key (suspended (park key spec s))\<rparr>)"
    unfolding DeliverSignal_def f using mode by (simp add: Let_def park_def key_def)
  have "find (waits eid sig s) order = None" by (rule find_None_all) (rule alone)
  then have c: "snd (DeliverSignal order eid sig d s) = mirrorNode eid (storeSignal eid sig d s)"
    by (simp add: DeliverSignal_def)
  have "takeSignal eid (ss_Signals spec) (mirrorNode eid (storeSignal eid sig d s)) =
      (Some (received sig d), dropSignal (memoryNodeKey eid sig) (mirrorNode eid (storeSignal eid sig d s)))"
    by (rule takeSignal_only [OF sig]) (simp_all add: storeSignal_def none)
  then have e: "SuspendOrConsume eid name spec (mirrorNode eid (storeSignal eid sig d s)) =
      (Some (received sig d), dropSignal (memoryNodeKey eid sig) (mirrorNode eid (storeSignal eid sig d s)))"
    using mode by (simp add: SuspendOrConsume_def)
  have "fmdrop (memoryNodeKey eid sig) (signals s) = signals s" by (rule fmap_ext) (simp add: none [OF sig])
  then show ?thesis
    unfolding a c fst_conv snd_conv e b
    by (simp add: dropSignal_def storeSignal_def park_def key_def)
qed

text \<open>The activation a resume intent is written for: the node's live one.\<close>

definition liveActivation :: "memoryState \<Rightarrow> ExecutionID \<Rightarrow> string \<Rightarrow> ResumeIntent \<Rightarrow> int" where
  "liveActivation s eid node intent = (case fmlookup (nodes s) (memoryNodeKey eid node) of
      None \<Rightarrow> ri_ActivationID intent | Some n \<Rightarrow> ns_ActivationID n)"

text \<open>What the outbox \<open>ob'\<close> has after the resume intent was written to \<open>ob\<close>.\<close>

definition resumeWritten :: "ExecutionID \<Rightarrow> string \<Rightarrow> int \<Rightarrow> SignalPayload \<Rightarrow> (string, memoryOutboxEntry) fmap \<Rightarrow>
    (string, memoryOutboxEntry) fmap \<Rightarrow> bool" where
  "resumeWritten eid node a p ob ob' \<longleftrightarrow>
     (let i = signalResumeID eid node a
      in (\<forall>j. j \<noteq> i \<longrightarrow> fmlookup ob' j = fmlookup ob j)
        \<and> (case fmlookup ob i of
             Some e \<Rightarrow> fmlookup ob' i = Some e
           | None \<Rightarrow> (\<exists>e. fmlookup ob' i = Some e \<and> t_Type (oe_Task (mo_entry e)) = TaskTypeNodeResume
               \<and> t_Payload (oe_Task (mo_entry e)) = Some p \<and> t_NodeName (oe_Task (mo_entry e)) = node
               \<and> t_ActivationID (oe_Task (mo_entry e)) = a)))"

lemma scheduleResume_written:
  assumes "nodes st = nodes s" "outbox st = outbox s"
  shows "resumeWritten eid node (liveActivation s eid node intent) p (outboxOf s eid)
    (outboxOf (scheduleResumeOutbox now eid node intent p st) eid)"
proof -
  have "signalResumeID eid node a \<noteq> ''''" for a by (simp add: signalResumeID_def)
  moreover have "outboxOf st eid = outboxOf s eid" using assms(2) by (simp add: outboxOf_def)
  ultimately show ?thesis using assms(1)
    by (simp add: resumeWritten_def scheduleResumeOutbox_def liveActivation_def [symmetric] Let_def putOutboxLocked_def
        putOutboxEntryLocked_lookup mkOutboxEntry_def newOutboxEntry_def split: option.split)
qed

text \<open>C28. The durable delivery of a signal commits or keeps it.  When it commits, the
  named node waited for the signal and waits no more, and the outbox has an intent
  under the resume identifier of the node's live activation: a new one that carries
  the signal, when there was none under that identifier, and otherwise the earlier
  one, unchanged, so that the delivered signal is then in no intent; no other intent
  changes.  When it does not commit, no waiter is consumed, no intent is written, and
  the signal is stored or counted towards the quorum of the node that waits for
  it.\<close>

theorem durable_delivery:
  assumes "DeliverSignalWithOutbox now order eid sig d intent s = ((node, payload, committed), s')"
  shows "(committed \<longrightarrow>
      waits eid sig s (memoryNodeKey eid node) \<and> suspended s' = fmdrop (memoryNodeKey eid node) (suspended s)
      \<and> (\<exists>p. payload = Some p \<and> sp_Name p = sig \<and> sp_Data p = d
           \<and> resumeWritten eid node (liveActivation s eid node intent) p (outboxOf s eid) (outboxOf s' eid)))
    \<and> (\<not> committed \<longrightarrow> suspended s' = suspended s \<and> outbox s' = outbox s
      \<and> (fmlookup (signals s') (memoryNodeKey eid sig) = Some d
         \<or> (\<exists>k c. waits eid sig s k \<and> fmlookup (signalSets s') k = Some c \<and> fmlookup c sig = Some d)))"
proof -
  show ?thesis
  proof (cases "ri_NodeName intent = '''' \<or> find (waits eid sig s) order = None")
    case True
    then have "\<not> committed \<and> s' = storeSignal eid sig d s" using assms(1) by (auto simp: DeliverSignalWithOutbox_def split: if_splits)
    then show ?thesis by (simp add: storeSignal_def)
  next
    case False
    then obtain key where f: "find (waits eid sig s) order = Some key" and i: "ri_NodeName intent \<noteq> ''''" by auto
    then have w: "waits eid sig s key" by (auto simp: find_Some_iff)
    from waits_key [OF this] obtain name where key: "key = memoryNodeKey eid name" by blast
    define spec where "spec = the (fmlookup (suspended s) key)"
    obtain q s1 where a: "addMultiSignalLocked eid name sig d spec s = (q, s1)" by fastforce
    note defn = assms(1) [unfolded DeliverSignalWithOutbox_def f option.case Let_def, folded spec_def, unfolded key trimPrefix_key a]
    consider (single) "ss_Mode spec \<noteq> ModeMultiSignal" | (partial) "ss_Mode spec = ModeMultiSignal" "q = None"
      | (quorum) p where "ss_Mode spec = ModeMultiSignal" "q = Some p" by fastforce
    then show ?thesis
    proof cases
      case single
      then show ?thesis using defn i w scheduleResume_written [where s = s and st = "s\<lparr>suspended := fmdrop key (suspended s)\<rparr>" and p = "received sig d"]
        by (auto simp: key received_def)
    next
      case partial
      then have r: "\<not> committed" "s' = s1" using defn i by simp_all
      obtain c where "fmlookup (signalSets s1) key = Some c" "fmlookup c sig = Some d"
        using a by (auto simp: addMultiSignalLocked_def Let_def key split: if_splits)
      then show ?thesis using r w a by (auto simp: addMulti_eq)
    next
      case (quorum p)
      have "sp_Name p = sig \<and> sp_Data p = d"
        using a quorum(2) by (auto simp: addMultiSignalLocked_def Let_def received_def split: if_splits)
      then show ?thesis using defn quorum i w a scheduleResume_written [where s = s and st = "wake key s1" and p = p]
        by (auto simp: key addMulti_eq)
    qed
  qed
qed

text \<open>The resume intent of a signal is named by node and activation only.  While
  an earlier one is still in the outbox, a delivery to the node that suspended
  again in the same activation consumes the waiter and writes nothing.\<close>

lemma resume_intent_collides:
  assumes "ss_Mode spec \<noteq> ModeMultiSignal" "sig \<in> set (ss_Signals spec)" "ri_NodeName intent \<noteq> ''''"
    and "fmlookup (suspended s) (memoryNodeKey eid name) = Some spec" "memoryNodeKey eid name \<in> set order"
    and "\<And>k. waits eid sig s k \<Longrightarrow> k = memoryNodeKey eid name"
    and "fmlookup (nodes s) (memoryNodeKey eid name) = Some n"
    and "hasKey (outboxOf s eid) (signalResumeID eid name (ns_ActivationID n))"
  shows "DeliverSignalWithOutbox now order eid sig d intent s =
    ((name, Some (received sig d), True), s\<lparr>suspended := fmdrop (memoryNodeKey eid name) (suspended s)\<rparr>)"
proof -
  have "waits eid sig s k \<longleftrightarrow> k = memoryNodeKey eid name" for k
    using assms(2,4,6) by (auto simp: waits_def)
  then have f: "find (waits eid sig s) order = Some (memoryNodeKey eid name)"
    by (intro find_unique) (use assms(5) in auto)
  show ?thesis
    unfolding DeliverSignalWithOutbox_def f
    using assms(1,3,4,7,8)
    by (simp add: Let_def scheduleResumeOutbox_def putOutboxLocked_def putOutboxEntryLocked_def mkOutboxEntry_def outboxOf_def)
qed

section \<open>The quorum of a multi-signal wait\<close>

fun deliverAll :: "string list \<Rightarrow> ExecutionID \<Rightarrow> (string \<times> data) list \<Rightarrow> memoryState \<Rightarrow>
    (string \<times> SignalPayload option) list \<times> memoryState" where
  "deliverAll order eid [] s = ([], s)"
| "deliverAll order eid ((sig, d) # ds) s = (case DeliverSignal order eid sig d s of
      (r, s1) \<Rightarrow> (case deliverAll order eid ds s1 of (rs, s2) \<Rightarrow> (r # rs, s2)))"

definition collect :: "(string, data) fmap \<Rightarrow> (string \<times> data) list \<Rightarrow> (string, data) fmap" where
  "collect m ds = fold (\<lambda>(sig, d). fmupd sig d) ds m"

lemma mapLen_card: "mapLen m = int (card (fmdom' m))"
proof -
  have "mapLen m = int (card (set (sortedKeys m)))" by (metis distinct_card distinct_sortedKeys mapLen_def)
  also have "set (sortedKeys m) = fmdom' m" by (auto simp: hasKey_def fmlookup_dom'_iff)
  finally show ?thesis .
qed

lemma mapLen_upd: "mapLen (fmupd k v m) = (if hasKey m k then mapLen m else mapLen m + 1)"
  by (auto simp: mapLen_card hasKey_def insert_absorb fmlookup_dom'_iff)

lemma mapLen_collect: "mapLen m \<le> mapLen (collect m ds)"
proof (induction ds arbitrary: m)
  case (Cons x ds)
  obtain sig d where x: "x = (sig, d)" by fastforce
  have "mapLen m \<le> mapLen (fmupd sig d m)" by (simp add: mapLen_upd)
  then show ?case using Cons.IH [of "fmupd sig d m"] by (simp add: x collect_def)
qed (simp add: collect_def)

lemma deliver_below_quorum:
  assumes "ss_Mode spec = ModeMultiSignal" "key = memoryNodeKey eid name" "key \<in> set order"
    and "fmlookup (suspended s) key = Some spec" "set (map fst ds) \<subseteq> set (ss_Signals spec)"
    and "\<And>sig k. sig \<in> set (ss_Signals spec) \<Longrightarrow> waits eid sig s k \<Longrightarrow> k = key"
    and "mapLen (collect (mapGet fmempty (signalSets s) key) ds) < signalQuorum (Some spec)"
  shows "fst (deliverAll order eid ds s) = replicate (length ds) ('''', None)
    \<and> suspended (snd (deliverAll order eid ds s)) = suspended s
    \<and> mapGet fmempty (signalSets (snd (deliverAll order eid ds s))) key = collect (mapGet fmempty (signalSets s) key) ds"
  using assms(4-)
proof (induction ds arbitrary: s)
  case (Cons x ds)
  obtain sig d where x: "x = (sig, d)" by fastforce
  let ?m = "mapGet fmempty (signalSets s) key"
  define s1 where "s1 = s\<lparr>signalSets := fmupd key (fmupd sig d ?m) (signalSets s)\<rparr>"
  have "waits eid sig s k \<longleftrightarrow> k = key" for k
    using Cons.prems(1,2,3) assms(2) by (auto simp: waits_def x)
  then have f: "find (waits eid sig s) order = Some key" by (intro find_unique) (use assms(3) in auto)
  have c: "collect ?m (x # ds) = collect (fmupd sig d ?m) ds" by (simp add: x collect_def)
  then have "mapLen (fmupd sig d ?m) < signalQuorum (Some spec)"
    using Cons.prems(4) mapLen_collect [of "fmupd sig d ?m" ds] by simp
  then have "DeliverSignal order eid sig d s = (('''', None), s1)"
    unfolding DeliverSignal_def f using assms(1,2) Cons.prems(1)
    by (simp add: addMultiSignalLocked_def Let_def s1_def)
  moreover have "waits eid sg s1 k \<longleftrightarrow> waits eid sg s k" for sg k by (simp add: waits_def s1_def)
  moreover have "fst (deliverAll order eid ds s1) = replicate (length ds) ('''', None)
    \<and> suspended (snd (deliverAll order eid ds s1)) = suspended s1
    \<and> mapGet fmempty (signalSets (snd (deliverAll order eid ds s1))) key = collect (mapGet fmempty (signalSets s1) key) ds"
    by (rule Cons.IH) (use Cons.prems calculation(2) c in \<open>auto simp: x s1_def\<close>)
  moreover have "suspended s1 = suspended s" "mapGet fmempty (signalSets s1) key = fmupd sig d ?m" by (simp_all add: s1_def)
  ultimately show ?case using c by (cases "deliverAll order eid ds s1") (simp add: x)
qed (simp add: collect_def)

text \<open>C29. A node in multi-signal mode wakes at its quorum, no sooner and no later.  Let a
  parked node be the only one that waits for its signals, and let any of these
  signals be delivered, in any order and with repetitions, while the different ones
  collected stay below the quorum: the node does not wake.  The next delivery wakes
  it exactly when it brings a signal that was not collected yet and completes the
  quorum; the payload then has every collected signal with its latest data, and
  neither the waiter nor the collection is left behind.  A repeated signal never
  counts twice: it only replaces the data.\<close>

theorem quorum_wakes:
  assumes "ss_Mode spec = ModeMultiSignal" "key = memoryNodeKey eid name" "key \<in> set order"
    and "fmlookup (suspended s) key = Some spec" "set (map fst (ds @ [(sig, d)])) \<subseteq> set (ss_Signals spec)"
    and "\<And>sig k. sig \<in> set (ss_Signals spec) \<Longrightarrow> waits eid sig s k \<Longrightarrow> k = key"
    and "c = collect (mapGet fmempty (signalSets s) key) ds" "mapLen c < signalQuorum (Some spec)"
    and "deliverAll order eid ds s = (rs, s1)" "DeliverSignal order eid sig d s1 = (r, s2)"
  shows "rs = replicate (length ds) ('''', None) \<and> suspended s1 = suspended s
    \<and> (if hasKey c sig \<or> mapLen c + 1 < signalQuorum (Some spec)
       then r = ('''', None) \<and> suspended s2 = suspended s \<and> fmlookup (signalSets s2) key = Some (fmupd sig d c)
       else r = (name, Some ((received sig d)\<lparr>sp_All := Some (cloneSignalSet (fmupd sig d c))\<rparr>))
         \<and> suspended s2 = fmdrop key (suspended s) \<and> fmlookup (signalSets s2) key = None)"
proof -
  have below: "rs = replicate (length ds) ('''', None) \<and> suspended s1 = suspended s \<and> mapGet fmempty (signalSets s1) key = c"
    using deliver_below_quorum [OF assms(1-4), of ds] assms(5-9) by simp
  have "waits eid sig s1 k \<longleftrightarrow> k = key" for k
    using assms(2,4,5,6) below by (auto simp: waits_def)
  then have f: "find (waits eid sig s1) order = Some key" by (intro find_unique) (use assms(3) in auto)
  have q: "mapLen (fmupd sig d c) < signalQuorum (Some spec) \<longleftrightarrow> hasKey c sig \<or> mapLen c + 1 < signalQuorum (Some spec)"
    using assms(8) by (simp add: mapLen_upd)
  have "(r, s2) = (if mapLen (fmupd sig d c) < signalQuorum (Some spec)
      then (('''', None), s1\<lparr>signalSets := fmupd key (fmupd sig d c) (signalSets s1)\<rparr>)
      else ((name, Some ((received sig d)\<lparr>sp_All := Some (cloneSignalSet (fmupd sig d c))\<rparr>)),
        wake key (s1\<lparr>signalSets := fmupd key (fmupd sig d c) (signalSets s1)\<rparr>)))"
    unfolding assms(10) [symmetric] DeliverSignal_def f using assms(1,2,4) below
    by (simp add: addMultiSignalLocked_def Let_def)
  then show ?thesis using below unfolding q by (auto simp: wake_def)
qed

section \<open>Outputs\<close>

lemma key_of_prefix: "hasPrefix k (eid @ ''/'') \<Longrightarrow> trimPrefix k (eid @ ''/'') = name \<longleftrightarrow> k = memoryNodeKey eid name"
  by (auto simp: hasPrefix_iff memoryNodeKey_def trimPrefix_def)

lemma GetAllOutputs_fold:
  "fmlookup (fold (\<lambda>key m. if hasPrefix key (eid @ ''/'') \<and> \<not> outputIsPrivateLocked s key
                   then fmupd (trimPrefix key (eid @ ''/'')) (mapGet None (outputs s) key) m else m) ks m) name
   = (if memoryNodeKey eid name \<in> set ks \<and> \<not> outputIsPrivateLocked s (memoryNodeKey eid name)
      then Some (mapGet None (outputs s) (memoryNodeKey eid name)) else fmlookup m name)"
  by (induction ks arbitrary: m) (auto simp: key_of_prefix)

text \<open>The outputs an execution publishes are exactly its stored outputs that are
  not private: a private output is never among them, and no public one is
  missing.\<close>

theorem published_outputs:
  "fmlookup (GetAllOutputs s eid) name =
     (if outputIsPrivateLocked s (memoryNodeKey eid name) then None else fmlookup (outputs s) (memoryNodeKey eid name))"
  by (auto simp: GetAllOutputs_def GetAllOutputs_fold hasKey_def mapGet_def)

lemma GetOutputs_lookup:
  "fmlookup (GetOutputs s eid names) name =
     (if name \<in> set names then fmlookup (outputs s) (memoryNodeKey eid name) else None)"
proof -
  have "fmlookup (fold (\<lambda>name m. case fmlookup (outputs s) (eid @ ''/'' @ name) of None \<Rightarrow> m | Some d \<Rightarrow> fmupd name d m) names m) name
    = (if name \<in> set names \<and> fmlookup (outputs s) (memoryNodeKey eid name) \<noteq> None
       then fmlookup (outputs s) (memoryNodeKey eid name) else fmlookup m name)" for m
    by (induction names arbitrary: m) (auto simp: memoryNodeKey_def split: option.splits)
  then show ?thesis by (auto simp: GetOutputs_def)
qed

section \<open>The barrier of a batch of sub-executions\<close>

fun completeAll :: "ExecutionID \<Rightarrow> string \<Rightarrow> (ExecutionID \<times> ExecutionStatus \<times> data) list \<Rightarrow> memoryState \<Rightarrow>
    bool list \<times> memoryState" where
  "completeAll parent parentNode [] s = ([], s)"
| "completeAll parent parentNode ((child, status, result) # cs) s =
     (case CompleteSubExecution parent parentNode child status result s of
        (b, s1) \<Rightarrow> (case completeAll parent parentNode cs s1 of (bs, s2) \<Rightarrow> (b # bs, s2)))"

lemma completeSub_child [simp]: "sx_ChildExecID (completeSub child status result sub) = sx_ChildExecID sub"
  by (simp add: completeSub_def)

lemma completeSub_terminal:
  assumes "IsTerminalExecutionStatus status" "IsTerminalExecutionStatus (sx_Status sub) \<longleftrightarrow> sx_ChildExecID sub \<in> D"
  shows "IsTerminalExecutionStatus (sx_Status (completeSub child status result sub))
    \<longleftrightarrow> sx_ChildExecID sub \<in> insert child D"
  using assms by (simp add: completeSub_def)

lemma completeAll_flags:
  assumes "fmlookup (subExecs s) (memoryNodeKey parent pn) = Some subs"
    and "\<And>sub. sub \<in> set subs \<Longrightarrow> IsTerminalExecutionStatus (sx_Status sub) \<longleftrightarrow> sx_ChildExecID sub \<in> D"
    and "distinct (map fst cs)" "cs \<noteq> []" "\<And>c. c \<in> set cs \<Longrightarrow> IsTerminalExecutionStatus (fst (snd c))"
    and "sx_ChildExecID ` set subs = D \<union> fst ` set cs" "D \<inter> fst ` set cs = {}"
  shows "fst (completeAll parent pn cs s) = replicate (length cs - 1) False @ [True]"
  using assms
proof (induction cs arbitrary: s subs D)
  case (Cons c cs)
  obtain child status result where c: "c = (child, status, result)" by (cases c)
  have st: "IsTerminalExecutionStatus status" using Cons.prems(5) [of c] by (simp add: c)
  define subs' where "subs' = map (completeSub child status result) subs"
  define s1 where "s1 = s\<lparr>subExecs := fmupd (memoryNodeKey parent pn) subs' (subExecs s)\<rparr>"
  have t: "IsTerminalExecutionStatus (sx_Status sub) \<longleftrightarrow> sx_ChildExecID sub \<in> insert child D" if "sub \<in> set subs'" for sub
    using that completeSub_terminal [OF st Cons.prems(2)] by (auto simp: subs'_def)
  have im: "sx_ChildExecID ` set subs' = insert child D \<union> fst ` set cs"
    using Cons.prems(6) by (simp add: subs'_def c image_image)
  have b: "CompleteSubExecution parent pn child status result s
      = (list_all (\<lambda>sub. IsTerminalExecutionStatus (sx_Status sub)) subs', s1)"
    using Cons.prems(1) by (simp add: CompleteSubExecution_def Let_def subs'_def s1_def)
  have "list_all (\<lambda>sub. IsTerminalExecutionStatus (sx_Status sub)) subs' \<longleftrightarrow> sx_ChildExecID ` set subs' \<subseteq> insert child D"
    using t by (auto simp: list_all_iff)
  then have all: "list_all (\<lambda>sub. IsTerminalExecutionStatus (sx_Status sub)) subs' \<longleftrightarrow> fst ` set cs \<subseteq> insert child D"
    unfolding im by auto
  show ?case
  proof (cases "cs = []")
    case True
    then show ?thesis using all b by (simp add: c split: prod.split)
  next
    case False
    have "fst (completeAll parent pn cs s1) = replicate (length cs - 1) False @ [True]"
      by (rule Cons.IH [of s1 subs' "insert child D"])
        (use Cons.prems t im False in \<open>auto simp: s1_def c\<close>)
    moreover from False obtain k where "k \<in> fst ` set cs" by (cases cs) auto
    moreover have "\<not> fst ` set cs \<subseteq> insert child D"
      using calculation(2) Cons.prems(3,7) by (auto simp: c)
    ultimately show ?thesis
      using all b False by (cases "completeAll parent pn cs s1"; cases cs) (simp_all add: c)
  qed
qed simp

text \<open>The barrier of a batch opens once, at the last child: when the children of a
  batch finish, one after another and in any order, only the completion of the
  last one reports that the whole batch is finished.\<close>

theorem batch_barrier:
  assumes "fmlookup (subExecs s) (memoryNodeKey parent pn) = Some subs"
    and "list_all (\<lambda>sub. \<not> IsTerminalExecutionStatus (sx_Status sub)) subs"
    and "distinct (map fst cs)" "cs \<noteq> []" "list_all (\<lambda>c. IsTerminalExecutionStatus (fst (snd c))) cs"
    and "set (map sx_ChildExecID subs) = set (map fst cs)"
  shows "fst (completeAll parent pn cs s) = replicate (length cs - 1) False @ [True]"
  by (rule completeAll_flags [of s parent pn subs "{}"]) (use assms in \<open>auto simp: list_all_iff\<close>)

section \<open>A store with signals\<close>

definition sampleSpec :: "SuspendMode \<Rightarrow> string list \<Rightarrow> SuspendSpec" where
  "sampleSpec mode sigs = \<lparr>ss_Mode = mode, ss_Signals = sigs, ss_Quorum = 0, ss_Timer = 0, ss_Timeout = 60,
     ss_StripFromOutput = []\<rparr>"

definition sampleClaimed :: memoryState where
  "sampleClaimed = snd (ClaimTaskLease (sampleLease ''t1'' 100) sampleLeased)"

theorem suspend_commits_once_witness:
  "fst (SuspendTaskLease 110 110 (Some (sampleLease ''t1'' 100)) None False False (Some (sampleSpec ModeSignal [''go''])) ''''
      (snd (SuspendTaskLease 110 110 (Some (sampleLease ''t1'' 100)) None False False (Some (sampleSpec ModeSignal [''go''])) '''' sampleClaimed)))
   = Inr (None, False)"
proof -
  let ?r = "SuspendTaskLease 110 110 (Some (sampleLease ''t1'' 100)) None False False (Some (sampleSpec ModeSignal [''go''])) '''' sampleClaimed"
  have "fst ?r = Inr (None, True)" by code_simp
  then have "?r = (Inr (None, True), snd ?r)" by (metis prod.collapse)
  from suspend_commits_once [OF this refl, of 110 110 None False False "sampleSpec ModeSignal [''go'']" "''''"]
  show ?thesis by simp
qed

definition sampleParked :: memoryState where
  "sampleParked = (newMemoryState False)\<lparr>suspended := fmap_of_list [(''ex/a'', sampleSpec ModeMultiSignal [''go'', ''ok''])]\<rparr>"

lemma sampleParked_waits: "waits ''ex'' sig sampleParked k \<Longrightarrow> k = ''ex/a''"
  by (auto simp: waits_def sampleParked_def split: option.splits if_splits)

theorem signal_meets_waiter_witness:
  "fst (DeliverSignal [''ex/b''] ''ex'' ''done'' None (snd (SuspendOrConsume ''ex'' ''b'' (sampleSpec ModeSignal [''done'']) sampleParked)))
    = (''b'', None)"
  using signal_meets_waiter [of "sampleSpec ModeSignal [''done'']" "''done''" sampleParked "''ex''" "''b''" "[''ex/b'']" None]
  by (auto simp: sampleSpec_def sampleParked_def waits_def newMemoryState_def memoryNodeKey_def split: option.splits if_splits)

definition sampleSuspended :: memoryState where
  "sampleSuspended = snd (SuspendTaskLease 110 110 (Some (sampleLease ''t1'' 100)) None False False
     (Some (sampleSpec ModeSignal [''go''])) '''' sampleClaimed)"

definition sampleDelivery :: "(string \<times> SignalPayload option \<times> bool) \<times> memoryState" where
  "sampleDelivery = DeliverSignalWithOutbox 200 [''ex/a''] ''ex'' ''go'' None
     \<lparr>ri_NodeName = ''a'', ri_NodeIdx = 0, ri_UnitIdx = 0, ri_ActivationID = 0, ri_AutoDepth = 0\<rparr> sampleSuspended"

theorem durable_delivery_witness:
  "hasKey (outboxOf (snd sampleDelivery) ''ex'') (signalResumeID ''ex'' ''a'' 1)
   \<and> suspended (snd sampleDelivery) = fmdrop ''ex/a'' (suspended sampleSuspended)"
proof -
  have r: "sampleDelivery = ((''a'', Some (received ''go'' None), True), snd sampleDelivery)"
    unfolding prod_eq_iff by code_simp
  have n: "map_option ns_ActivationID (fmlookup (nodes sampleSuspended) ''ex/a'') = Some 1"
    "\<not> hasKey (outboxOf sampleSuspended ''ex'') (signalResumeID ''ex'' ''a'' 1)" by code_simp+
  show ?thesis
    using durable_delivery [OF r [unfolded sampleDelivery_def], folded sampleDelivery_def] n
    by (auto simp: memoryNodeKey_def hasKey_def resumeWritten_def liveActivation_def Let_def)
qed

theorem quorum_wakes_witness:
  "fst (DeliverSignal [''ex/a''] ''ex'' ''go'' None (snd (deliverAll [''ex/a''] ''ex'' [(''ok'', None), (''ok'', None)] sampleParked)))
     = (''a'', Some ((received ''go'' None)\<lparr>sp_All := Some (cloneSignalSet (fmupd ''go'' None (fmupd ''ok'' None fmempty)))\<rparr>))"
proof -
  let ?sp = "sampleSpec ModeMultiSignal [''go'', ''ok'']" and ?ds = "[(''ok'', None), (''ok'', None :: data)]"
  let ?c = "collect (mapGet fmempty (signalSets sampleParked) ''ex/a'') ?ds"
  have k: "''ex/a'' = memoryNodeKey ''ex'' ''a''" by (simp add: memoryNodeKey_def)
  have sp: "ss_Mode ?sp = ModeMultiSignal" "ss_Signals ?sp = [''go'', ''ok'']" "signalQuorum (Some ?sp) = 2"
    by (simp_all add: sampleSpec_def signalQuorum_def)
  have l: "fmlookup (suspended sampleParked) ''ex/a'' = Some ?sp" "fmlookup (signalSets sampleParked) ''ex/a'' = None"
    by (simp_all add: sampleParked_def newMemoryState_def)
  have c: "?c = fmupd ''ok'' None fmempty" using l(2) by (simp add: collect_def mapGet_def)
  have m: "mapLen ?c = 1" "\<not> hasKey ?c ''go''" unfolding c by (simp_all add: mapLen_card hasKey_def)
  have q: "set (map fst (?ds @ [(''go'', None)])) \<subseteq> set (ss_Signals ?sp)" "''ex/a'' \<in> set [''ex/a'']" "mapLen ?c < signalQuorum (Some ?sp)"
    by (simp_all add: sp m)
  note wakes = quorum_wakes [OF sp(1) k q(2) l(1) q(1) _ refl q(3) prod.collapse [symmetric] prod.collapse [symmetric]]
  show ?thesis
    by (rule conjE [OF wakes]) (erule sampleParked_waits, simp add: m [unfolded c] sp(3) c del: deliverAll.simps)
qed

definition sampleBatch :: memoryState where
  "sampleBatch = (newMemoryState False)\<lparr>subExecs := fmap_of_list [(''ex/a'',
     [\<lparr>sx_ParentExecID = ''ex'', sx_ParentNode = ''a'', sx_ChildExecID = ''c1'', sx_BatchIndex = 0,
         sx_Status = ExecutionStatusRunning, sx_Result = None\<rparr>,
      \<lparr>sx_ParentExecID = ''ex'', sx_ParentNode = ''a'', sx_ChildExecID = ''c2'', sx_BatchIndex = 1,
         sx_Status = ExecutionStatusPaused, sx_Result = None\<rparr>])]\<rparr>"

theorem batch_barrier_witness:
  "fst (completeAll ''ex'' ''a'' [(''c2'', ExecutionStatusSuccess, None), (''c1'', ExecutionStatusFailed, None)] sampleBatch)
     = [False, True]"
proof -
  have "fst (completeAll ''ex'' ''a'' [(''c2'', ExecutionStatusSuccess, None), (''c1'', ExecutionStatusFailed, None)] sampleBatch)
     = replicate (length [(''c2'', ExecutionStatusSuccess, None :: data), (''c1'', ExecutionStatusFailed, None)] - 1) False @ [True]"
    by (rule batch_barrier) (auto simp: sampleBatch_def memoryNodeKey_def newMemoryState_def)
  then show ?thesis by simp
qed

end
