(* ===== verification/NodeCommit.thy ===== *)
theory NodeCommit
  imports Signals
begin

text \<open>
  Committing a node and advancing its successors in the local store
  (\<open>atomic_state.go\<close>, from \<open>CommitLeasedNode\<close> to \<open>applyArrivalsLocked\<close>): the
  fence of a commit, the record it writes, the completion counter, the arrivals
  at downstream units and their execute or skip intents.

  \<open>now\<close> is the clock of the commit; a zero time as an intent's availability means
  that it is due at once.
\<close>

section \<open>The fence\<close>

definition cancelFenceAdmitsLocked :: "memoryState \<Rightarrow> CommitNodeRequest \<Rightarrow> NodeSnapshot option \<Rightarrow> bool" where
  "cancelFenceAdmitsLocked s req current =
     (let marker = mapGet '''' (scheduled s) (memoryCounterKey (cn_ExecutionID req) (cn_UnitIdx req))
      in case current of
           None \<Rightarrow> marker = ''execute''
         | Some c \<Rightarrow>
             if ns_Status c \<in> {NodeStatusSuspended, NodeStatusRunning, NodeStatusCommitting} then marker \<noteq> ''skip''
             else if ns_Status c = NodeStatusPending then marker = ''execute''
             else False)"

definition systemFenceRefuses :: "memoryState \<Rightarrow> CommitNodeRequest \<Rightarrow> NodeSnapshot option \<Rightarrow> bool" where
  "systemFenceRefuses s req current =
     (let skipMarked = (mapGet '''' (scheduled s) (memoryCounterKey (cn_ExecutionID req) (cn_UnitIdx req)) = ''skip'');
          pinned = (cn_Status req = NodeStatusPinned);
          skipped = (cn_Status req = NodeStatusSkipped)
      in pinned \<and> skipMarked \<or> \<not> pinned \<and> \<not> skipped \<and> \<not> skipMarked
       \<or> (case current of None \<Rightarrow> False | Some c \<Rightarrow> ns_Status c \<noteq> NodeStatusPending))"

definition leaseFenceRefuses :: "CommitNodeRequest \<Rightarrow> NodeSnapshot option \<Rightarrow> bool" where
  "leaseFenceRefuses req current = (case current of
      None \<Rightarrow> True
    | Some c \<Rightarrow> \<not> nodeLeased c \<or> ns_LeaseID c \<noteq> cn_LeaseID req \<or> ns_LeaseToken c \<noteq> cn_LeaseToken req
        \<or> ns_Attempt c \<noteq> cn_Attempt req \<or> ns_ActivationID c \<noteq> cn_ActivationID req)"

definition fenceRefuses :: "memoryState \<Rightarrow> CommitNodeRequest \<Rightarrow> NodeSnapshot option \<Rightarrow> bool" where
  "fenceRefuses s req current =
     (if cn_System req \<and> cn_Status req = NodeStatusCanceled then \<not> cancelFenceAdmitsLocked s req current
      else if cn_System req then systemFenceRefuses s req current
      else leaseFenceRefuses req current)"

definition duplicateOf :: "CommitNodeRequest \<Rightarrow> NodeSnapshot \<Rightarrow> bool" where
  "duplicateOf req c \<longleftrightarrow> ns_ActivationID c = cn_ActivationID req
     \<and> (\<not> cn_System req \<and> ns_CommittedLeaseToken c = cn_LeaseToken req \<and> cn_LeaseToken req \<noteq> ''''
        \<or> cn_System req \<and> ns_Status c = cn_Status req)"

text \<open>The early returns of the commit; \<^term>\<open>None\<close> lets it go on.\<close>

definition commitVerdict :: "memoryState \<Rightarrow> CommitNodeRequest \<Rightarrow> CommitOutcome option" where
  "commitVerdict s req = (case fmlookup (executions s) (cn_ExecutionID req) of
      None \<Rightarrow> Some CommitOutcomeExecutionInactive
    | Some e \<Rightarrow>
        let current = fmlookup (nodes s) (memoryNodeKey (cn_ExecutionID req) (cn_NodeName req));
            later = (if IsTerminalExecutionStatus (es_Status (snap e)) then Some CommitOutcomeExecutionInactive
                     else if fenceRefuses s req current then Some CommitOutcomeStaleToken
                     else None)
        in case current of
             None \<Rightarrow> later
           | Some c \<Rightarrow>
               if isTerminalNode (ns_Status c)
               then Some (if duplicateOf req c then CommitOutcomeDuplicateTerminal else CommitOutcomeStaleToken)
               else later)"

section \<open>The committed record\<close>

definition committedNode :: "Time \<Rightarrow> CommitNodeRequest \<Rightarrow> NodeSnapshot option \<Rightarrow> bool \<Rightarrow> NodeSnapshot" where
  "committedNode now req current privateOutput =
     (let base = emptyNode\<lparr>ns_ExecutionID := cn_ExecutionID req, ns_Name := cn_NodeName req, ns_NodeIdx := cn_NodeIdx req,
            ns_Status := cn_Status req, ns_Attempt := cn_Attempt req, ns_ActivationID := cn_ActivationID req,
            ns_AutoDepth := cn_AutoDepth req, ns_PrivateOutput := privateOutput, ns_Port := cn_Port req,
            ns_Error := cn_Error req, ns_ErrorDetails := cn_ErrorDetails req,
            ns_CommittedLeaseToken := cn_LeaseToken req, ns_CommittedAttempt := cn_Attempt req,
            ns_Output := (if privateOutput then None else cn_Output req)\<rparr>;
          kept = (case current of
              None \<Rightarrow> base
            | Some c \<Rightarrow>
                let n = (if cn_System req then base\<lparr>ns_Attempt := ns_Attempt c, ns_AutoDepth := ns_AutoDepth c\<rparr> else base)
                in n\<lparr>ns_ChildExecutionID := ns_ChildExecutionID c, ns_StartedAt := ns_StartedAt c,
                     ns_FinishedAt := ns_FinishedAt c\<rparr>)
      in stampFinished now kept)"

section \<open>Arrivals\<close>

definition scheduleOf :: "DownstreamArrival \<Rightarrow> int \<Rightarrow> int \<Rightarrow> int \<Rightarrow> string" where
  "scheduleOf a previousActive inDegree active =
     (if da_MergeMode a = ''wait_any'' \<and> da_ActiveCount a > 0 \<and> previousActive = 0 then ''execute''
      else if inDegree \<le> 0 then (if active > 0 then ''execute'' else ''skip'')
      else '''')"

definition arrivalTask :: "ExecutionID \<Rightarrow> int \<Rightarrow> int \<Rightarrow> DownstreamArrival \<Rightarrow> TaskType \<Rightarrow> Task" where
  "arrivalTask eid activationID autoDepth a taskType =
     emptyTask\<lparr>t_ExecutionID := eid, t_NodeName := da_NodeName a, t_NodeIdx := da_NodeIdx a, t_UnitIdx := da_UnitIdx a,
       t_Type := taskType, t_ActivationID := activationID, t_AutoDepth := autoDepth\<rparr>"

definition countArrival :: "ExecutionID \<Rightarrow> DownstreamArrival \<Rightarrow> memoryState \<Rightarrow> memoryState" where
  "countArrival eid a s =
     (let counterKey = memoryCounterKey eid (da_UnitIdx a);
          s1 = s\<lparr>inDegrees := fmupd counterKey (mapGet 0 (inDegrees s) counterKey - da_ArrivalCount a) (inDegrees s)\<rparr>
      in if da_ActiveCount a > 0
         then s1\<lparr>activeIns := fmupd counterKey (mapGet 0 (activeIns s1) counterKey + da_ActiveCount a) (activeIns s1)\<rparr>
         else s1)"

definition applyArrival :: "Time \<Rightarrow> ExecutionID \<Rightarrow> int \<Rightarrow> int \<Rightarrow> DownstreamArrival \<Rightarrow> memoryState \<Rightarrow>
    (string list \<times> SkippedUnit list) \<times> memoryState" where
  "applyArrival now eid activationID autoDepth a s =
     (if da_ArrivalCount a \<le> 0 then (([], []), s)
      else
        let counterKey = memoryCounterKey eid (da_UnitIdx a);
            previousActive = mapGet 0 (activeIns s) counterKey;
            s2 = countArrival eid a s;
            schedule = scheduleOf a previousActive (mapGet 0 (inDegrees s2) counterKey) (mapGet 0 (activeIns s2) counterKey)
        in if mapGet '''' (scheduled s2) counterKey \<noteq> '''' \<or> schedule = '''' then (([], []), s2)
           else
             let s3 = s2\<lparr>scheduled := fmupd counterKey schedule (scheduled s2)\<rparr>;
                 isSkip = (schedule = ''skip'');
                 taskType = (if isSkip then TaskTypeNodeSkip else da_ExecTaskType a);
                 outboxID = (if isSkip then skipOutboxID eid (da_NodeName a) activationID
                             else executeOutboxID eid (da_NodeName a) activationID);
                 r = putOutboxLocked now eid outboxID (arrivalTask eid activationID autoDepth a taskType) zeroTime s3
             in (if \<not> fst r then ([], [])
                 else ([outboxID], if isSkip then [\<lparr>su_NodeName = da_NodeName a, su_Count = 1\<rparr>] else []), snd r))"

fun applyArrivalsLocked :: "Time \<Rightarrow> ExecutionID \<Rightarrow> int \<Rightarrow> int \<Rightarrow> DownstreamArrival list \<Rightarrow> memoryState \<Rightarrow>
    (string list \<times> SkippedUnit list) \<times> memoryState" where
  "applyArrivalsLocked now eid activationID autoDepth [] s = (([], []), s)"
| "applyArrivalsLocked now eid activationID autoDepth (a # as) s =
     (case applyArrival now eid activationID autoDepth a s of
        ((ids, skips), s1) \<Rightarrow> (case applyArrivalsLocked now eid activationID autoDepth as s1 of
          ((ids', skips'), s2) \<Rightarrow> ((ids @ ids', skips @ skips'), s2)))"

definition arrivalCandidateOutboxIDs :: "ExecutionID \<Rightarrow> int \<Rightarrow> DownstreamArrival list \<Rightarrow> string list" where
  "arrivalCandidateOutboxIDs eid activationID arrivals =
     concat (map (\<lambda>a. [executeOutboxID eid (da_NodeName a) activationID, skipOutboxID eid (da_NodeName a) activationID]) arrivals)"

section \<open>Committing\<close>

definition refusal :: "CommitOutcome \<Rightarrow> CommitNodeResult" where
  "refusal outcome = \<lparr>cr_Outcome = outcome, cr_Applied = False, cr_ExecutionDone = False,
     cr_ExecutionStatus = ExecutionStatusEmpty, cr_OutboxIDs = [], cr_Skipped = []\<rparr>"

definition accepted :: CommitNodeResult where
  "accepted = (refusal CommitOutcomeAccepted)\<lparr>cr_Applied := True\<rparr>"

text \<open>Writing one intent and noting its id in the result when it is new.\<close>

definition putNoted :: "Time \<Rightarrow> ExecutionID \<Rightarrow> string \<Rightarrow> Task \<Rightarrow> CommitNodeResult \<times> memoryState \<Rightarrow> CommitNodeResult \<times> memoryState" where
  "putNoted now eid outboxID task rs = (case putOutboxLocked now eid outboxID task zeroTime (snd rs) of
      (True, s1) \<Rightarrow> ((fst rs)\<lparr>cr_OutboxIDs := cr_OutboxIDs (fst rs) @ [outboxID]\<rparr>, s1)
    | (False, s1) \<Rightarrow> (fst rs, s1))"

text \<open>The record, the outputs and the waiter of a canceled node.\<close>

definition writeCommitted :: "Time \<Rightarrow> CommitNodeRequest \<Rightarrow> memoryState \<Rightarrow> memoryState" where
  "writeCommitted now req s =
     (let eid = cn_ExecutionID req; key = memoryNodeKey eid (cn_NodeName req); current = fmlookup (nodes s) key
      in case preserveOutputPrivacyLocked key (cn_PrivateOutput req) s of
           (p, s1) \<Rightarrow>
             let s2 = s1\<lparr>nodes := fmupd key (committedNode now req current p) (nodes s1)\<rparr>;
                 s3 = (if cn_StoreOutput req then s2\<lparr>outputs := fmupd key (cn_Output req) (outputs s2)\<rparr> else s2);
                 s4 = (if cn_System req \<and> cn_Status req = NodeStatusCanceled
                       then s3\<lparr>suspended := fmdrop key (suspended s3), signalSets := fmdrop key (signalSets s3)\<rparr> else s3)
             in s4\<lparr>outputs := fold (\<lambda>src m. fmdrop (memoryNodeKey eid src) m) (cn_ReclaimOutputNames req) (outputs s4)\<rparr>)"

text \<open>The completion counter of an acyclic execution.\<close>

definition countCommitted :: "Time \<Rightarrow> CommitNodeRequest \<Rightarrow> CommitNodeResult \<times> memoryState \<Rightarrow> CommitNodeResult \<times> memoryState" where
  "countCommitted now req rs =
     (let eid = cn_ExecutionID req; s = snd rs;
          s1 = s\<lparr>remaining := fmupd eid (mapGet 0 (remaining s) eid - 1) (remaining s)\<rparr>;
          s2 = (if cn_Status req = NodeStatusFailed
                then s1\<lparr>failed := fmupd eid (mapGet 0 (failed s1) eid + 1) (failed s1)\<rparr> else s1)
      in if cn_Fatal req \<or> mapGet 0 (remaining s2) eid = 0 then
           let status = (if cn_Fatal req \<or> mapGet 0 (failed s2) eid > 0 then ExecutionStatusFailed else ExecutionStatusSuccess)
           in ((fst rs)\<lparr>cr_ExecutionDone := True, cr_ExecutionStatus := status\<rparr>,
               finishExecutionLocked now eid status (TerminalExecutionError status (cn_Error req) '''') s2)
         else (fst rs, s2))"

definition cyclicCommitted :: "Time \<Rightarrow> CommitNodeRequest \<Rightarrow> CommitNodeResult \<times> memoryState \<Rightarrow> CommitNodeResult \<times> memoryState" where
  "cyclicCommitted now req rs =
     (let eid = cn_ExecutionID req
      in if cn_CyclicOutbox req \<noteq> [] then
           fold (\<lambda>oe rs. case putOutboxEntryLocked now eid oe (snd rs) of
                    (True, s1) \<Rightarrow> ((fst rs)\<lparr>cr_OutboxIDs := cr_OutboxIDs (fst rs) @ [oe_ID oe]\<rparr>, s1)
                  | (False, s1) \<Rightarrow> (fst rs, s1))
             (cn_CyclicOutbox req) rs
         else if cn_CyclicComplete req then
           let status = cn_CyclicFinalStatus req
           in ((fst rs)\<lparr>cr_ExecutionDone := True, cr_ExecutionStatus := status\<rparr>,
               finishExecutionLocked now eid status (TerminalExecutionError status (cn_Error req) (cn_CyclicFinalError req)) (snd rs))
         else rs)"

definition foldArrivals :: "Time \<Rightarrow> CommitNodeRequest \<Rightarrow> CommitNodeResult \<times> memoryState \<Rightarrow> CommitNodeResult \<times> memoryState" where
  "foldArrivals now req rs =
     (case applyArrivalsLocked now (cn_ExecutionID req) (cn_ActivationID req) (cn_AutoDepth req) (cn_Arrivals req) (snd rs) of
        ((_, skips), s1) \<Rightarrow> ((fst rs)\<lparr>cr_Skipped := skips\<rparr>, s1))"

definition commitNodeLocked :: "Time \<Rightarrow> CommitNodeRequest \<Rightarrow> memoryState \<Rightarrow> CommitNodeResult \<times> memoryState" where
  "commitNodeLocked now req s = (case commitVerdict s req of
      Some outcome \<Rightarrow> (refusal outcome, s)
    | None \<Rightarrow>
        let eid = cn_ExecutionID req;
            canceling = (statusOf s eid = Some ExecutionStatusCanceling);
            rs0 = (accepted, writeCommitted now req s);
            rs1 = (if cn_AllowCycles req then rs0 else countCommitted now req rs0);
            rs2 = (case cn_AdvanceTask req of
                     Some t \<Rightarrow> if \<not> cn_Fatal req \<and> \<not> cr_ExecutionDone (fst rs1)
                       then putNoted now eid (advanceOutboxID eid (cn_NodeName req) (cn_ActivationID req)) t rs1 else rs1
                   | None \<Rightarrow> rs1);
            rs3 = (case cn_MergeCancel req of
                     Some t \<Rightarrow> if \<not> cn_Fatal req \<and> \<not> cr_ExecutionDone (fst rs2) \<and> \<not> canceling
                       then putNoted now eid (mergeCancelOutboxID eid (cn_NodeName req) (cn_ActivationID req)) t rs2 else rs2
                   | None \<Rightarrow> rs2);
            rs4 = (if \<not> cn_AllowCycles req \<and> \<not> cn_Fatal req \<and> \<not> cr_ExecutionDone (fst rs3) \<and> \<not> canceling
                   then foldArrivals now req rs3 else rs3);
            rs5 = (if \<not> cn_Fatal req \<and> \<not> cr_ExecutionDone (fst rs4)
                   then ((fst rs4)\<lparr>cr_OutboxIDs := cr_OutboxIDs (fst rs4)
                           @ arrivalCandidateOutboxIDs eid (cn_ActivationID req) (cn_Arrivals req)\<rparr>, snd rs4)
                   else rs4)
        in if cn_AllowCycles req \<and> \<not> cn_Fatal req \<and> \<not> cr_ExecutionDone (fst rs5)
           then cyclicCommitted now req rs5 else rs5)"

definition CommitNode :: "Time \<Rightarrow> CommitNodeRequest \<Rightarrow> memoryState \<Rightarrow> (StoreError, CommitNodeResult) result \<times> memoryState" where
  "CommitNode now req s = (case Validate req of
      Some err \<Rightarrow> (Inl (ErrCommitRequest err), s)
    | None \<Rightarrow> (case commitNodeLocked now req s of
        (result, s1) \<Rightarrow>
          let s2 = (if cr_Applied result then mirrorNode (cn_ExecutionID req) s1 else s1);
              s3 = (if cr_Applied result \<and> cr_ExecutionDone result then mirrorExecutionStatus (cn_ExecutionID req) s2 else s2)
          in (Inr result, s3)))"

definition CommitLeasedNode :: "Time \<Rightarrow> CommitNodeRequest \<Rightarrow> memoryState \<Rightarrow> (StoreError, CommitNodeResult) result \<times> memoryState" where
  "CommitLeasedNode now req s = CommitNode now req s"

section \<open>Advancing\<close>

definition notAdvanced :: AdvanceNodeResult where
  "notAdvanced = \<lparr>ar_Applied = False, ar_OutboxIDs = [], ar_Skipped = []\<rparr>"

definition AdvanceNode :: "Time \<Rightarrow> AdvanceNodeRequest \<Rightarrow> memoryState \<Rightarrow> AdvanceNodeResult \<times> memoryState" where
  "AdvanceNode now req s =
     (let eid = an_ExecutionID req
      in case fmlookup (executions s) eid of
           None \<Rightarrow> (notAdvanced, s)
         | Some e \<Rightarrow>
             if IsTerminalExecutionStatus (es_Status (snap e)) then (notAdvanced, s)
             else case fmlookup (nodes s) (memoryNodeKey eid (an_NodeName req)) of
               None \<Rightarrow> (notAdvanced, s)
             | Some n \<Rightarrow>
                 if \<not> isTerminalNode (ns_Status n) \<or> ns_ActivationID n \<noteq> an_ActivationID req then (notAdvanced, s)
                 else
                   let advanceKey = memoryAdvanceKey eid (an_NodeName req) (an_ActivationID req)
                   in if mapGet False (advanced s) advanceKey then (notAdvanced, s)
                      else case applyArrivalsLocked now eid (an_ActivationID req) (an_AutoDepth req) (an_Arrivals req)
                             (s\<lparr>advanced := fmupd advanceKey True (advanced s)\<rparr>) of
                        ((ids, skips), s1) \<Rightarrow> (\<lparr>ar_Applied = True, ar_OutboxIDs = ids, ar_Skipped = skips\<rparr>, s1))"

section \<open>What arrivals change\<close>

text \<open>An arrival touches the counters, the markers and the outbox only.\<close>

definition eraseSched :: "memoryState \<Rightarrow> memoryState" where
  "eraseSched s = s\<lparr>inDegrees := fmempty, activeIns := fmempty, scheduled := fmempty, outbox := fmempty\<rparr>"

lemma eraseSched_upd [simp]:
  "eraseSched (s\<lparr>inDegrees := i\<rparr>) = eraseSched s" "eraseSched (s\<lparr>activeIns := a\<rparr>) = eraseSched s"
  "eraseSched (s\<lparr>scheduled := m\<rparr>) = eraseSched s" "eraseSched (s\<lparr>outbox := ob\<rparr>) = eraseSched s"
  by (simp_all add: eraseSched_def)

lemma eraseSched_put [simp]:
  "eraseSched (snd (putOutboxEntryLocked now eid e s)) = eraseSched s"
  "eraseSched (snd (putOutboxLocked now eid i t v s)) = eraseSched s"
  by (simp_all add: putOutboxLocked_def putOutboxEntryLocked_def)

lemma eraseSched_D:
  assumes "eraseSched s' = eraseSched s"
  shows "core s' = core s" "nodes s' = nodes s" "privateOutputs s' = privateOutputs s" "executions s' = executions s"
    "advanced s' = advanced s" "remaining s' = remaining s" "failed s' = failed s"
proof -
  have "core (eraseSched s') = core (eraseSched s)" using assms by simp
  then show "core s' = core s" by (simp add: core_def eraseSched_def)
  show "nodes s' = nodes s" "privateOutputs s' = privateOutputs s" "executions s' = executions s"
    "advanced s' = advanced s" "remaining s' = remaining s" "failed s' = failed s"
    using arg_cong [OF assms, of nodes] arg_cong [OF assms, of privateOutputs] arg_cong [OF assms, of executions]
      arg_cong [OF assms, of advanced] arg_cong [OF assms, of remaining] arg_cong [OF assms, of failed]
    by (simp_all add: eraseSched_def)
qed

lemma countArrival_frame [simp]: "eraseSched (countArrival eid a s) = eraseSched s" "outbox (countArrival eid a s) = outbox s"
  "scheduled (countArrival eid a s) = scheduled s"
  by (simp_all add: countArrival_def Let_def)

lemma applyArrival_frame: "eraseSched (snd (applyArrival now eid act auto a s)) = eraseSched s"
  by (simp add: applyArrival_def Let_def)

lemma applyArrivals_frame: "eraseSched (snd (applyArrivalsLocked now eid act auto as s)) = eraseSched s"
proof (induction as arbitrary: s)
  case (Cons a as)
  obtain r s1 where a: "applyArrival now eid act auto a s = (r, s1)" by fastforce
  then have "eraseSched s1 = eraseSched s" using applyArrival_frame [of now eid act auto a s] by simp
  with Cons [of s1] a show ?case by (auto split: prod.splits)
qed simp

section \<open>What a commit changes\<close>

lemma committedNode_sel:
  "ns_PrivateOutput (committedNode now req c p) = p" "ns_Output (committedNode now req c p) = (if p then None else cn_Output req)"
  "ns_Status (committedNode now req c p) = cn_Status req" "ns_ActivationID (committedNode now req c p) = cn_ActivationID req"
  "ns_CommittedLeaseToken (committedNode now req c p) = cn_LeaseToken req"
  by (simp_all add: committedNode_def stampFinished_def Let_def split: option.split)

lemma committedNode_timing: "timingKept c (committedNode now req (Some c) p)"
  by (simp add: timingKept_def committedNode_def stampFinished_def Let_def)

lemma writeCommitted_rewrites:
  "\<exists>p. rewritesNode (memoryNodeKey (cn_ExecutionID req) (cn_NodeName req))
     (committedNode now req (fmlookup (nodes s) (memoryNodeKey (cn_ExecutionID req) (cn_NodeName req))) p) s (writeCommitted now req s)"
  "core (writeCommitted now req s) = core s"
proof -
  define key where "key = memoryNodeKey (cn_ExecutionID req) (cn_NodeName req)"
  obtain p s1 where p: "preserveOutputPrivacyLocked key (cn_PrivateOutput req) s = (p, s1)" by fastforce
  let ?n = "committedNode now req (fmlookup (nodes s) key) p"
  have rw: "rewritesNode key ?n s (s1\<lparr>nodes := fmupd key ?n (nodes s1)\<rparr>)"
    by (rule preserve_then_store [OF p]) (simp_all add: committedNode_sel)
  have "rewritesNode key ?n s (writeCommitted now req s)"
    by (rule rewritesNode_cong [OF rw]) (simp_all add: writeCommitted_def Let_def key_def [symmetric] p)
  then show "\<exists>p. rewritesNode (memoryNodeKey (cn_ExecutionID req) (cn_NodeName req))
     (committedNode now req (fmlookup (nodes s) (memoryNodeKey (cn_ExecutionID req) (cn_NodeName req))) p) s (writeCommitted now req s)"
    unfolding key_def [symmetric] by blast
  show "core (writeCommitted now req s) = core s"
    using preserve_core [of key "cn_PrivateOutput req" s] p
    by (simp add: writeCommitted_def Let_def key_def [symmetric])
qed

lemma closeEntry_sel [simp]:
  "nodes (closeEntry eid s) = nodes s" "privateOutputs (closeEntry eid s) = privateOutputs s"
  "inDegrees (closeEntry eid s) = inDegrees s" "activeIns (closeEntry eid s) = activeIns s"
  "scheduled (closeEntry eid s) = scheduled s" "advanced (closeEntry eid s) = advanced s"
  "remaining (closeEntry eid s) = remaining s"
  by (simp_all add: closeEntry_def closeDone_def split: option.split bool.split)

lemma finishExecutionLocked_sel [simp]:
  "nodes (finishExecutionLocked now eid st e s) = nodes s"
  "privateOutputs (finishExecutionLocked now eid st e s) = privateOutputs s"
  "inDegrees (finishExecutionLocked now eid st e s) = inDegrees s"
  "activeIns (finishExecutionLocked now eid st e s) = activeIns s"
  "scheduled (finishExecutionLocked now eid st e s) = scheduled s"
  "advanced (finishExecutionLocked now eid st e s) = advanced s"
  "remaining (finishExecutionLocked now eid st e s) = remaining s"
  by (simp_all add: finishExecutionLocked_def Let_def eraseEvents_D [OF publishLocked_frame]
      withdrawDeadlineLocked_def setExecSnap_def split: option.split)

text \<open>What each stage of an accepted commit keeps of the state right after the
  record was written.\<close>

definition commitStage :: "Limits \<Rightarrow> ExecutionID \<Rightarrow> memoryState \<Rightarrow> CommitNodeResult \<times> memoryState \<Rightarrow> bool" where
  "commitStage lim eid w rs \<longleftrightarrow>
     nodes (snd rs) = nodes w \<and> privateOutputs (snd rs) = privateOutputs w
     \<and> (statusOf w eid \<noteq> None \<longrightarrow> statusOf (snd rs) eid \<noteq> None)
     \<and> cr_Applied (fst rs) \<and> cr_Outcome (fst rs) = CommitOutcomeAccepted
     \<and> (storeInv lim w \<longrightarrow> storeInv lim (snd rs)) \<and> terminalKept w (snd rs)"

lemma commitStage_core:
  assumes "commitStage lim eid w (r, s)" "core s' = core s" "nodes s' = nodes s" "privateOutputs s' = privateOutputs s"
    and "cr_Applied r' = cr_Applied r" "cr_Outcome r' = cr_Outcome r"
  shows "commitStage lim eid w (r', s')"
  using assms storeInv_core [OF assms(2)] statusOf_core [OF assms(2)] terminalKept_post [OF _ assms(2)] by (simp add: commitStage_def)

lemma commitStage_finish:
  assumes "commitStage lim eid w (r, s)" "\<forall>k. 0 < fst (lim k)" "isTerminalStatus st"
    and "cr_Applied r' = cr_Applied r" "cr_Outcome r' = cr_Outcome r"
  shows "commitStage lim eid w (r', finishExecutionLocked now eid st e s)"
  using assms finishExecutionLocked_inv [of lim s st now eid e] finish_status(1) [OF assms(3), of now eid e s]
    terminalKept_trans [OF _ terminalKept_finish [OF assms(3), of s now eid e]]
  by (auto simp: commitStage_def split: option.splits)

lemma core_counters [simp]:
  "core (s\<lparr>remaining := a\<rparr>) = core s" "core (s\<lparr>failed := b\<rparr>) = core s" "core (s\<lparr>advanced := c\<rparr>) = core s"
  by (simp_all add: core_def)

lemma countCommitted_stage:
  assumes "commitStage lim eid w rs" "\<forall>k. 0 < fst (lim k)" "cn_ExecutionID req = eid"
  shows "commitStage lim eid w (countCommitted now req rs)"
proof -
  obtain r s where rs: "rs = (r, s)" by fastforce
  define s2 where "s2 = (let s1 = s\<lparr>remaining := fmupd eid (mapGet 0 (remaining s) eid - 1) (remaining s)\<rparr>
      in if cn_Status req = NodeStatusFailed
         then s1\<lparr>failed := fmupd eid (mapGet 0 (failed s1) eid + 1) (failed s1)\<rparr> else s1)"
  have 2: "commitStage lim eid w (r, s2)"
    by (rule commitStage_core [OF assms(1) [unfolded rs]]) (simp_all add: s2_def Let_def)
  define st where "st = (if cn_Fatal req \<or> mapGet 0 (failed s2) eid > 0 then ExecutionStatusFailed else ExecutionStatusSuccess)"
  have "isTerminalStatus st" by (simp add: st_def isTerminalStatus_def)
  then have "commitStage lim eid w (r\<lparr>cr_ExecutionDone := True, cr_ExecutionStatus := st\<rparr>,
      finishExecutionLocked now eid st (TerminalExecutionError st (cn_Error req) '''') s2)"
    by (intro commitStage_finish [OF 2 assms(2)]) simp_all
  moreover have "countCommitted now req rs = (if cn_Fatal req \<or> mapGet 0 (remaining s2) eid = 0
      then (r\<lparr>cr_ExecutionDone := True, cr_ExecutionStatus := st\<rparr>,
        finishExecutionLocked now eid st (TerminalExecutionError st (cn_Error req) '''') s2) else (r, s2))"
    by (simp add: countCommitted_def rs assms(3) s2_def st_def Let_def)
  ultimately show ?thesis using 2 by simp
qed

lemma putNoted_stage:
  assumes "commitStage lim eid w rs"
  shows "commitStage lim eid w (putNoted now e i t rs)"
proof -
  obtain r s where rs: "rs = (r, s)" by fastforce
  obtain b s1 where p: "putOutboxLocked now e i t zeroTime s = (b, s1)" by fastforce
  then have s1: "s1 = snd (putOutboxLocked now e i t zeroTime s)" by simp
  have "core s1 = core s" unfolding s1 by (simp add: putOutboxLocked_def putOutboxEntryLocked_def core_def)
  then have "commitStage lim eid w (r', s1)" if "cr_Applied r' = cr_Applied r" "cr_Outcome r' = cr_Outcome r" for r'
    by (rule commitStage_core [OF assms [unfolded rs]]) (simp_all add: s1 that)
  then show ?thesis by (simp add: putNoted_def rs p split: bool.split)
qed

lemma foldArrivals_stage:
  assumes "commitStage lim eid w rs"
  shows "commitStage lim eid w (foldArrivals now req rs)"
proof -
  obtain r s where rs: "rs = (r, s)" by fastforce
  obtain ids skips s1 where a: "applyArrivalsLocked now (cn_ExecutionID req) (cn_ActivationID req) (cn_AutoDepth req) (cn_Arrivals req) s
      = ((ids, skips), s1)" by (metis prod.exhaust)
  then have "eraseSched s1 = eraseSched s" by (metis applyArrivals_frame snd_conv)
  note D = eraseSched_D [OF this]
  show ?thesis
    unfolding foldArrivals_def rs snd_conv fst_conv a prod.case
    by (rule commitStage_core [OF assms [unfolded rs]]) (simp_all add: D)
qed

lemma cyclicCommitted_stage:
  assumes "commitStage lim eid w rs" "\<forall>k. 0 < fst (lim k)" "cn_ExecutionID req = eid"
    and "cn_CyclicComplete req \<longrightarrow> isTerminalStatus (cn_CyclicFinalStatus req)"
  shows "commitStage lim eid w (cyclicCommitted now req rs)"
proof -
  have put: "commitStage lim eid w (case putOutboxEntryLocked now eid oe (snd rs) of
                    (True, s1) \<Rightarrow> ((fst rs)\<lparr>cr_OutboxIDs := cr_OutboxIDs (fst rs) @ [oe_ID oe]\<rparr>, s1)
                  | (False, s1) \<Rightarrow> (fst rs, s1))" if "commitStage lim eid w rs" for oe rs
  proof -
    obtain r s where rs: "rs = (r, s)" by fastforce
    obtain b s1 where p: "putOutboxEntryLocked now eid oe s = (b, s1)" by fastforce
    then have s1: "s1 = snd (putOutboxEntryLocked now eid oe s)" by simp
    have "core s1 = core s" "nodes s1 = nodes s" "privateOutputs s1 = privateOutputs s"
      unfolding s1 by (simp_all add: putOutboxEntryLocked_def core_def)
    then have "commitStage lim eid w (r', s1)" if "cr_Applied r' = cr_Applied r" "cr_Outcome r' = cr_Outcome r" for r'
      by (rule commitStage_core [OF \<open>commitStage lim eid w rs\<close> [unfolded rs]]) (simp_all add: that)
    then show ?thesis by (simp add: rs p split: bool.split)
  qed
  show ?thesis
    unfolding cyclicCommitted_def Let_def assms(3)
    using assms fold_inv [of "cn_CyclicOutbox req" "commitStage lim eid w"] put
      commitStage_finish [where r = "fst rs" and s = "snd rs"] by auto
qed

lemma commitStage_result:
  "commitStage lim eid w (r, s) \<Longrightarrow> cr_Applied r' = cr_Applied r \<Longrightarrow> cr_Outcome r' = cr_Outcome r \<Longrightarrow>
     commitStage lim eid w (r', s)"
  by (simp add: commitStage_def)

lemma commit_accepted_stage:
  assumes "commitVerdict s req = None" "\<forall>k. 0 < fst (lim k)"
    and "cn_CyclicComplete req \<longrightarrow> isTerminalStatus (cn_CyclicFinalStatus req)"
  shows "commitStage lim (cn_ExecutionID req) (writeCommitted now req s) (commitNodeLocked now req s)"
proof -
  define w where "w = writeCommitted now req s"
  define eid where "eid = cn_ExecutionID req"
  have 0: "commitStage lim eid w (accepted, w)" by (simp add: commitStage_def accepted_def refusal_def)
  have 1: "commitStage lim eid w (if cn_AllowCycles req then (accepted, w) else countCommitted now req (accepted, w))"
    using 0 countCommitted_stage [OF 0 assms(2)] by (simp add: eid_def)
  have 2: "commitStage lim eid w (case t of Some t \<Rightarrow> if b then putNoted now eid i t rs else rs | None \<Rightarrow> rs)"
    if "commitStage lim eid w rs" for t b i rs
    using that putNoted_stage [OF that] by (simp split: option.split)
  have 3: "commitStage lim eid w (if b then foldArrivals now req rs else rs)" if "commitStage lim eid w rs" for b rs
    using that foldArrivals_stage [OF that] by simp
  have 4: "commitStage lim eid w (if b then ((fst rs)\<lparr>cr_OutboxIDs := x\<rparr>, snd rs) else rs)" if "commitStage lim eid w rs" for b x rs
    using that commitStage_result [where r = "fst rs" and s = "snd rs"] by simp
  have 5: "commitStage lim eid w (if b then cyclicCommitted now req rs else rs)" if "commitStage lim eid w rs" for b rs
    using that cyclicCommitted_stage [OF that assms(2) eid_def [symmetric] assms(3)] by simp
  show ?thesis
    unfolding commitNodeLocked_def assms(1) option.case Let_def w_def [symmetric] eid_def [symmetric]
    by (intro 5 4 3 2 1)
qed

lemma verdict_none:
  assumes "commitVerdict s req = None"
  obtains e where "fmlookup (executions s) (cn_ExecutionID req) = Some e" "\<not> isTerminalStatus (es_Status (snap e))"
    "\<And>c. fmlookup (nodes s) (memoryNodeKey (cn_ExecutionID req) (cn_NodeName req)) = Some c \<Longrightarrow> \<not> isTerminalNode (ns_Status c)"
    "\<not> fenceRefuses s req (fmlookup (nodes s) (memoryNodeKey (cn_ExecutionID req) (cn_NodeName req)))"
  using assms by (auto simp: commitVerdict_def Let_def isTerminalStatus_def split: option.splits if_splits)

lemma commit_record:
  assumes "commitVerdict s req = None" "cn_CyclicComplete req \<longrightarrow> isTerminalStatus (cn_CyclicFinalStatus req)"
  shows "\<exists>p. rewritesNode (memoryNodeKey (cn_ExecutionID req) (cn_NodeName req))
     (committedNode now req (fmlookup (nodes s) (memoryNodeKey (cn_ExecutionID req) (cn_NodeName req))) p)
     s (snd (commitNodeLocked now req s))"
proof -
  have st: "commitStage (\<lambda>_. (1, 1)) (cn_ExecutionID req) (writeCommitted now req s) (commitNodeLocked now req s)"
    by (rule commit_accepted_stage [OF assms(1) _ assms(2)]) simp
  obtain p where "rewritesNode (memoryNodeKey (cn_ExecutionID req) (cn_NodeName req))
     (committedNode now req (fmlookup (nodes s) (memoryNodeKey (cn_ExecutionID req) (cn_NodeName req))) p) s (writeCommitted now req s)"
    using writeCommitted_rewrites(1) by blast
  then have "rewritesNode (memoryNodeKey (cn_ExecutionID req) (cn_NodeName req))
     (committedNode now req (fmlookup (nodes s) (memoryNodeKey (cn_ExecutionID req) (cn_NodeName req))) p) s (snd (commitNodeLocked now req s))"
    by (rule rewritesNode_cong) (use st in \<open>simp_all add: commitStage_def\<close>)
  then show ?thesis ..
qed

lemma commit_accepted:
  assumes "commitVerdict s req = None" "cn_CyclicComplete req \<longrightarrow> isTerminalStatus (cn_CyclicFinalStatus req)"
  shows "cr_Applied (fst (commitNodeLocked now req s))" "statusOf (snd (commitNodeLocked now req s)) (cn_ExecutionID req) \<noteq> None"
proof -
  have st: "commitStage (\<lambda>_. (1, 1)) (cn_ExecutionID req) (writeCommitted now req s) (commitNodeLocked now req s)"
    by (rule commit_accepted_stage [OF assms(1) _ assms(2)]) simp
  from assms(1) obtain e where "fmlookup (executions s) (cn_ExecutionID req) = Some e" by (rule verdict_none)
  then have "statusOf (writeCommitted now req s) (cn_ExecutionID req) \<noteq> None"
    unfolding statusOf_core [OF writeCommitted_rewrites(2)] by (simp add: statusOf_def)
  then show "cr_Applied (fst (commitNodeLocked now req s))" "statusOf (snd (commitNodeLocked now req s)) (cn_ExecutionID req) \<noteq> None"
    using st by (simp_all add: commitStage_def)
qed

lemma commitNodeLocked_inv:
  assumes "storeInv lim s" "\<forall>k. 0 < fst (lim k)" "cn_CyclicComplete req \<longrightarrow> isTerminalStatus (cn_CyclicFinalStatus req)"
  shows "storeInv lim (snd (commitNodeLocked now req s))"
proof (cases "commitVerdict s req")
  case None
  then show ?thesis
    using commit_accepted_stage [OF None assms(2,3), of now] assms(1) storeInv_core [OF writeCommitted_rewrites(2)]
    by (simp add: commitStage_def)
qed (simp add: commitNodeLocked_def assms(1))

lemma commitNodeLocked_evolves:
  assumes "cn_CyclicComplete req \<longrightarrow> isTerminalStatus (cn_CyclicFinalStatus req)"
  shows "nodesEvolve s (snd (commitNodeLocked now req s))"
proof (cases "commitVerdict s req")
  case None
  obtain p where rw: "rewritesNode (memoryNodeKey (cn_ExecutionID req) (cn_NodeName req))
     (committedNode now req (fmlookup (nodes s) (memoryNodeKey (cn_ExecutionID req) (cn_NodeName req))) p)
     s (snd (commitNodeLocked now req s))"
    using commit_record [OF None assms] by blast
  show ?thesis
    by (rule rewritesNode_evolves [OF rw])
      (use verdict_none [OF None] committedNode_timing in \<open>auto simp: endKept_def\<close>)
qed (simp add: commitNodeLocked_def)

text \<open>C2. A commit takes effect once.  Repeating an accepted commit, whether it came
  from a runner or from the engine, is answered as a duplicate, whatever happened
  to the execution in the commit, and changes nothing.\<close>

theorem commit_once:
  assumes "commitNodeLocked now req s = (res, s')" "cr_Applied res"
    and "isTerminalNode (cn_Status req)" "cn_System req \<or> cn_LeaseToken req \<noteq> ''''"
    and "cn_CyclicComplete req \<longrightarrow> isTerminalStatus (cn_CyclicFinalStatus req)"
  shows "commitNodeLocked now' req s' = (refusal CommitOutcomeDuplicateTerminal, s')"
proof -
  have v: "commitVerdict s req = None"
    using assms(1,2) by (cases "commitVerdict s req") (auto simp: commitNodeLocked_def refusal_def)
  obtain p where rw: "rewritesNode (memoryNodeKey (cn_ExecutionID req) (cn_NodeName req))
     (committedNode now req (fmlookup (nodes s) (memoryNodeKey (cn_ExecutionID req) (cn_NodeName req))) p) s s'"
    using commit_record [OF v assms(5), of now] assms(1) by auto
  have "statusOf s' (cn_ExecutionID req) \<noteq> None" using commit_accepted(2) [OF v assms(5), of now] assms(1) by simp
  then obtain e' where "fmlookup (executions s') (cn_ExecutionID req) = Some e'" by (auto simp: statusOf_def)
  then have "commitVerdict s' req = Some CommitOutcomeDuplicateTerminal"
    using rw assms(3,4) by (auto simp: commitVerdict_def Let_def rewritesNode_def duplicateOf_def committedNode_sel)
  then show ?thesis by (simp add: commitNodeLocked_def)
qed

text \<open>C1. A runner's commit is accepted exactly when the execution is live and the
  runner holds the node's current lease: lease, token, attempt and activation all
  match and the node has not ended.  A refused commit changes nothing.\<close>

theorem commit_fenced:
  assumes "\<not> cn_System req" "cn_CyclicComplete req \<longrightarrow> isTerminalStatus (cn_CyclicFinalStatus req)"
  shows "(cr_Applied (fst (commitNodeLocked now req s)) \<longleftrightarrow>
      (\<exists>st. statusOf s (cn_ExecutionID req) = Some st \<and> \<not> isTerminalStatus st)
      \<and> (\<exists>n. fmlookup (nodes s) (memoryNodeKey (cn_ExecutionID req) (cn_NodeName req)) = Some n
          \<and> nodeLeased n \<and> ns_LeaseID n = cn_LeaseID req \<and> ns_LeaseToken n = cn_LeaseToken req
          \<and> ns_Attempt n = cn_Attempt req \<and> ns_ActivationID n = cn_ActivationID req))
    \<and> (\<not> cr_Applied (fst (commitNodeLocked now req s)) \<longrightarrow> snd (commitNodeLocked now req s) = s)"
proof (cases "commitVerdict s req")
  case None
  obtain e where "fmlookup (executions s) (cn_ExecutionID req) = Some e" "\<not> isTerminalStatus (es_Status (snap e))"
    and f: "\<not> fenceRefuses s req (fmlookup (nodes s) (memoryNodeKey (cn_ExecutionID req) (cn_NodeName req)))"
    using None by (rule verdict_none)
  then have "\<exists>st. statusOf s (cn_ExecutionID req) = Some st \<and> \<not> isTerminalStatus st" by (simp add: statusOf_def)
  then show ?thesis
    using commit_accepted(1) [OF None assms(2), of now] f assms(1)
    by (auto simp: fenceRefuses_def leaseFenceRefuses_def split: option.splits)
next
  case (Some outcome)
  moreover have "\<not> isTerminalNode (ns_Status n)" if "nodeLeased n" for n by (rule nodeLeased_not_terminal [OF that])
  ultimately show ?thesis using assms(1)
    by (auto simp: commitNodeLocked_def refusal_def commitVerdict_def Let_def statusOf_def isTerminalStatus_def fenceRefuses_def
        leaseFenceRefuses_def split: option.splits if_splits)
qed

section \<open>Arrivals against their specification\<close>

text \<open>What has arrived at a unit: the edges, and those of them that were active.\<close>

definition arrivalsAt :: "int \<Rightarrow> DownstreamArrival list \<Rightarrow> DownstreamArrival list" where
  "arrivalsAt u as = filter (\<lambda>a. da_UnitIdx a = u \<and> da_ArrivalCount a > 0) as"

definition arrivedAt :: "int \<Rightarrow> DownstreamArrival list \<Rightarrow> int" where
  "arrivedAt u as = sum_list (map da_ArrivalCount (arrivalsAt u as))"

definition activeAt :: "int \<Rightarrow> DownstreamArrival list \<Rightarrow> int" where
  "activeAt u as = sum_list (map (\<lambda>a. max 0 (da_ActiveCount a)) (arrivalsAt u as))"

text \<open>The decision for a unit with \<open>edges\<close> incoming edges: it executes when all its
  edges have arrived and one of them was active, or, with \<open>wait_any\<close>, as soon as
  one active edge has arrived; it is skipped when all have arrived and none was
  active.\<close>

definition dueOf :: "bool \<Rightarrow> int \<Rightarrow> int \<Rightarrow> int \<Rightarrow> string" where
  "dueOf waitAny edges arrived active =
     (if waitAny \<and> active > 0 then ''execute''
      else if arrived \<ge> edges then (if active > 0 then ''execute'' else ''skip'')
      else '''')"

lemma outboxID_same [simp]:
  "executeOutboxID eid n act = executeOutboxID eid m act \<longleftrightarrow> n = m"
  "skipOutboxID eid n act = skipOutboxID eid m act \<longleftrightarrow> n = m"
  "executeOutboxID eid n act \<noteq> skipOutboxID eid m act" "skipOutboxID eid m act \<noteq> executeOutboxID eid n act"
  "executeOutboxID eid n act \<noteq> ''''" "skipOutboxID eid n act \<noteq> ''''"
  by (simp_all add: executeOutboxID_def skipOutboxID_def intentID_def)

definition unitAt :: "ExecutionID \<Rightarrow> int \<Rightarrow> memoryState \<Rightarrow> int \<times> int \<times> string" where
  "unitAt eid u s = (let k = memoryCounterKey eid u
     in (mapGet 0 (inDegrees s) k, mapGet 0 (activeIns s) k, mapGet '''' (scheduled s) k))"

lemma unitAt_put [simp]:
  "unitAt eid u (snd (putOutboxLocked now e i t v s)) = unitAt eid u s"
  by (simp add: unitAt_def putOutboxLocked_def putOutboxEntryLocked_def Let_def)

lemma unitAt_count:
  "unitAt eid u (countArrival eid a s) = (let (i, x, m) = unitAt eid u s
     in if da_UnitIdx a = u then (i - da_ArrivalCount a, x + max 0 (da_ActiveCount a), m) else (i, x, m))"
  by (simp add: unitAt_def countArrival_def Let_def)

lemma unitAt_mark:
  "unitAt eid u (s\<lparr>scheduled := fmupd (memoryCounterKey eid v) m (scheduled s)\<rparr>) =
     (let (i, x, m') = unitAt eid u s in (i, x, if u = v then m else m'))"
  by (auto simp: unitAt_def Let_def)

text \<open>What one arrival does to the counters and the marker of a unit.\<close>

lemma applyArrival_unit:
  "unitAt eid u (snd (applyArrival now eid act auto a s)) = (let (i, x, m) = unitAt eid u s
     in if da_UnitIdx a = u \<and> da_ArrivalCount a > 0 then
          (i - da_ArrivalCount a, x + max 0 (da_ActiveCount a),
           if m \<noteq> '''' then m else scheduleOf a x (i - da_ArrivalCount a) (x + max 0 (da_ActiveCount a)))
        else (i, x, m))"
proof (cases "da_UnitIdx a = u")
  case True
  obtain i x m where uv: "unitAt eid u s = (i, x, m)" by (cases "unitAt eid u s")
  have c: "unitAt eid u (countArrival eid a s) = (i - da_ArrivalCount a, x + max 0 (da_ActiveCount a), m)"
    using True by (simp add: unitAt_count uv)
  have v: "mapGet 0 (activeIns s) (memoryCounterKey eid u) = x"
    "mapGet 0 (inDegrees (countArrival eid a s)) (memoryCounterKey eid u) = i - da_ArrivalCount a"
    "mapGet 0 (activeIns (countArrival eid a s)) (memoryCounterKey eid u) = x + max 0 (da_ActiveCount a)"
    "mapGet '''' (scheduled s) (memoryCounterKey eid u) = m"
    using uv c by (simp_all add: unitAt_def Let_def)
  show ?thesis
    using c unitAt_mark [where eid = eid and u = u and v = u and s = "countArrival eid a s"] by (simp add: applyArrival_def Let_def v True uv)
next
  case False
  then show ?thesis
    using unitAt_count [of eid u a s] unitAt_mark [where eid = eid and u = u and v = "da_UnitIdx a" and s = "countArrival eid a s"]
    by (cases "unitAt eid u s") (simp add: applyArrival_def Let_def)
qed
lemma applyArrivals_cons [simp]:
  "snd (applyArrivalsLocked now eid act auto (a # as) s) =
     snd (applyArrivalsLocked now eid act auto as (snd (applyArrival now eid act auto a s)))"
  by (simp split: prod.split)

lemma arrived_cons:
  "arrivedAt u (a # as) = (if da_UnitIdx a = u \<and> da_ArrivalCount a > 0 then da_ArrivalCount a else 0) + arrivedAt u as"
  "activeAt u (a # as) = (if da_UnitIdx a = u \<and> da_ArrivalCount a > 0 then max 0 (da_ActiveCount a) else 0) + activeAt u as"
  by (simp_all add: arrivedAt_def activeAt_def arrivalsAt_def)

lemma arrived_nonneg: "0 \<le> arrivedAt u as"
  by (induction as) (simp_all add: arrived_cons, simp add: arrivedAt_def arrivalsAt_def)

lemma scheduleOf_due:
  assumes "(da_MergeMode a = ''wait_any'') = w" "0 \<le> x" "0 < da_ArrivalCount a" "n + da_ArrivalCount a \<le> edges"
  shows "(if dueOf w edges n x \<noteq> '''' then dueOf w edges n x
      else scheduleOf a x (edges - n - da_ArrivalCount a) (x + max 0 (da_ActiveCount a)))
    = dueOf w edges (n + da_ArrivalCount a) (x + max 0 (da_ActiveCount a))"
  using assms by (auto simp: dueOf_def scheduleOf_def max_def)

lemma applyArrivals_unit:
  assumes "unitAt eid u s = (edges - n, x, dueOf w edges n x)" "0 \<le> x" "n + arrivedAt u as \<le> edges"
    and "\<And>a. a \<in> set as \<Longrightarrow> da_UnitIdx a = u \<Longrightarrow> (da_MergeMode a = ''wait_any'') = w"
  shows "unitAt eid u (snd (applyArrivalsLocked now eid act auto as s))
    = (edges - (n + arrivedAt u as), x + activeAt u as, dueOf w edges (n + arrivedAt u as) (x + activeAt u as))"
  using assms
proof (induction as arbitrary: s n x)
  case Nil
  then show ?case by (simp add: arrivedAt_def activeAt_def arrivalsAt_def)
next
  case (Cons a as)
  let ?s = "snd (applyArrival now eid act auto a s)"
  show ?case
  proof (cases "da_UnitIdx a = u \<and> da_ArrivalCount a > 0")
    case True
    let ?n = "n + da_ArrivalCount a" and ?x = "x + max 0 (da_ActiveCount a)"
    have "n + da_ArrivalCount a \<le> edges" using Cons.prems(3) True arrived_nonneg [of u as] by (simp add: arrived_cons)
    then have "unitAt eid u ?s = (edges - ?n, ?x, dueOf w edges ?n ?x)"
      using True Cons.prems(1,2) scheduleOf_due [OF Cons.prems(4) Cons.prems(2)]
      by (simp add: applyArrival_unit)
    from Cons.IH [OF this] show ?thesis
      using Cons.prems(2,3,4) True by (simp add: arrived_cons add.assoc del: applyArrivalsLocked.simps)
  next
    case False
    then have "unitAt eid u ?s = (edges - n, x, dueOf w edges n x)"
      using Cons.prems(1) by (auto simp: applyArrival_unit)
    from Cons.IH [OF this] show ?thesis
      using Cons.prems(2,3,4) False by (auto simp: arrived_cons simp del: applyArrivalsLocked.simps)
  qed
qed

section \<open>One intent per unit\<close>

definition markerOf :: "ExecutionID \<Rightarrow> int \<Rightarrow> memoryState \<Rightarrow> string" where
  "markerOf eid u s = mapGet '''' (scheduled s) (memoryCounterKey eid u)"

lemma markerOf_unit: "markerOf eid u s = snd (snd (unitAt eid u s))"
  by (simp add: markerOf_def unitAt_def Let_def)

definition intentOK :: "ExecutionID \<Rightarrow> int \<Rightarrow> int \<Rightarrow> string \<Rightarrow> memoryState \<Rightarrow> bool" where
  "intentOK eid act u name s \<longleftrightarrow>
     (hasKey (outboxOf s eid) (executeOutboxID eid name act) \<longleftrightarrow> markerOf eid u s = ''execute'')
     \<and> (hasKey (outboxOf s eid) (skipOutboxID eid name act) \<longleftrightarrow> markerOf eid u s = ''skip'')"

lemma scheduleOf_range: "scheduleOf a p i x \<in> {'''', ''execute'', ''skip''}"
  by (simp add: scheduleOf_def)

lemma put_hasKey:
  "hasKey (outboxOf (snd (putOutboxLocked now eid i t v s)) eid) j \<longleftrightarrow> hasKey (outboxOf s eid) j \<or> i = j \<and> i \<noteq> ''''"
  by (auto simp: putOutboxLocked_def putOutboxEntryLocked_lookup hasKey_def mkOutboxEntry_def)

lemma put_marker [simp]: "markerOf eid u (snd (putOutboxLocked now e i t v s)) = markerOf eid u s"
  by (simp add: markerOf_unit)

lemma applyArrival_intent:
  assumes "intentOK eid act u name s" "da_ArrivalCount a > 0 \<Longrightarrow> da_UnitIdx a = u \<longleftrightarrow> da_NodeName a = name"
  shows "intentOK eid act u name (snd (applyArrival now eid act auto a s))"
proof (cases "da_ArrivalCount a > 0")
  case True
  define sch where "sch = scheduleOf a (mapGet 0 (activeIns s) (memoryCounterKey eid (da_UnitIdx a)))
     (mapGet 0 (inDegrees (countArrival eid a s)) (memoryCounterKey eid (da_UnitIdx a)))
     (mapGet 0 (activeIns (countArrival eid a s)) (memoryCounterKey eid (da_UnitIdx a)))"
  define i where "i = (if sch = ''skip'' then skipOutboxID eid (da_NodeName a) act else executeOutboxID eid (da_NodeName a) act)"
  define s3 where "s3 = (countArrival eid a s)\<lparr>scheduled := fmupd (memoryCounterKey eid (da_UnitIdx a)) sch (scheduled s)\<rparr>"
  have ob: "outboxOf (countArrival eid a s) eid = outboxOf s eid" "outboxOf s3 eid = outboxOf s eid"
    by (simp_all add: outboxOf_def s3_def)
  have mk: "markerOf eid u (countArrival eid a s) = markerOf eid u s"
    "markerOf eid u s3 = (if da_UnitIdx a = u then sch else markerOf eid u s)"
    by (simp_all add: markerOf_def s3_def)
  show ?thesis
  proof (cases "markerOf eid (da_UnitIdx a) s \<noteq> '''' \<or> sch = ''''")
    case True
    then have "snd (applyArrival now eid act auto a s) = countArrival eid a s"
      using \<open>0 < da_ArrivalCount a\<close> by (auto simp: applyArrival_def Let_def sch_def markerOf_def)
    then show ?thesis using assms(1) by (simp add: intentOK_def ob mk)
  next
    case False
    then obtain t where r: "snd (applyArrival now eid act auto a s) = snd (putOutboxLocked now eid i t zeroTime s3)"
      using \<open>0 < da_ArrivalCount a\<close> by (simp add: applyArrival_def Let_def sch_def [symmetric] markerOf_def s3_def i_def)
    show ?thesis
      using assms(1) assms(2) [OF True] False scheduleOf_range [of a] sch_def
      by (auto simp: intentOK_def r put_hasKey ob mk i_def)
  qed
qed (simp add: applyArrival_def assms(1))

lemma applyArrivals_intent:
  assumes "intentOK eid act u name s"
    and "\<And>a. a \<in> set as \<Longrightarrow> da_ArrivalCount a > 0 \<Longrightarrow> da_UnitIdx a = u \<longleftrightarrow> da_NodeName a = name"
  shows "intentOK eid act u name (snd (applyArrivalsLocked now eid act auto as s))"
  using assms
proof (induction as arbitrary: s)
  case (Cons a as)
  have "intentOK eid act u name (snd (applyArrival now eid act auto a s))"
    by (rule applyArrival_intent [OF Cons.prems(1)]) (simp add: Cons.prems(2))
  with Cons show ?case by (simp del: applyArrivalsLocked.simps)
qed simp

text \<open>C5. Arrivals are counted as the specification says.  Starting with a unit of
  which no edge has arrived, any list of arrivals, in any order and mixed with
  arrivals at other units, leaves the unit marked for execution exactly when all
  its edges have arrived with one of them active, or one active edge suffices
  (\<open>wait_any\<close>); marked to be skipped when all have arrived and none was active; and
  undecided otherwise.  Exactly the intent that belongs to the decision is in the
  outbox.\<close>

theorem arrivals_decide:
  assumes "mapGet 0 (inDegrees s) (memoryCounterKey eid u) = edges" "0 < edges"
    and "mapGet 0 (activeIns s) (memoryCounterKey eid u) = 0" "mapGet '''' (scheduled s) (memoryCounterKey eid u) = ''''"
    and "arrivedAt u as \<le> edges" "\<And>a. a \<in> set as \<Longrightarrow> da_UnitIdx a = u \<Longrightarrow> (da_MergeMode a = ''wait_any'') = w"
    and "\<And>a. a \<in> set as \<Longrightarrow> da_ArrivalCount a > 0 \<Longrightarrow> da_UnitIdx a = u \<longleftrightarrow> da_NodeName a = name"
    and "\<not> hasKey (outboxOf s eid) (executeOutboxID eid name act)" "\<not> hasKey (outboxOf s eid) (skipOutboxID eid name act)"
    and "s' = snd (applyArrivalsLocked now eid act auto as s)"
  shows "mapGet '''' (scheduled s') (memoryCounterKey eid u) = dueOf w edges (arrivedAt u as) (activeAt u as)
    \<and> (hasKey (outboxOf s' eid) (executeOutboxID eid name act) \<longleftrightarrow> dueOf w edges (arrivedAt u as) (activeAt u as) = ''execute'')
    \<and> (hasKey (outboxOf s' eid) (skipOutboxID eid name act) \<longleftrightarrow> dueOf w edges (arrivedAt u as) (activeAt u as) = ''skip'')"
proof -
  have "unitAt eid u s = (edges - 0, 0, dueOf w edges 0 0)"
    using assms(1-4) by (simp add: unitAt_def Let_def dueOf_def)
  from applyArrivals_unit [OF this, of as now act auto] assms(5,6)
  have m: "markerOf eid u s' = dueOf w edges (arrivedAt u as) (activeAt u as)"
    by (simp add: markerOf_unit assms(10))
  have "intentOK eid act u name s" using assms(4,8,9) by (simp add: intentOK_def markerOf_def)
  then have "intentOK eid act u name s'" unfolding assms(10) by (rule applyArrivals_intent) (simp add: assms(7))
  then show ?thesis using m by (simp add: intentOK_def markerOf_def)
qed

section \<open>Advancing once\<close>

definition advanceKeyOf :: "AdvanceNodeRequest \<Rightarrow> string" where
  "advanceKeyOf req = memoryAdvanceKey (an_ExecutionID req) (an_NodeName req) (an_ActivationID req)"

definition advanceAdmitted :: "memoryState \<Rightarrow> AdvanceNodeRequest \<Rightarrow> bool" where
  "advanceAdmitted s req \<longleftrightarrow> (\<exists>st n. statusOf s (an_ExecutionID req) = Some st \<and> \<not> isTerminalStatus st
     \<and> fmlookup (nodes s) (memoryNodeKey (an_ExecutionID req) (an_NodeName req)) = Some n
     \<and> isTerminalNode (ns_Status n) \<and> ns_ActivationID n = an_ActivationID req)
     \<and> \<not> mapGet False (advanced s) (advanceKeyOf req)"

definition markAdvanced :: "string \<Rightarrow> memoryState \<Rightarrow> memoryState" where
  "markAdvanced k s = s\<lparr>advanced := fmupd k True (advanced s)\<rparr>"

lemma AdvanceNode_cases:
  "AdvanceNode now req s = (if advanceAdmitted s req
     then (let r = applyArrivalsLocked now (an_ExecutionID req) (an_ActivationID req) (an_AutoDepth req) (an_Arrivals req)
                 (markAdvanced (advanceKeyOf req) s)
           in (\<lparr>ar_Applied = True, ar_OutboxIDs = fst (fst r), ar_Skipped = snd (fst r)\<rparr>, snd r))
     else (notAdvanced, s))"
proof -
  obtain ids skips s1 where a: "applyArrivalsLocked now (an_ExecutionID req) (an_ActivationID req) (an_AutoDepth req) (an_Arrivals req)
      (s\<lparr>advanced := fmupd (memoryAdvanceKey (an_ExecutionID req) (an_NodeName req) (an_ActivationID req)) True (advanced s)\<rparr>)
      = ((ids, skips), s1)" by (metis prod.exhaust)
  show ?thesis
    by (auto simp: AdvanceNode_def Let_def a advanceAdmitted_def advanceKeyOf_def markAdvanced_def statusOf_def isTerminalStatus_def
        split: option.splits)
qed

text \<open>Advancing a committed node is idempotent: the second delivery of the same
  advance, at whatever time, applies nothing, whether or not the first one did.\<close>

theorem advance_idempotent:
  "AdvanceNode now' req (snd (AdvanceNode now req s)) = (notAdvanced, snd (AdvanceNode now req s))"
proof -
  let ?s = "snd (applyArrivalsLocked now (an_ExecutionID req) (an_ActivationID req) (an_AutoDepth req) (an_Arrivals req)
                 (markAdvanced (advanceKeyOf req) s))"
  have "advanced ?s = advanced (markAdvanced (advanceKeyOf req) s)" by (rule eraseSched_D(5) [OF applyArrivals_frame])
  then have "\<not> advanceAdmitted ?s req" by (simp add: advanceAdmitted_def markAdvanced_def)
  then show ?thesis by (simp add: AdvanceNode_cases [of now req s] AdvanceNode_cases [of now'] Let_def)
qed

section \<open>Folding the arrivals into the commit\<close>

definition addEntry :: "ExecutionID \<Rightarrow> string \<Rightarrow> memoryOutboxEntry \<Rightarrow> memoryState \<Rightarrow> memoryState" where
  "addEntry eid i v s = s\<lparr>outbox := fmupd eid (fmupd i v (outboxOf s eid)) (outbox s)\<rparr>"

text \<open>An entry of another name, or the advance marker, may be written before or
  after an arrival.\<close>

lemma addEntry_sel [simp]:
  "inDegrees (addEntry eid i v s) = inDegrees s" "activeIns (addEntry eid i v s) = activeIns s"
  "scheduled (addEntry eid i v s) = scheduled s" "nodes (addEntry eid i v s) = nodes s"
  "executions (addEntry eid i v s) = executions s" "advanced (addEntry eid i v s) = advanced s"
  "(addEntry eid i v s)\<lparr>scheduled := m\<rparr> = addEntry eid i v (s\<lparr>scheduled := m\<rparr>)"
  "countArrival eid a (addEntry eid i v s) = addEntry eid i v (countArrival eid a s)"
  "outboxOf (addEntry eid i v s) eid = fmupd i v (outboxOf s eid)"
  by (simp_all add: addEntry_def outboxOf_def countArrival_def Let_def)

lemma put_addEntry:
  assumes "i \<noteq> j"
  shows "putOutboxLocked now eid j t w (addEntry eid i v s) =
    (fst (putOutboxLocked now eid j t w s), addEntry eid i v (snd (putOutboxLocked now eid j t w s)))"
proof -
  have "addEntry eid i v (s\<lparr>outbox := fmupd eid (fmupd j x (outboxOf s eid)) (outbox s)\<rparr>)
      = (addEntry eid i v s)\<lparr>outbox := fmupd eid (fmupd j x (outboxOf (addEntry eid i v s) eid)) (outbox (addEntry eid i v s))\<rparr>" for x
    using assms by (simp add: addEntry_def outboxOf_def fmupd_reorder_neq)
  then show ?thesis using assms by (auto simp: putOutboxLocked_def putOutboxEntryLocked_def mkOutboxEntry_def)
qed

lemma markAdvanced_sel [simp]:
  "inDegrees (markAdvanced k s) = inDegrees s" "activeIns (markAdvanced k s) = activeIns s"
  "scheduled (markAdvanced k s) = scheduled s" "nodes (markAdvanced k s) = nodes s"
  "executions (markAdvanced k s) = executions s" "outboxOf (markAdvanced k s) e = outboxOf s e"
  "(markAdvanced k s)\<lparr>scheduled := m\<rparr> = markAdvanced k (s\<lparr>scheduled := m\<rparr>)"
  "countArrival eid a (markAdvanced k s) = markAdvanced k (countArrival eid a s)"
  by (simp_all add: markAdvanced_def outboxOf_def countArrival_def Let_def)

lemma put_advanced:
  "putOutboxLocked now eid j t w (markAdvanced k s) =
    (fst (putOutboxLocked now eid j t w s), markAdvanced k (snd (putOutboxLocked now eid j t w s)))"
  by (simp add: putOutboxLocked_def putOutboxEntryLocked_def) (simp add: markAdvanced_def)

lemma applyArrival_addEntry:
  assumes "i \<noteq> executeOutboxID eid (da_NodeName a) act" "i \<noteq> skipOutboxID eid (da_NodeName a) act"
  shows "applyArrival now eid act auto a (addEntry eid i v s) =
    (fst (applyArrival now eid act auto a s), addEntry eid i v (snd (applyArrival now eid act auto a s)))"
  using put_addEntry [OF assms(1)] put_addEntry [OF assms(2)] by (simp add: applyArrival_def Let_def)

lemma applyArrival_advanced:
  "applyArrival now eid act auto a (markAdvanced k s) =
    (fst (applyArrival now eid act auto a s), markAdvanced k (snd (applyArrival now eid act auto a s)))"
  by (simp add: applyArrival_def Let_def put_advanced)

lemma advance_not_arrival:
  "advanceOutboxID eid n act \<noteq> executeOutboxID eid m act'" "advanceOutboxID eid n act \<noteq> skipOutboxID eid m act'"
  "advanceOutboxID eid n act \<noteq> ''''"
  by (simp_all add: advanceOutboxID_def executeOutboxID_def skipOutboxID_def intentID_def)

lemma applyArrivals_advance:
  "snd (applyArrivalsLocked now eid act auto as (markAdvanced k (addEntry eid (advanceOutboxID eid n act) x s))) =
    markAdvanced k (addEntry eid (advanceOutboxID eid n act) x (snd (applyArrivalsLocked now eid act auto as s)))"
proof (induction as arbitrary: s)
  case (Cons a as)
  show ?case
    unfolding applyArrivals_cons applyArrival_advanced snd_conv
    by (simp add: applyArrival_addEntry advance_not_arrival Cons del: applyArrivalsLocked.simps)
qed simp

lemma preserve_sel [simp]:
  "advanced (snd (preserveOutputPrivacyLocked k r s)) = advanced s" "outbox (snd (preserveOutputPrivacyLocked k r s)) = outbox s"
  "remaining (snd (preserveOutputPrivacyLocked k r s)) = remaining s" "failed (snd (preserveOutputPrivacyLocked k r s)) = failed s"
  by (simp_all add: preserveOutputPrivacyLocked_def Let_def split: option.split)

lemma writeCommitted_sel [simp]:
  "advanced (writeCommitted now req s) = advanced s" "outbox (writeCommitted now req s) = outbox s"
  "remaining (writeCommitted now req s) = remaining s" "failed (writeCommitted now req s) = failed s"
  using preserve_sel [where k = "memoryNodeKey (cn_ExecutionID req) (cn_NodeName req)" and r = "cn_PrivateOutput req" and s = s]
  by (auto simp: writeCommitted_def Let_def split: prod.split simp del: preserve_sel)

text \<open>The state an acyclic commit leaves before its intents are written.\<close>

definition counted :: "Time \<Rightarrow> CommitNodeRequest \<Rightarrow> memoryState \<Rightarrow> CommitNodeResult \<times> memoryState" where
  "counted now req s = countCommitted now req (accepted, writeCommitted now req s)"

lemma counted_open:
  assumes "\<not> cr_ExecutionDone (fst (counted now req s))"
  shows "fst (counted now req s) = accepted" "core (snd (counted now req s)) = core s"
    "advanced (snd (counted now req s)) = advanced s" "outbox (snd (counted now req s)) = outbox s"
    "nodes (snd (counted now req s)) = nodes (writeCommitted now req s)"
    "\<not> cn_Fatal req" "mapGet 0 (remaining s) (cn_ExecutionID req) \<noteq> 1"
  using assms writeCommitted_rewrites(2) [of now req s]
  by (auto simp: counted_def countCommitted_def Let_def accepted_def refusal_def split: if_splits)

lemma counted_done:
  assumes "cr_ExecutionDone (fst (counted now req s))" "commitVerdict s req = None"
  shows "cn_Fatal req \<or> mapGet 0 (remaining s) (cn_ExecutionID req) = 1"
    "statusOf (snd (counted now req s)) (cn_ExecutionID req) = Some (cr_ExecutionStatus (fst (counted now req s)))"
    "cr_ExecutionStatus (fst (counted now req s)) = (if cn_Fatal req
        \<or> mapGet 0 (failed s) (cn_ExecutionID req) + (if cn_Status req = NodeStatusFailed then 1 else 0) > 0
       then ExecutionStatusFailed else ExecutionStatusSuccess)"
proof -
  define eid where "eid = cn_ExecutionID req"
  define w where "w = writeCommitted now req s"
  define s2 where "s2 = (let s1 = w\<lparr>remaining := fmupd eid (mapGet 0 (remaining w) eid - 1) (remaining w)\<rparr>
      in if cn_Status req = NodeStatusFailed then s1\<lparr>failed := fmupd eid (mapGet 0 (failed s1) eid + 1) (failed s1)\<rparr> else s1)"
  define st where "st = (if cn_Fatal req \<or> mapGet 0 (failed s2) eid > 0 then ExecutionStatusFailed else ExecutionStatusSuccess)"
  have r: "mapGet 0 (remaining s2) eid = mapGet 0 (remaining s) eid - 1"
    "mapGet 0 (failed s2) eid = mapGet 0 (failed s) eid + (if cn_Status req = NodeStatusFailed then 1 else 0)"
    by (simp_all add: s2_def w_def Let_def)
  have eq: "counted now req s = (if cn_Fatal req \<or> mapGet 0 (remaining s2) eid = 0
      then (accepted\<lparr>cr_ExecutionDone := True, cr_ExecutionStatus := st\<rparr>,
        finishExecutionLocked now eid st (TerminalExecutionError st (cn_Error req) '''') s2) else (accepted, s2))"
    by (simp add: counted_def countCommitted_def s2_def st_def w_def eid_def Let_def)
  then have d: "cn_Fatal req \<or> mapGet 0 (remaining s2) eid = 0"
    using assms(1) by (auto simp: accepted_def refusal_def split: if_splits)
  then show "cn_Fatal req \<or> mapGet 0 (remaining s) (cn_ExecutionID req) = 1" using r(1) by (auto simp: eid_def)
  have "core s2 = core s" using writeCommitted_rewrites(2) [of now req s] by (simp add: s2_def w_def Let_def)
  then have "statusOf s2 eid = statusOf s eid" by (rule statusOf_core)
  moreover from assms(2) obtain e where "fmlookup (executions s) eid = Some e" "\<not> isTerminalStatus (es_Status (snap e))"
    unfolding eid_def by (rule verdict_none)
  moreover have "isTerminalStatus st" by (simp add: st_def isTerminalStatus_def)
  moreover have "statusOf s eid = Some (es_Status (snap e))" using calculation(2) by (simp add: statusOf_def)
  ultimately have "statusOf (finishExecutionLocked now eid st x s2) eid = Some st" for x
    by (simp add: finish_status(1))
  then show "statusOf (snd (counted now req s)) (cn_ExecutionID req) = Some (cr_ExecutionStatus (fst (counted now req s)))"
    using d by (simp add: eq eid_def)
  show "cr_ExecutionStatus (fst (counted now req s)) = (if cn_Fatal req
        \<or> mapGet 0 (failed s) (cn_ExecutionID req) + (if cn_Status req = NodeStatusFailed then 1 else 0) > 0
       then ExecutionStatusFailed else ExecutionStatusSuccess)"
    using d r(2) by (auto simp: eq st_def eid_def)
qed

lemma commit_done:
  assumes "commitVerdict s req = None" "\<not> cn_AllowCycles req" "cr_ExecutionDone (fst (counted now req s))"
  shows "commitNodeLocked now req s = counted now req s"
  using assms by (simp add: commitNodeLocked_def counted_def [symmetric] Let_def split: option.split)

lemma commit_folding:
  assumes "commitVerdict s req = None" "\<not> cn_AllowCycles req" "\<not> cr_ExecutionDone (fst (counted now req s))"
    and "cn_AdvanceTask req = None" "cn_MergeCancel req = None" "statusOf s (cn_ExecutionID req) \<noteq> Some ExecutionStatusCanceling"
  shows "snd (commitNodeLocked now req s) =
    snd (applyArrivalsLocked now (cn_ExecutionID req) (cn_ActivationID req) (cn_AutoDepth req) (cn_Arrivals req) (snd (counted now req s)))"
    "\<not> cr_ExecutionDone (fst (commitNodeLocked now req s))"
proof -
  note c = counted_open [OF assms(3)]
  show "snd (commitNodeLocked now req s) =
    snd (applyArrivalsLocked now (cn_ExecutionID req) (cn_ActivationID req) (cn_AutoDepth req) (cn_Arrivals req) (snd (counted now req s)))"
    "\<not> cr_ExecutionDone (fst (commitNodeLocked now req s))"
    using assms c(6) by (simp_all add: commitNodeLocked_def counted_def [symmetric] Let_def foldArrivals_def split: prod.split)
qed

lemma commit_advancing:
  assumes "commitVerdict s req = None" "\<not> cn_AllowCycles req" "\<not> cr_ExecutionDone (fst (counted now req s))"
    and "cn_AdvanceTask req = Some t" "cn_MergeCancel req = None" "cn_Arrivals req = []"
  shows "snd (commitNodeLocked now req s) = snd (putOutboxLocked now (cn_ExecutionID req)
    (advanceOutboxID (cn_ExecutionID req) (cn_NodeName req) (cn_ActivationID req)) t zeroTime (snd (counted now req s)))"
proof -
  define rs2 where "rs2 = putNoted now (cn_ExecutionID req)
    (advanceOutboxID (cn_ExecutionID req) (cn_NodeName req) (cn_ActivationID req)) t (counted now req s)"
  have 2: "snd rs2 = snd (putOutboxLocked now (cn_ExecutionID req)
      (advanceOutboxID (cn_ExecutionID req) (cn_NodeName req) (cn_ActivationID req)) t zeroTime (snd (counted now req s)))"
    "\<not> cr_ExecutionDone (fst rs2)"
    using assms(3) by (simp_all add: rs2_def putNoted_def split: prod.split bool.split)
  have f: "snd (foldArrivals now req rs2) = snd rs2" "\<not> cr_ExecutionDone (fst (foldArrivals now req rs2))"
    using 2(2) by (simp_all add: foldArrivals_def assms(6))
  show ?thesis
    unfolding commitNodeLocked_def assms(1,4,5) option.case Let_def counted_def [symmetric]
    using assms(2,3) counted_open(6) [OF assms(3)] by (simp add: rs2_def [symmetric] 2 f)
qed

lemma commit_open:
  assumes "commitVerdict s req = None" "\<not> cn_AllowCycles req" "\<not> cr_ExecutionDone (fst (counted now req s))"
  shows "\<not> cr_ExecutionDone (fst (commitNodeLocked now req s))" "core (snd (commitNodeLocked now req s)) = core s"
    "remaining (snd (commitNodeLocked now req s)) = remaining (snd (counted now req s))"
proof -
  note v = assms(1) and False = assms(3) and c = counted_open [OF assms(3)]
  define P where "P rs \<longleftrightarrow> \<not> cr_ExecutionDone (fst rs) \<and> core (snd rs) = core s \<and> remaining (snd rs) = remaining (snd (counted now req s))"
    for rs :: "CommitNodeResult \<times> memoryState"
  have put: "P (putNoted now x i t rs)" if "P rs" for x i t rs
  proof -
    obtain b s1 where p: "putOutboxLocked now x i t zeroTime (snd rs) = (b, s1)" by fastforce
    then have s1: "s1 = snd (putOutboxLocked now x i t zeroTime (snd rs))" by simp
    have "core s1 = core (snd rs)" "remaining s1 = remaining (snd rs)"
      unfolding s1 by (simp_all add: putOutboxLocked_def putOutboxEntryLocked_def core_def)
    then show ?thesis using that by (simp add: P_def putNoted_def p split: bool.split)
  qed
  have arr: "P (foldArrivals now req rs)" if "P rs" for rs
    using that eraseSched_D(1,6) [OF applyArrivals_frame [of now "cn_ExecutionID req" "cn_ActivationID req" "cn_AutoDepth req" "cn_Arrivals req" "snd rs"]]
    by (auto simp: P_def foldArrivals_def split: prod.split)
  have 1: "P (if cn_AllowCycles req then x else counted now req s)" for x using False c(2) assms(2) by (simp add: P_def)
  have 2: "P (case t of Some t \<Rightarrow> if b then putNoted now x i t rs else rs | None \<Rightarrow> rs)" if "P rs" for t b x i rs
    using that put [OF that] by (simp split: option.split)
  have 3: "P (if b then foldArrivals now req rs else rs)" if "P rs" for b rs using that arr by simp
  have 4: "P (if b then ((fst rs)\<lparr>cr_OutboxIDs := x\<rparr>, snd rs) else rs)" if "P rs" for b x rs using that by (simp add: P_def)
  have 5: "P (if cn_AllowCycles req \<and> b then y else rs)" if "P rs" for b y rs using that assms(2) by simp
  have "P (commitNodeLocked now req s)"
    unfolding commitNodeLocked_def v option.case Let_def counted_def [symmetric]
    by (rule 5, rule 4, rule 3, rule 2, rule 2, rule 1)
  then show "\<not> cr_ExecutionDone (fst (commitNodeLocked now req s))" "core (snd (commitNodeLocked now req s)) = core s"
    "remaining (snd (commitNodeLocked now req s)) = remaining (snd (counted now req s))" by (simp_all add: P_def)
qed

text \<open>C7. A commit that finishes its execution does so at the right moment and with the
  right status.  An accepted commit of an acyclic execution that is not being canceled
  lowers the number of open units by one; it finishes the execution exactly when it
  is fatal or was the last open unit; and the execution then has failed exactly when
  the commit is fatal or some unit, this one included, has failed.  (A canceling
  execution is left out: its end belongs to the cancellation, and
  \<open>canceling_overwritten\<close> below shows that the code does not respect that.)\<close>

theorem commit_completes:
  assumes "commitNodeLocked now req s = (res, s')" "cr_Applied res" "\<not> cn_AllowCycles req"
    and "eid = cn_ExecutionID req" "failures = mapGet 0 (failed s) eid + (if cn_Status req = NodeStatusFailed then 1 else 0)"
    and "statusOf s eid \<noteq> Some ExecutionStatusCanceling"
  shows "mapGet 0 (remaining s') eid = mapGet 0 (remaining s) eid - 1
    \<and> (cr_ExecutionDone res \<longleftrightarrow> cn_Fatal req \<or> mapGet 0 (remaining s) eid = 1)
    \<and> statusOf s' eid = (if cr_ExecutionDone res
        then Some (if cn_Fatal req \<or> failures > 0 then ExecutionStatusFailed else ExecutionStatusSuccess) else statusOf s eid)"
proof -
  have v: "commitVerdict s req = None"
    using assms(1,2) by (cases "commitVerdict s req") (auto simp: commitNodeLocked_def refusal_def)
  have rem: "mapGet 0 (remaining (snd (counted now req s))) eid = mapGet 0 (remaining s) eid - 1"
    by (simp add: counted_def countCommitted_def Let_def assms(4))
  show ?thesis
  proof (cases "cr_ExecutionDone (fst (counted now req s))")
    case True
    then have "(res, s') = counted now req s" using commit_done [OF v assms(3)] assms(1) by simp
    then have "res = fst (counted now req s)" "s' = snd (counted now req s)" by (metis fst_conv snd_conv)+
    then show ?thesis using True rem counted_done [OF True v] assms(4,5) by simp
  next
    case False
    note c = counted_open [OF False]
    have "\<not> cr_ExecutionDone res" "core s' = core s" "remaining s' = remaining (snd (counted now req s))"
      using commit_open [OF v assms(3) False] by (simp_all add: assms(1))
    moreover from this(2) have "statusOf s' eid = statusOf s eid" by (rule statusOf_core)
    ultimately show ?thesis using rem c(6,7) assms(4) by simp
  qed
qed

text \<open>A commit that finishes the execution overwrites a cancellation in progress.\<close>

lemma canceling_overwritten:
  assumes "commitVerdict s req = None" "\<not> cn_AllowCycles req" "\<not> cn_Fatal req" "cn_Status req \<noteq> NodeStatusFailed"
    and "statusOf s (cn_ExecutionID req) = Some ExecutionStatusCanceling"
    and "mapGet 0 (remaining s) (cn_ExecutionID req) = 1" "mapGet 0 (failed s) (cn_ExecutionID req) = 0"
  shows "statusOf (snd (commitNodeLocked now req s)) (cn_ExecutionID req) = Some ExecutionStatusSuccess"
proof -
  have d: "cr_ExecutionDone (fst (counted now req s))" using counted_open(7) [of now req s] assms(6) by auto
  show ?thesis using counted_done(2,3) [OF d assms(1)] commit_done [OF assms(1,2) d] assms by simp
qed

section \<open>Folding is equivalent to advancing\<close>

definition unfolded :: "Task \<Rightarrow> CommitNodeRequest \<Rightarrow> CommitNodeRequest" where
  "unfolded t req = req\<lparr>cn_Arrivals := [], cn_AdvanceTask := Some t\<rparr>"

definition advanceOf :: "CommitNodeRequest \<Rightarrow> AdvanceNodeRequest" where
  "advanceOf req = \<lparr>an_ExecutionID = cn_ExecutionID req, an_NodeName = cn_NodeName req, an_NodeIdx = cn_NodeIdx req,
     an_ActivationID = cn_ActivationID req, an_AutoDepth = cn_AutoDepth req, an_Arrivals = cn_Arrivals req\<rparr>"

lemma unfolded_sel [simp]:
  "cn_ExecutionID (unfolded t req) = cn_ExecutionID req" "cn_NodeName (unfolded t req) = cn_NodeName req"
  "cn_ActivationID (unfolded t req) = cn_ActivationID req" "cn_AllowCycles (unfolded t req) = cn_AllowCycles req"
  "cn_NodeIdx (unfolded t req) = cn_NodeIdx req" "cn_UnitIdx (unfolded t req) = cn_UnitIdx req"
  "cn_AutoDepth (unfolded t req) = cn_AutoDepth req" "cn_LeaseID (unfolded t req) = cn_LeaseID req"
  "cn_LeaseToken (unfolded t req) = cn_LeaseToken req" "cn_Attempt (unfolded t req) = cn_Attempt req"
  "cn_Status (unfolded t req) = cn_Status req" "cn_Output (unfolded t req) = cn_Output req"
  "cn_StoreOutput (unfolded t req) = cn_StoreOutput req" "cn_ReclaimOutputNames (unfolded t req) = cn_ReclaimOutputNames req"
  "cn_PrivateOutput (unfolded t req) = cn_PrivateOutput req" "cn_Port (unfolded t req) = cn_Port req"
  "cn_Error (unfolded t req) = cn_Error req" "cn_ErrorDetails (unfolded t req) = cn_ErrorDetails req"
  "cn_System (unfolded t req) = cn_System req" "cn_Fatal (unfolded t req) = cn_Fatal req"
  "cn_AdvanceTask (unfolded t req) = Some t" "cn_MergeCancel (unfolded t req) = cn_MergeCancel req" "cn_Arrivals (unfolded t req) = []"
  by (simp_all add: unfolded_def)

lemma unfolded_same:
  "commitVerdict s (unfolded t req) = commitVerdict s req" "counted now (unfolded t req) s = counted now req s"
proof -
  have f: "fenceRefuses s (unfolded t req) c = fenceRefuses s req c" "duplicateOf (unfolded t req) n = duplicateOf req n" for c n
    unfolding fenceRefuses_def cancelFenceAdmitsLocked_def systemFenceRefuses_def leaseFenceRefuses_def duplicateOf_def
      unfolded_sel by (rule refl)+
  show "commitVerdict s (unfolded t req) = commitVerdict s req" unfolding commitVerdict_def unfolded_sel f ..
  have n: "committedNode now (unfolded t req) c p = committedNode now req c p" for c p
    unfolding committedNode_def unfolded_sel ..
  show "counted now (unfolded t req) s = counted now req s"
    unfolding counted_def countCommitted_def writeCommitted_def unfolded_sel n ..
qed

lemma put_is_add:
  assumes "\<not> hasKey (outboxOf s eid) i" "i \<noteq> ''''"
  shows "\<exists>v. snd (putOutboxLocked now eid i t w s) = addEntry eid i v s"
  using assms by (auto simp: putOutboxLocked_def putOutboxEntryLocked_def mkOutboxEntry_def addEntry_def)

text \<open>C6. Folding the arrivals into the commit is equivalent to the separate advance.
  The commit that applies the arrivals itself, and the commit that writes an advance
  intent followed by the advance, end in the same store, up to the advance intent and
  the marker that the advance was done.  The conditions: the commit is accepted, is
  acyclic, brings its node to an end and cancels no branches of a merge; the execution
  stays open and is not canceling; this activation was not advanced before and has no
  advance intent; and the commit and the advance read the same clock, which the
  intents they write record.\<close>

theorem folding_equivalent:
  assumes "commitVerdict s req = None" "\<not> cn_AllowCycles req" "\<not> cr_ExecutionDone (fst (commitNodeLocked now req s))"
    and "cn_AdvanceTask req = None" "cn_MergeCancel req = None" "isTerminalNode (cn_Status req)"
    and "eid = cn_ExecutionID req" "statusOf s eid \<noteq> Some ExecutionStatusCanceling"
    and "k = memoryAdvanceKey eid (cn_NodeName req) (cn_ActivationID req)" "\<not> mapGet False (advanced s) k"
    and "i = advanceOutboxID eid (cn_NodeName req) (cn_ActivationID req)" "\<not> hasKey (outboxOf s eid) i"
  shows "\<exists>v. snd (AdvanceNode now (advanceOf req) (snd (commitNodeLocked now (unfolded t req) s)))
    = markAdvanced k (addEntry eid i v (snd (commitNodeLocked now req s)))"
proof -
  have nd: "\<not> cr_ExecutionDone (fst (counted now req s))"
    using assms(3) commit_done [OF assms(1,2)] by auto
  note c = counted_open [OF nd]
  define s1 where "s1 = snd (counted now req s)"
  have "\<not> hasKey (outboxOf s1 eid) i" using assms(12) c(4) by (simp add: s1_def outboxOf_def)
  then obtain v where v: "snd (putOutboxLocked now eid i t zeroTime s1) = addEntry eid i v s1"
    using put_is_add advance_not_arrival(3) assms(11) by metis
  have u: "snd (commitNodeLocked now (unfolded t req) s) = addEntry eid i v s1"
    using commit_advancing [of s "unfolded t req" now t] assms(1,2,5,7,11) nd v by (simp add: unfolded_same s1_def)
  have f: "snd (commitNodeLocked now req s) =
      snd (applyArrivalsLocked now eid (cn_ActivationID req) (cn_AutoDepth req) (cn_Arrivals req) s1)"
    using commit_folding(1) [OF assms(1,2) nd assms(4,5)] assms(7,8) by (simp add: s1_def)
  have "core (addEntry eid i v s1) = core s1" by (simp add: addEntry_def core_def)
  then have st: "statusOf (addEntry eid i v s1) eid = statusOf s eid"
    using c(2) by (intro statusOf_core) (simp add: s1_def)
  obtain e where "fmlookup (executions s) eid = Some e" "\<not> isTerminalStatus (es_Status (snap e))"
    using assms(1,7) verdict_none by metis
  then have e: "statusOf s eid = Some (es_Status (snap e))" "\<not> isTerminalStatus (es_Status (snap e))" by (simp_all add: statusOf_def)
  obtain p where "rewritesNode (memoryNodeKey eid (cn_NodeName req))
      (committedNode now req (fmlookup (nodes s) (memoryNodeKey eid (cn_NodeName req))) p) s (writeCommitted now req s)"
    using writeCommitted_rewrites(1) [of req now s] assms(7) by auto
  then obtain n where "fmlookup (nodes s1) (memoryNodeKey eid (cn_NodeName req)) = Some n" "isTerminalNode (ns_Status n)"
    "ns_ActivationID n = cn_ActivationID req"
    using c(5) assms(6) by (simp add: rewritesNode_def s1_def committedNode_sel)
  then have "advanceAdmitted (addEntry eid i v s1) (advanceOf req)"
    using st e c(3) assms(7,9,10) by (simp add: advanceAdmitted_def advanceOf_def advanceKeyOf_def s1_def)
  then show ?thesis
    using applyArrivals_advance [of now eid "cn_ActivationID req" "cn_AutoDepth req" "cn_Arrivals req" k "cn_NodeName req" v s1]
      assms(7,9,11)
    unfolding u f AdvanceNode_cases by (intro exI [of _ v]) (simp add: Let_def advanceOf_def advanceKeyOf_def)
qed

section \<open>A store to commit to\<close>

definition sampleArrival :: DownstreamArrival where
  "sampleArrival = \<lparr>da_NodeName = ''b'', da_NodeIdx = 1, da_UnitIdx = 1, da_ArrivalCount = 1, da_ActiveCount = 1,
     da_MergeMode = ''wait_all'', da_ExecTaskType = TaskTypeNodeExec\<rparr>"

definition sampleCommit :: CommitNodeRequest where
  "sampleCommit = \<lparr>cn_ExecutionID = ''ex'', cn_NodeName = ''a'', cn_NodeIdx = 0, cn_UnitIdx = 0, cn_ActivationID = 1,
     cn_AutoDepth = 0, cn_LeaseID = ''t1'', cn_LeaseToken = ''t1'', cn_Attempt = 1, cn_Status = NodeStatusSuccess,
     cn_Output = None, cn_StoreOutput = True, cn_ReclaimOutputNames = [], cn_PrivateOutput = False, cn_Port = ''main'',
     cn_Error = '''', cn_ErrorDetails = None, cn_System = False, cn_Fatal = False, cn_AdvanceTask = None,
     cn_MergeCancel = None, cn_Arrivals = [sampleArrival], cn_AllowCycles = False, cn_CyclicOutbox = [],
     cn_CyclicComplete = False, cn_CyclicFinalStatus = ExecutionStatusEmpty, cn_CyclicFinalError = ''''\<rparr>"

definition sampleRun :: "int \<Rightarrow> memoryState" where
  "sampleRun open_units = sampleLeased\<lparr>
     executions := fmap_of_list [(''ex'', \<lparr>snap = zeroExecution\<lparr>es_ID := ''ex'', es_Status := ExecutionStatusRunning\<rparr>, closed = False\<rparr>)],
     remaining := fmap_of_list [(''ex'', open_units)], inDegrees := fmap_of_list [(''ex/1'', 1)]\<rparr>"

theorem commit_once_witness:
  "fst (commitNodeLocked 130 sampleCommit (snd (commitNodeLocked 120 sampleCommit (sampleRun 2))))
     = refusal CommitOutcomeDuplicateTerminal"
proof -
  let ?c = "commitNodeLocked 120 sampleCommit (sampleRun 2)"
  have a: "cr_Applied (fst ?c)" by code_simp
  have "commitNodeLocked 130 sampleCommit (snd ?c) = (refusal CommitOutcomeDuplicateTerminal, snd ?c)"
    by (rule commit_once [OF _ a]) (simp_all add: sampleCommit_def isTerminalNode_def)
  then show ?thesis by simp
qed

theorem commit_fenced_witness:
  "snd (commitNodeLocked 120 (sampleCommit\<lparr>cn_LeaseToken := ''t0''\<rparr>) (sampleRun 2)) = sampleRun 2"
proof -
  have "\<not> cr_Applied (fst (commitNodeLocked 120 (sampleCommit\<lparr>cn_LeaseToken := ''t0''\<rparr>) (sampleRun 2)))" by code_simp
  then show ?thesis
    using commit_fenced [of "sampleCommit\<lparr>cn_LeaseToken := ''t0''\<rparr>" 120 "sampleRun 2"] by (simp add: sampleCommit_def)
qed

theorem arrivals_decide_witness:
  "mapGet '''' (scheduled (snd (applyArrivalsLocked 120 ''ex'' 1 0 [sampleArrival] (sampleRun 2)))) (memoryCounterKey ''ex'' 1) = ''execute''"
proof -
  have s: "mapGet 0 (inDegrees (sampleRun 2)) (memoryCounterKey ''ex'' 1) = 1"
    "mapGet 0 (activeIns (sampleRun 2)) (memoryCounterKey ''ex'' 1) = 0"
    "mapGet '''' (scheduled (sampleRun 2)) (memoryCounterKey ''ex'' 1) = ''''"
    "\<not> hasKey (outboxOf (sampleRun 2) ''ex'') (executeOutboxID ''ex'' ''b'' 1)"
    "\<not> hasKey (outboxOf (sampleRun 2) ''ex'') (skipOutboxID ''ex'' ''b'' 1)"
    by code_simp+
  have a: "arrivedAt 1 [sampleArrival] = 1" "activeAt 1 [sampleArrival] = 1" by code_simp+
  show ?thesis
    using arrivals_decide [OF s(1) _ s(2,3) _ _ _ s(4,5) refl, of "[sampleArrival]" False 120 0] a
    by (simp add: sampleArrival_def dueOf_def)
qed

theorem commit_completes_witness:
  "statusOf (snd (commitNodeLocked 120 sampleCommit (sampleRun 1))) ''ex'' = Some ExecutionStatusSuccess"
proof -
  let ?c = "commitNodeLocked 120 sampleCommit (sampleRun 1)"
  have a: "cr_Applied (fst ?c)" by code_simp
  have r: "mapGet 0 (remaining (sampleRun 1)) ''ex'' = 1" "mapGet 0 (failed (sampleRun 1)) ''ex'' = 0"
    "statusOf (sampleRun 1) ''ex'' \<noteq> Some ExecutionStatusCanceling" by code_simp+
  show ?thesis
    using commit_completes [OF prod.collapse [symmetric] a _ refl refl] r by (simp add: sampleCommit_def)
qed

theorem folding_equivalent_witness:
  "\<exists>v. snd (AdvanceNode 120 (advanceOf sampleCommit) (snd (commitNodeLocked 120 (unfolded emptyTask sampleCommit) (sampleRun 2))))
    = markAdvanced (memoryAdvanceKey ''ex'' ''a'' 1)
        (addEntry ''ex'' (advanceOutboxID ''ex'' ''a'' 1) v (snd (commitNodeLocked 120 sampleCommit (sampleRun 2))))"
proof -
  have v: "commitVerdict (sampleRun 2) sampleCommit = None" "\<not> cr_ExecutionDone (fst (commitNodeLocked 120 sampleCommit (sampleRun 2)))"
    "statusOf (sampleRun 2) ''ex'' \<noteq> Some ExecutionStatusCanceling"
    "\<not> mapGet False (advanced (sampleRun 2)) (memoryAdvanceKey ''ex'' ''a'' 1)"
    "\<not> hasKey (outboxOf (sampleRun 2) ''ex'') (advanceOutboxID ''ex'' ''a'' 1)"
    by code_simp+
  show ?thesis
    by (rule folding_equivalent [OF v(1) _ v(2)]) (use v in \<open>simp_all add: sampleCommit_def isTerminalNode_def\<close>)
qed

end
