(* ===== verification/GroupState.thy ===== *)
theory GroupState
  imports NodeCommit
begin

text \<open>
  Group units in the local store (\<open>group_state.go\<close>): a group of nodes is leased,
  renewed, expired and committed as one unit.  A lease carries the fields the
  store reads; the runner-facing ones (input, package, namespace) are not part of
  the model.
\<close>

section \<open>Requests and results\<close>

datatype GroupOutcome = GroupOutcomeSuccess | GroupOutcomeFailed | GroupOutcomeTimeout | GroupOutcomeCanceled

record GroupExitResult =
  ge_NodeIdx :: int
  ge_NodeName :: string
  ge_Port :: string
  ge_Data :: data
  ge_PrivateOutput :: bool

record GroupLease =
  gl_LeaseID :: LeaseID
  gl_LeaseToken :: LeaseToken
  gl_Attempt :: int
  gl_ExecutionID :: ExecutionID
  gl_GroupUnitIdx :: int
  gl_GroupName :: string
  gl_EntryNodeIdx :: int
  gl_ActivationID :: int
  gl_IssuedAt :: Time
  gl_TTL :: Duration

record GroupCommitRequest =
  gc_ExecutionID :: ExecutionID
  gc_GroupUnitIdx :: int
  gc_LeaseToken :: LeaseToken
  gc_Attempt :: int
  gc_Outcome :: GroupOutcome
  gc_Exits :: "GroupExitResult list"
  gc_Error :: string
  gc_Fatal :: bool
  gc_Downstream :: "DownstreamArrival list"

record GroupCommitResult =
  gr_Outcome :: CommitOutcome
  gr_Applied :: bool
  gr_ExecutionDone :: bool
  gr_ExecutionStatus :: ExecutionStatus
  gr_OutboxIDs :: "string list"
  gr_Skipped :: "SkippedUnit list"

datatype GroupUnitPhase = GroupUnitPhaseNone | GroupUnitPhasePending | GroupUnitPhaseRunning | GroupUnitPhaseDone

section \<open>Leases\<close>

definition groupKey :: "ExecutionID \<Rightarrow> int \<Rightarrow> string" where
  "groupKey eid unitIdx = eid @ ''/'' @ itoa unitIdx"

definition GetGroupUnitPhase :: "memoryState \<Rightarrow> ExecutionID \<Rightarrow> int \<Rightarrow> GroupUnitPhase \<times> bool" where
  "GetGroupUnitPhase s eid unitIdx = (case fmlookup (groupUnits s) (groupKey eid unitIdx) of
      None \<Rightarrow> (GroupUnitPhaseNone, False)
    | Some st \<Rightarrow> (case gu_status st of
        groupUnitPending \<Rightarrow> (GroupUnitPhasePending, True)
      | groupUnitRunning \<Rightarrow> (GroupUnitPhaseRunning, True)
      | groupUnitDone \<Rightarrow> (GroupUnitPhaseDone, True)
      | groupUnitSuspended \<Rightarrow> (GroupUnitPhaseNone, True)))"

definition newGroupUnit :: "groupUnitStatus \<Rightarrow> LeaseToken \<Rightarrow> groupUnitState" where
  "newGroupUnit status committed = \<lparr>gu_status = status, gu_leaseID = '''', gu_leaseToken = '''', gu_attempt = 0,
     gu_deadline = zeroTime, gu_committedToken = committed, gu_execID = '''', gu_unitIdx = 0, gu_groupName = '''',
     gu_entryNodeIdx = 0, gu_activationID = 0, gu_issuedAt = zeroTime, gu_ttl = 0\<rparr>"

text \<open>The lease's attempt number, which the source writes back into the lease, is
  the first component of an acceptance.\<close>

definition AcquireGroupLease :: "GroupLease \<Rightarrow> memoryState \<Rightarrow> int option \<times> memoryState" where
  "AcquireGroupLease lease s =
     (let key = groupKey (gl_ExecutionID lease) (gl_GroupUnitIdx lease);
          st = (case fmlookup (groupUnits s) key of None \<Rightarrow> newGroupUnit groupUnitPending '''' | Some st \<Rightarrow> st);
          s1 = s\<lparr>groupUnits := fmupd key st (groupUnits s)\<rparr>
      in if gu_status st \<in> {groupUnitRunning, groupUnitDone} then (None, s1)
         else
           let attempt = (if gu_attempt st \<ge> gl_Attempt lease then gu_attempt st + 1 else gl_Attempt lease)
           in (Some attempt, s1\<lparr>groupUnits := fmupd key
                 (st\<lparr>gu_status := groupUnitRunning, gu_leaseID := gl_LeaseID lease, gu_leaseToken := gl_LeaseToken lease,
                    gu_attempt := attempt, gu_deadline := gl_IssuedAt lease + gl_TTL lease,
                    gu_execID := gl_ExecutionID lease, gu_unitIdx := gl_GroupUnitIdx lease,
                    gu_groupName := gl_GroupName lease, gu_entryNodeIdx := gl_EntryNodeIdx lease,
                    gu_activationID := gl_ActivationID lease, gu_issuedAt := gl_IssuedAt lease, gu_ttl := gl_TTL lease\<rparr>)
                 (groupUnits s1)\<rparr>))"

definition holdsGroup :: "groupUnitState option \<Rightarrow> LeaseToken \<Rightarrow> bool" where
  "holdsGroup st token = (case st of None \<Rightarrow> False
      | Some g \<Rightarrow> gu_status g = groupUnitRunning \<and> gu_leaseToken g = token)"

definition RenewGroupLease :: "ExecutionID \<Rightarrow> int \<Rightarrow> LeaseToken \<Rightarrow> Time \<Rightarrow> memoryState \<Rightarrow> bool \<times> memoryState" where
  "RenewGroupLease eid unitIdx token deadline s =
     (let key = groupKey eid unitIdx; st = fmlookup (groupUnits s) key
      in if \<not> holdsGroup st token then (False, s)
         else (True, s\<lparr>groupUnits := fmupd key ((the st)\<lparr>gu_deadline := deadline\<rparr>) (groupUnits s)\<rparr>))"

definition GetGroupLease :: "memoryState \<Rightarrow> ExecutionID \<Rightarrow> int \<Rightarrow> GroupLease option" where
  "GetGroupLease s eid unitIdx = (case fmlookup (groupUnits s) (groupKey eid unitIdx) of
      None \<Rightarrow> None
    | Some st \<Rightarrow> if gu_status st \<noteq> groupUnitRunning then None
        else Some \<lparr>gl_LeaseID = gu_leaseID st, gl_LeaseToken = gu_leaseToken st, gl_Attempt = gu_attempt st,
               gl_ExecutionID = eid, gl_GroupUnitIdx = unitIdx, gl_GroupName = gu_groupName st,
               gl_EntryNodeIdx = gu_entryNodeIdx st, gl_ActivationID = gu_activationID st,
               gl_IssuedAt = gu_issuedAt st, gl_TTL = gu_ttl st\<rparr>)"

definition expireGroupLeaseLocked :: "ExecutionID \<Rightarrow> int \<Rightarrow> LeaseToken \<Rightarrow> memoryState \<Rightarrow> bool \<times> memoryState" where
  "expireGroupLeaseLocked eid unitIdx token s =
     (let key = groupKey eid unitIdx; st = fmlookup (groupUnits s) key
      in if \<not> holdsGroup st token then (False, s)
         else (True, s\<lparr>groupUnits := fmupd key ((the st)\<lparr>gu_status := groupUnitPending, gu_leaseID := '''',
                 gu_leaseToken := '''', gu_deadline := zeroTime\<rparr>) (groupUnits s)\<rparr>))"

definition ExpireGroupLease :: "ExecutionID \<Rightarrow> int \<Rightarrow> LeaseToken \<Rightarrow> memoryState \<Rightarrow> bool \<times> memoryState" where
  "ExpireGroupLease eid unitIdx token s = expireGroupLeaseLocked eid unitIdx token s"

definition RevokeGroupLeaseWithOutbox :: "Time \<Rightarrow> ExecutionID \<Rightarrow> int \<Rightarrow> LeaseToken \<Rightarrow> OutboxEntry \<Rightarrow> memoryState \<Rightarrow>
    (StoreError, bool) result \<times> memoryState" where
  "RevokeGroupLeaseWithOutbox now eid unitIdx token entry s =
     (if token = '''' then (Inr False, s)
      else if oe_ID entry = '''' then (Inl ErrEmptyOutboxID, s)
      else case expireGroupLeaseLocked eid unitIdx token s of
        (False, s1) \<Rightarrow> (Inr False, s1)
      | (True, s1) \<Rightarrow> (Inr True, snd (putOutboxLocked now eid (oe_ID entry) (oe_Task entry) (oe_AvailableAt entry) s1)))"

section \<open>Committing a group\<close>

text \<open>The loop over the arrivals with its two result slices, as the source has it.\<close>

definition groupArrival :: "Time \<Rightarrow> ExecutionID \<Rightarrow> DownstreamArrival \<Rightarrow>
    (string list \<times> SkippedUnit list) \<times> memoryState \<Rightarrow> (string list \<times> SkippedUnit list) \<times> memoryState" where
  "groupArrival now eid a r =
     (let ids = fst (fst r); skipped = snd (fst r); s = snd r;
          counterKey = memoryCounterKey eid (da_UnitIdx a);
          previousActive = mapGet 0 (activeIns s) counterKey;
          s1 = s\<lparr>inDegrees := fmupd counterKey (mapGet 0 (inDegrees s) counterKey - da_ArrivalCount a) (inDegrees s)\<rparr>;
          s2 = (if da_ActiveCount a > 0
                then s1\<lparr>activeIns := fmupd counterKey (mapGet 0 (activeIns s1) counterKey + da_ActiveCount a) (activeIns s1)\<rparr>
                else s1);
          schedule = (if da_MergeMode a = ''wait_any'' \<and> da_ActiveCount a > 0 \<and> previousActive = 0 then ''execute''
                      else if mapGet 0 (inDegrees s2) counterKey \<le> 0
                        then (if mapGet 0 (activeIns s2) counterKey > 0 then ''execute'' else ''skip'')
                      else '''');
          s3 = s2\<lparr>scheduled := fmupd counterKey schedule (scheduled s2)\<rparr>;
          isSkip = (schedule = ''skip'');
          outboxID = (if isSkip then skipOutboxID eid (da_NodeName a) 0 else executeOutboxID eid (da_NodeName a) 0);
          task = emptyTask\<lparr>t_ExecutionID := eid, t_NodeName := da_NodeName a, t_NodeIdx := da_NodeIdx a,
                   t_UnitIdx := da_UnitIdx a, t_Type := (if isSkip then TaskTypeNodeSkip else da_ExecTaskType a)\<rparr>;
          put = putOutboxLocked now eid outboxID task zeroTime s3
      in if da_ArrivalCount a \<le> 0 then r
       else if mapGet '''' (scheduled s2) counterKey \<noteq> '''' \<or> schedule = '''' then ((ids, skipped), s2)
       else if \<not> fst put then ((ids, skipped), snd put)
       else ((ids @ [outboxID], if isSkip then skipped @ [\<lparr>su_NodeName = da_NodeName a, su_Count = 1\<rparr>] else skipped),
             snd put))"

definition applyGroupDownstreamLocked :: "Time \<Rightarrow> ExecutionID \<Rightarrow> DownstreamArrival list \<Rightarrow> memoryState \<Rightarrow>
    (string list \<times> SkippedUnit list) \<times> memoryState" where
  "applyGroupDownstreamLocked now eid arrivals s = fold (groupArrival now eid) arrivals (([], []), s)"

definition writeExit :: "ExecutionID \<Rightarrow> GroupExitResult \<Rightarrow> memoryState \<Rightarrow> memoryState" where
  "writeExit eid ex s =
     (let key = memoryNodeKey eid (ge_NodeName ex); s1 = snd (preserveOutputPrivacyLocked key (ge_PrivateOutput ex) s)
      in s1\<lparr>outputs := fmupd key (ge_Data ex) (outputs s1)\<rparr>)"

definition groupRefused :: "CommitOutcome \<Rightarrow> GroupCommitResult" where
  "groupRefused outcome = \<lparr>gr_Outcome = outcome, gr_Applied = False, gr_ExecutionDone = False,
     gr_ExecutionStatus = ExecutionStatusEmpty, gr_OutboxIDs = [], gr_Skipped = []\<rparr>"

text \<open>The completion counter: the number of open units, the failures, and the end of
  the execution when the commit is fatal or was the last open unit.\<close>

definition countUnit :: "Time \<Rightarrow> ExecutionID \<Rightarrow> bool \<Rightarrow> bool \<Rightarrow> string \<Rightarrow> memoryState \<Rightarrow> ExecutionStatus option \<times> memoryState" where
  "countUnit now eid failedUnit fatal err s =
     (let s1 = s\<lparr>remaining := fmupd eid (mapGet 0 (remaining s) eid - 1) (remaining s)\<rparr>;
          s2 = (if failedUnit then s1\<lparr>failed := fmupd eid (mapGet 0 (failed s1) eid + 1) (failed s1)\<rparr> else s1)
      in if fatal \<or> mapGet 0 (remaining s2) eid = 0 then
           let status = (if fatal \<or> mapGet 0 (failed s2) eid > 0 then ExecutionStatusFailed else ExecutionStatusSuccess)
           in (Some status, finishExecutionLocked now eid status (TerminalExecutionError status err '''') s2)
         else (None, s2))"

definition commitGroupLocked :: "Time \<Rightarrow> GroupCommitRequest \<Rightarrow> memoryState \<Rightarrow> GroupCommitResult \<times> memoryState" where
  "commitGroupLocked now req s =
     (let eid = gc_ExecutionID req; key = groupKey eid (gc_GroupUnitIdx req)
      in case fmlookup (groupUnits s) key of
           None \<Rightarrow> (groupRefused CommitOutcomeStaleToken, s)
         | Some st \<Rightarrow>
             if gu_leaseToken st \<noteq> gc_LeaseToken req \<or> gu_attempt st \<noteq> gc_Attempt req \<or> gu_status st \<noteq> groupUnitRunning
             then (groupRefused (if gu_status st = groupUnitDone then CommitOutcomeDuplicateTerminal
                                 else CommitOutcomeStaleToken), s)
             else if (case fmlookup (executions s) eid of None \<Rightarrow> True | Some e \<Rightarrow> isTerminalStatus (es_Status (snap e)))
             then (groupRefused CommitOutcomeExecutionInactive, s)
             else
               let s1 = fold (writeExit eid) (gc_Exits req) s;
                   s2 = s1\<lparr>groupUnits := fmupd key (st\<lparr>gu_status := groupUnitDone, gu_committedToken := gc_LeaseToken req,
                          gu_leaseID := '''', gu_leaseToken := ''''\<rparr>) (groupUnits s1)\<rparr>
               in case countUnit now eid (gc_Outcome req = GroupOutcomeFailed) (gc_Fatal req) (gc_Error req) s2 of
                    (ended, s3) \<Rightarrow>
                      (case applyGroupDownstreamLocked now eid (gc_Downstream req) s3 of
                         ((ids, skipped), s4) \<Rightarrow>
                           (\<lparr>gr_Outcome = CommitOutcomeAccepted, gr_Applied = True, gr_ExecutionDone = (ended \<noteq> None),
                              gr_ExecutionStatus = (case ended of None \<Rightarrow> ExecutionStatusEmpty | Some st \<Rightarrow> st),
                              gr_OutboxIDs = ids, gr_Skipped = skipped\<rparr>, s4)))"

definition CommitGroup :: "Time \<Rightarrow> GroupCommitRequest \<Rightarrow> memoryState \<Rightarrow> GroupCommitResult \<times> memoryState" where
  "CommitGroup now req s = (case commitGroupLocked now req s of
      (result, s1) \<Rightarrow> (result, if gr_ExecutionDone result then mirrorExecutionStatus (gc_ExecutionID req) s1 else s1))"

section \<open>Group arrivals are node arrivals\<close>

lemma groupArrival_eq:
  "groupArrival now eid a ((ids, sk), s) =
     ((ids @ fst (fst (applyArrival now eid 0 0 a s)), sk @ snd (fst (applyArrival now eid 0 0 a s))), snd (applyArrival now eid 0 0 a s))"
proof -
  define k where "k = memoryCounterKey eid (da_UnitIdx a)"
  have c: "countArrival eid a s = (let s1 = s\<lparr>inDegrees := fmupd k (mapGet 0 (inDegrees s) k - da_ArrivalCount a) (inDegrees s)\<rparr>
      in if da_ActiveCount a > 0 then s1\<lparr>activeIns := fmupd k (mapGet 0 (activeIns s1) k + da_ActiveCount a) (activeIns s1)\<rparr> else s1)"
    by (simp add: countArrival_def k_def Let_def)
  have t: "arrivalTask eid 0 0 a ty = emptyTask\<lparr>t_ExecutionID := eid, t_NodeName := da_NodeName a, t_NodeIdx := da_NodeIdx a,
      t_UnitIdx := da_UnitIdx a, t_Type := ty\<rparr>" for ty
    by (simp add: arrivalTask_def emptyTask_def)
  show ?thesis
    unfolding groupArrival_def applyArrival_def Let_def fst_conv snd_conv k_def [symmetric] c [unfolded Let_def, symmetric]
      scheduleOf_def [symmetric] t [symmetric]
    by simp
qed

lemma applyArrivals_fst:
  "fst (applyArrivalsLocked now eid act auto (a # as) s) =
     (fst (fst (applyArrival now eid act auto a s)) @ fst (fst (applyArrivalsLocked now eid act auto as (snd (applyArrival now eid act auto a s)))),
      snd (fst (applyArrival now eid act auto a s)) @ snd (fst (applyArrivalsLocked now eid act auto as (snd (applyArrival now eid act auto a s)))))"
  by (simp split: prod.split)

lemma groupArrivals_fold:
  "fold (groupArrival now eid) as ((ids, sk), s) =
     ((ids @ fst (fst (applyArrivalsLocked now eid 0 0 as s)), sk @ snd (fst (applyArrivalsLocked now eid 0 0 as s))),
      snd (applyArrivalsLocked now eid 0 0 as s))"
proof (induction as arbitrary: ids sk s)
  case (Cons a as)
  show ?case
    unfolding fold.simps comp_apply groupArrival_eq Cons applyArrivals_cons applyArrivals_fst by simp
qed simp

text \<open>C32. A group's downstream arrivals are counted exactly as a node's are: the loop
  of the group commit computes, for every list of arrivals and every store, the
  same intents, the same skips and the same store as the loop of the node commit
  for activation 0.\<close>

theorem group_downstream_equivalent:
  "applyGroupDownstreamLocked now eid arrivals s = applyArrivalsLocked now eid 0 0 arrivals s"
  by (simp add: applyGroupDownstreamLocked_def groupArrivals_fold)

lemma groupDownstream_frame: "eraseSched (snd (applyGroupDownstreamLocked now eid as s)) = eraseSched s"
  by (simp add: applyGroupDownstreamLocked_def groupArrivals_fold applyArrivals_frame)

section \<open>What group operations keep\<close>

text \<open>Timing and privacy only: unlike the fenced node operations these are kept by
  any sequence of operations.\<close>

definition nodesKept :: "memoryState \<Rightarrow> memoryState \<Rightarrow> bool" where
  "nodesKept s s' \<longleftrightarrow>
     (\<forall>k n. fmlookup (nodes s) k = Some n \<longrightarrow> (\<exists>n'. fmlookup (nodes s') k = Some n' \<and> timingKept n n'))
     \<and> (\<forall>k. outputIsPrivateLocked s k \<longrightarrow> outputIsPrivateLocked s' k) \<and> (privacyOK s \<longrightarrow> privacyOK s')"

lemma nodesKept_evolves: "nodesEvolve s s' \<Longrightarrow> nodesKept s s'"
  unfolding nodesEvolve_def nodesKept_def by meson

lemma nodesKept_refl [simp]: "nodesKept s s"
  by (rule nodesKept_evolves) simp

lemma nodesKept_trans: "nodesKept s s1 \<Longrightarrow> nodesKept s1 s2 \<Longrightarrow> nodesKept s s2"
  unfolding nodesKept_def by (meson timingKept_trans)

lemma nodesKept_same: "nodes s' = nodes s \<Longrightarrow> privateOutputs s' = privateOutputs s \<Longrightarrow> nodesKept s s'"
  by (rule nodesKept_evolves, rule nodesEvolve_same)

lemma nodesKept_fold: "(\<And>x s. nodesKept s (f x s)) \<Longrightarrow> nodesKept s (fold f xs s)"
  by (induction xs arbitrary: s) (simp, simp, metis nodesKept_trans)

lemma writeExit_kept: "nodesKept s (writeExit eid ex s)" "core (writeExit eid ex s) = core s"
proof -
  let ?s = "snd (preserveOutputPrivacyLocked (memoryNodeKey eid (ge_NodeName ex)) (ge_PrivateOutput ex) s)"
  have "nodesKept s ?s" by (rule nodesKept_evolves, rule preserve_evolves)
  moreover have "nodesKept ?s (writeExit eid ex s)" by (rule nodesKept_same) (simp_all add: writeExit_def Let_def)
  ultimately show "nodesKept s (writeExit eid ex s)" by (rule nodesKept_trans)
  show "core (writeExit eid ex s) = core s" by (simp add: writeExit_def Let_def)
qed

lemma core_group [simp]: "core (s\<lparr>groupUnits := g\<rparr>) = core s"
  by (simp add: core_def)

lemma group_same:
  "sameNodes s (snd (AcquireGroupLease l s))" "sameNodes s (snd (RenewGroupLease eid u t d s))"
  "sameNodes s (snd (expireGroupLeaseLocked eid u t s))"
  by (simp_all add: sameNodes_def AcquireGroupLease_def RenewGroupLease_def expireGroupLeaseLocked_def Let_def)

lemma countUnit_kept: "nodes (snd (countUnit now eid f fatal err s)) = nodes s"
  "privateOutputs (snd (countUnit now eid f fatal err s)) = privateOutputs s"
  by (simp_all add: countUnit_def Let_def)

lemma countUnit_inv:
  assumes "storeInv lim s" "\<And>k. 0 < fst (lim k)"
  shows "storeInv lim (snd (countUnit now eid f fatal err s))"
proof -
  define s2 where "s2 = (let s1 = s\<lparr>remaining := fmupd eid (mapGet 0 (remaining s) eid - 1) (remaining s)\<rparr>
     in if f then s1\<lparr>failed := fmupd eid (mapGet 0 (failed s1) eid + 1) (failed s1)\<rparr> else s1)"
  have "core s2 = core s" by (simp add: s2_def Let_def)
  then have "storeInv lim s2" using assms(1) storeInv_core by metis
  then have "storeInv lim (finishExecutionLocked now eid st e s2)" if "isTerminalStatus st" for st e
    by (rule finishExecutionLocked_inv [OF _ assms(2) that])
  then show ?thesis using \<open>storeInv lim s2\<close>
    unfolding countUnit_def Let_def s2_def [unfolded Let_def, symmetric] by (simp add: isTerminalStatus_def)
qed

lemma commitGroupLocked_cases [consumes 1, case_names refused applied]:
  assumes "commitGroupLocked now req s = (r, s')"
  obtains (refused) "\<not> gr_Applied r" "s' = s"
  | (applied) st s1 s2 s3 where "gr_Applied r" "fmlookup (groupUnits s) (groupKey (gc_ExecutionID req) (gc_GroupUnitIdx req)) = Some st"
      "gu_status st = groupUnitRunning" "gu_leaseToken st = gc_LeaseToken req" "gu_attempt st = gc_Attempt req"
      "\<exists>c. statusOf s (gc_ExecutionID req) = Some c \<and> \<not> isTerminalStatus c"
      "s1 = fold (writeExit (gc_ExecutionID req)) (gc_Exits req) s"
      "s2 = s1\<lparr>groupUnits := fmupd (groupKey (gc_ExecutionID req) (gc_GroupUnitIdx req))
         (st\<lparr>gu_status := groupUnitDone, gu_committedToken := gc_LeaseToken req, gu_leaseID := '''', gu_leaseToken := ''''\<rparr>) (groupUnits s1)\<rparr>"
      "s3 = snd (countUnit now (gc_ExecutionID req) (gc_Outcome req = GroupOutcomeFailed) (gc_Fatal req) (gc_Error req) s2)"
      "s' = snd (applyGroupDownstreamLocked now (gc_ExecutionID req) (gc_Downstream req) s3)"
proof (cases "fmlookup (groupUnits s) (groupKey (gc_ExecutionID req) (gc_GroupUnitIdx req))")
  case None
  then show thesis using assms by (intro refused) (auto simp: commitGroupLocked_def groupRefused_def)
next
  case (Some st)
  define fence where "fence \<longleftrightarrow> gu_leaseToken st \<noteq> gc_LeaseToken req \<or> gu_attempt st \<noteq> gc_Attempt req \<or> gu_status st \<noteq> groupUnitRunning"
  define gone where "gone \<longleftrightarrow> (case fmlookup (executions s) (gc_ExecutionID req) of None \<Rightarrow> True | Some e \<Rightarrow> isTerminalStatus (es_Status (snap e)))"
  note defn = assms [unfolded commitGroupLocked_def Let_def Some option.case, folded fence_def gone_def]
  show thesis
  proof (cases "fence \<or> gone")
    case True
    then show thesis using defn by (intro refused) (auto simp: groupRefused_def split: if_splits)
  next
    case False
    then have "\<exists>c. statusOf s (gc_ExecutionID req) = Some c \<and> \<not> isTerminalStatus c"
      by (auto simp: gone_def statusOf_def split: option.splits)
    then show thesis
      using defn False Some by (intro applied [OF _ Some _ _ _ _ refl refl refl]) (auto simp: fence_def split: prod.splits)
  qed
qed

lemma commitGroupLocked_inv:
  assumes "storeInv lim s" "\<And>k. 0 < fst (lim k)"
  shows "storeInv lim (snd (commitGroupLocked now req s))" "nodesKept s (snd (commitGroupLocked now req s))"
proof -
  obtain r s' where c: "commitGroupLocked now req s = (r, s')" by fastforce
  then have "storeInv lim s' \<and> nodesKept s s'"
  proof (cases rule: commitGroupLocked_cases)
    case (applied st s1 s2 s3)
    have "core s1 = core s" unfolding applied(7) by (rule fold_same) (rule writeExit_kept(2))
    then have "core s2 = core s" by (simp add: applied(8))
    then have "storeInv lim s2" using assms(1) storeInv_core by metis
    then have i: "storeInv lim s3" unfolding applied(9) by (rule countUnit_inv [OF _ assms(2)])
    have D: "core s' = core s3" "nodes s' = nodes s3" "privateOutputs s' = privateOutputs s3"
      unfolding applied(10) by (rule eraseSched_D [OF groupDownstream_frame])+
    have "nodesKept s s1" unfolding applied(7) by (rule nodesKept_fold) (rule writeExit_kept(1))
    moreover have "nodesKept s1 s'" by (rule nodesKept_same) (simp_all add: D applied(8,9) countUnit_kept)
    ultimately have "nodesKept s s'" by (rule nodesKept_trans)
    then show ?thesis using i D(1) storeInv_core by metis
  qed (simp add: assms(1))
  then show "storeInv lim (snd (commitGroupLocked now req s))" "nodesKept s (snd (commitGroupLocked now req s))" by (simp_all add: c)
qed

section \<open>The group fence\<close>

definition groupToken :: "memoryState \<Rightarrow> ExecutionID \<times> int \<Rightarrow> LeaseToken option" where
  "groupToken s k = (case fmlookup (groupUnits s) (groupKey (fst k) (snd k)) of
      None \<Rightarrow> None | Some g \<Rightarrow> if gu_status g = groupUnitRunning then Some (gu_leaseToken g) else None)"

definition grantGroup :: "GroupLease \<Rightarrow> memoryState \<Rightarrow> bool \<times> memoryState" where
  "grantGroup lease s = (case AcquireGroupLease lease s of (r, s') \<Rightarrow> (r \<noteq> None, s'))"

definition presentCommit :: "Time \<Rightarrow> GroupCommitRequest \<Rightarrow> ExecutionID \<times> int \<Rightarrow> LeaseToken \<Rightarrow> memoryState \<Rightarrow> bool \<times> memoryState" where
  "presentCommit now req k t s =
     (case commitGroupLocked now (req\<lparr>gc_ExecutionID := fst k, gc_GroupUnitIdx := snd k, gc_LeaseToken := t\<rparr>) s of
        (r, s') \<Rightarrow> (gr_Applied r, s'))"

lemma grantGroup_token:
  "grantGroup l s = (True, s') \<Longrightarrow> groupToken s' (gl_ExecutionID l, gl_GroupUnitIdx l) = Some (gl_LeaseToken l)"
  by (auto simp: grantGroup_def groupToken_def AcquireGroupLease_def Let_def split: if_splits)

interpretation group_renew: lease_fence groupToken "\<lambda>l. (gl_ExecutionID l, gl_GroupUnitIdx l)" gl_LeaseToken grantGroup
    "\<lambda>k t. RenewGroupLease (fst k) (snd k) t deadline" for deadline
  by unfold_locales
    (erule grantGroup_token, auto simp: RenewGroupLease_def groupToken_def holdsGroup_def Let_def split: option.splits if_splits)

interpretation group_expire: lease_fence groupToken "\<lambda>l. (gl_ExecutionID l, gl_GroupUnitIdx l)" gl_LeaseToken grantGroup
    "\<lambda>k t. ExpireGroupLease (fst k) (snd k) t"
  by unfold_locales
    (erule grantGroup_token, auto simp: ExpireGroupLease_def expireGroupLeaseLocked_def groupToken_def holdsGroup_def Let_def
      split: option.splits if_splits)

lemma presentCommit_laws:
  "presentCommit now req k t s = (True, s') \<Longrightarrow> groupToken s k = Some t"
  "presentCommit now req k t s = (False, s') \<Longrightarrow> s' = s"
proof -
  obtain r u where c: "commitGroupLocked now (req\<lparr>gc_ExecutionID := fst k, gc_GroupUnitIdx := snd k, gc_LeaseToken := t\<rparr>) s = (r, u)"
    by fastforce
  then have "gr_Applied r \<longrightarrow> groupToken s k = Some t" "\<not> gr_Applied r \<longrightarrow> u = s"
    by (cases rule: commitGroupLocked_cases; simp add: groupToken_def)+
  then show "presentCommit now req k t s = (True, s') \<Longrightarrow> groupToken s k = Some t" "presentCommit now req k t s = (False, s') \<Longrightarrow> s' = s"
    by (simp_all add: presentCommit_def c)
qed

interpretation group_commit: lease_fence groupToken "\<lambda>l. (gl_ExecutionID l, gl_GroupUnitIdx l)" gl_LeaseToken grantGroup
    "presentCommit now req" for now req
  by unfold_locales (erule grantGroup_token, erule presentCommit_laws(1), erule presentCommit_laws(2))

text \<open>C30. Group leases are fenced: once a group unit was leased under a new token, the
  runner that held it before can neither renew nor expire the lease nor commit the
  group with its old token, and its calls leave the store as it is.\<close>

theorem stale_group_token:
  assumes "AcquireGroupLease lease s = (Some attempt, s1)" "gl_LeaseToken lease \<noteq> ''''" "old \<noteq> gl_LeaseToken lease"
    and "eid = gl_ExecutionID lease" "u = gl_GroupUnitIdx lease"
    and "gc_ExecutionID req = eid" "gc_GroupUnitIdx req = u" "gc_LeaseToken req = old"
  shows "RenewGroupLease eid u old deadline s1 = (False, s1) \<and> ExpireGroupLease eid u old s1 = (False, s1)
    \<and> \<not> gr_Applied (fst (commitGroupLocked now req s1)) \<and> snd (commitGroupLocked now req s1) = s1"
proof -
  have g: "grantGroup lease s = (True, s1)" using assms(1) by (simp add: grantGroup_def)
  have "presentCommit now req (eid, u) old s1 = (gr_Applied (fst (commitGroupLocked now req s1)), snd (commitGroupLocked now req s1))"
    using assms(6-8) by (auto simp: presentCommit_def split: prod.split)
  then show ?thesis
    using group_renew.stale_refused [OF g assms(2,3), of deadline] group_expire.stale_refused [OF g assms(2,3)]
      group_commit.stale_refused [OF g assms(2,3), of now req] assms(4,5) by simp
qed

lemma finish_groups: "groupUnits (finishExecutionLocked now eid st e s) = groupUnits s"
proof -
  have "groupUnits (closeEntry eid s) = groupUnits s" for s
    by (simp add: closeEntry_def closeDone_def split: option.split bool.split)
  then show ?thesis
    by (simp add: finishExecutionLocked_def Let_def eraseEvents_D [OF publishLocked_frame] withdrawDeadlineLocked_def
        setExecSnap_def split: option.split)
qed

lemma countUnit_groups: "groupUnits (snd (countUnit now eid f fatal err s)) = groupUnits s"
  by (simp add: countUnit_def Let_def finish_groups)

lemma group_attempts_grow:
  assumes "AcquireGroupLease l s = (Some a, s1)" "ExpireGroupLease (gl_ExecutionID l) (gl_GroupUnitIdx l) tok s1 = (True, s2)"
    and "gl_ExecutionID l' = gl_ExecutionID l" "gl_GroupUnitIdx l' = gl_GroupUnitIdx l" "AcquireGroupLease l' s2 = (Some a', s3)"
  shows "a < a'"
  using assms
  by (auto simp: AcquireGroupLease_def ExpireGroupLease_def expireGroupLeaseLocked_def holdsGroup_def Let_def split: if_splits)

text \<open>C31. A group commits once: repeating an accepted group commit is answered as a
  duplicate, whenever it arrives, and changes nothing.\<close>

theorem group_commit_once:
  assumes "commitGroupLocked now req s = (r, s')" "gr_Applied r"
  shows "commitGroupLocked now' req s' = (groupRefused CommitOutcomeDuplicateTerminal, s')"
  using assms(1)
proof (cases rule: commitGroupLocked_cases)
  case (applied st s1 s2 s3)
  have "groupUnits s' = groupUnits s3" unfolding applied(10)
    using arg_cong [OF groupDownstream_frame, of groupUnits] by (simp add: eraseSched_def)
  also have "\<dots> = groupUnits s2" unfolding applied(9) by (rule countUnit_groups)
  finally show ?thesis by (simp add: applied(8) commitGroupLocked_def Let_def)
qed (use assms(2) in simp)

section \<open>Examples\<close>

definition sampleGroupLease :: "LeaseToken \<Rightarrow> GroupLease" where
  "sampleGroupLease token = \<lparr>gl_LeaseID = token, gl_LeaseToken = token, gl_Attempt = 1, gl_ExecutionID = ''ex'',
     gl_GroupUnitIdx = 2, gl_GroupName = ''g'', gl_EntryNodeIdx = 3, gl_ActivationID = 0, gl_IssuedAt = 100, gl_TTL = 50\<rparr>"

definition sampleGroupStart :: "ExecutionStatus \<Rightarrow> int \<Rightarrow> memoryState" where
  "sampleGroupStart status open_units = (sampleRun open_units)\<lparr>
     executions := fmap_of_list [(''ex'', \<lparr>snap = zeroExecution\<lparr>es_ID := ''ex'', es_Status := status\<rparr>, closed = False\<rparr>)]\<rparr>"

definition sampleGroupRun :: "ExecutionStatus \<Rightarrow> int \<Rightarrow> memoryState" where
  "sampleGroupRun status open_units = snd (AcquireGroupLease (sampleGroupLease ''g1'') (sampleGroupStart status open_units))"

definition sampleGroupCommit :: GroupCommitRequest where
  "sampleGroupCommit = \<lparr>gc_ExecutionID = ''ex'', gc_GroupUnitIdx = 2, gc_LeaseToken = ''g1'', gc_Attempt = 1,
     gc_Outcome = GroupOutcomeSuccess, gc_Exits = [], gc_Error = '''', gc_Fatal = False, gc_Downstream = [sampleArrival]\<rparr>"

theorem group_commit_once_witness:
  "commitGroupLocked 130 sampleGroupCommit (snd (commitGroupLocked 120 sampleGroupCommit (sampleGroupRun ExecutionStatusRunning 2)))
     = (groupRefused CommitOutcomeDuplicateTerminal,
        snd (commitGroupLocked 120 sampleGroupCommit (sampleGroupRun ExecutionStatusRunning 2)))"
proof -
  let ?c = "commitGroupLocked 120 sampleGroupCommit (sampleGroupRun ExecutionStatusRunning 2)"
  have "gr_Applied (fst ?c)" by code_simp
  then show ?thesis using group_commit_once [of 120 sampleGroupCommit "sampleGroupRun ExecutionStatusRunning 2" "fst ?c" "snd ?c"] by simp
qed

theorem stale_group_token_witness:
  "snd (commitGroupLocked 120 (sampleGroupCommit\<lparr>gc_LeaseToken := ''g0''\<rparr>) (sampleGroupRun ExecutionStatusRunning 2))
     = sampleGroupRun ExecutionStatusRunning 2"
proof -
  have "fst (AcquireGroupLease (sampleGroupLease ''g1'') (sampleGroupStart ExecutionStatusRunning 2)) = Some 1" by code_simp
  then have g: "AcquireGroupLease (sampleGroupLease ''g1'') (sampleGroupStart ExecutionStatusRunning 2)
      = (Some 1, sampleGroupRun ExecutionStatusRunning 2)"
    unfolding sampleGroupRun_def by (metis prod.collapse)
  have l: "gl_LeaseToken (sampleGroupLease ''g1'') \<noteq> ''''" "''g0'' \<noteq> gl_LeaseToken (sampleGroupLease ''g1'')"
    "''ex'' = gl_ExecutionID (sampleGroupLease ''g1'')" "2 = gl_GroupUnitIdx (sampleGroupLease ''g1'')"
    by (simp_all add: sampleGroupLease_def)
  show ?thesis
    using stale_group_token [OF g l, of "sampleGroupCommit\<lparr>gc_LeaseToken := ''g0''\<rparr>" 0 120]
    by (simp only: sampleGroupCommit_def GroupCommitRequest.simps simp_thms)
qed

text \<open>While its execution is being canceled, a group's commit still fans out to its
  successors, and the commit of the last open unit ends the execution as a
  success.\<close>

lemma group_commit_while_canceling:
  "fst (commitGroupLocked 120 sampleGroupCommit (sampleGroupRun ExecutionStatusCanceling 2)) =
     \<lparr>gr_Outcome = CommitOutcomeAccepted, gr_Applied = True, gr_ExecutionDone = False,
      gr_ExecutionStatus = ExecutionStatusEmpty, gr_OutboxIDs = [executeOutboxID ''ex'' ''b'' 0], gr_Skipped = []\<rparr>"
  "fst (commitGroupLocked 120 (sampleGroupCommit\<lparr>gc_Downstream := []\<rparr>) (sampleGroupRun ExecutionStatusCanceling 1)) =
     \<lparr>gr_Outcome = CommitOutcomeAccepted, gr_Applied = True, gr_ExecutionDone = True,
      gr_ExecutionStatus = ExecutionStatusSuccess, gr_OutboxIDs = [], gr_Skipped = []\<rparr>"
  by code_simp+

end
