(* ===== verification/Idempotency.thy ===== *)
theory Idempotency
  imports GroupState
begin

text \<open>
  Keyed submissions (\<open>idempotency.go\<close>): a submission that carries an idempotency
  key claims the execution id the key derives before it creates the execution.
  The theory has the store's three operations, the abstract state machine of one
  key they implement, and what a claim promises over any sequence of calls.
\<close>

section \<open>Requests and answers\<close>

datatype IdempotencyClaimState =
    IdempotencyClaimAccepted
  | IdempotencyClaimTakeover
  | IdempotencyClaimDuplicate
  | IdempotencyClaimConflict
  | IdempotencyClaimInProgress

record IdempotencyClaimRequest =
  iq_ExecutionID :: ExecutionID
  iq_Fingerprint :: string
  iq_TTL :: Duration
  iq_Lease :: Duration
  iq_Token :: string

record IdempotencyClaim =
  ia_State :: IdempotencyClaimState
  ia_Status :: ExecutionStatus

section \<open>Operations\<close>

definition putIdempotencyClaimLocked :: "IdempotencyClaimRequest \<Rightarrow> Time \<Rightarrow> memoryState \<Rightarrow> memoryState" where
  "putIdempotencyClaimLocked req now s =
     s\<lparr>idempotency := fmupd (iq_ExecutionID req)
        \<lparr>ic_fingerprint = iq_Fingerprint req, ic_token = iq_Token req, ic_confirmed = False,
         ic_leaseUntil = now + iq_Lease req,
         ic_expiresAt = (if iq_TTL req > 0 then now + iq_TTL req else zeroTime)\<rparr> (idempotency s)\<rparr>"

definition claimExpired :: "Time \<Rightarrow> idempotencyClaim \<Rightarrow> bool" where
  "claimExpired now c \<longleftrightarrow> ic_expiresAt c \<noteq> zeroTime \<and> \<not> now < ic_expiresAt c"

definition dropExpiredClaim :: "Time \<Rightarrow> ExecutionID \<Rightarrow> memoryState \<Rightarrow> memoryState" where
  "dropExpiredClaim now eid s = (case fmlookup (idempotency s) eid of
      None \<Rightarrow> s
    | Some c \<Rightarrow> if claimExpired now c then s\<lparr>idempotency := fmdrop eid (idempotency s)\<rparr> else s)"

definition claimAnswer :: "IdempotencyClaimState \<Rightarrow> IdempotencyClaim" where
  "claimAnswer st = \<lparr>ia_State = st, ia_Status = ExecutionStatusEmpty\<rparr>"

definition ClaimIdempotency :: "Time \<Rightarrow> IdempotencyClaimRequest \<Rightarrow> memoryState \<Rightarrow> IdempotencyClaim \<times> memoryState" where
  "ClaimIdempotency now req s =
     (let s1 = dropExpiredClaim now (iq_ExecutionID req) s;
          exec = fmlookup (executions s1) (iq_ExecutionID req);
          created = (exec \<noteq> None);
          status = (case exec of None \<Rightarrow> ExecutionStatusEmpty | Some e \<Rightarrow> es_Status (snap e));
          duplicate = \<lparr>ia_State = IdempotencyClaimDuplicate, ia_Status = status\<rparr>
      in case fmlookup (idempotency s1) (iq_ExecutionID req) of
           None \<Rightarrow> if created then (duplicate, s1)
                   else (claimAnswer IdempotencyClaimAccepted, putIdempotencyClaimLocked req now s1)
         | Some existing \<Rightarrow>
             if ic_fingerprint existing \<noteq> iq_Fingerprint req then (claimAnswer IdempotencyClaimConflict, s1)
             else if ic_confirmed existing \<or> created then (duplicate, s1)
             else if now < ic_leaseUntil existing then (claimAnswer IdempotencyClaimInProgress, s1)
             else (claimAnswer IdempotencyClaimTakeover, putIdempotencyClaimLocked req now s1))"

definition ConfirmIdempotency :: "ExecutionID \<Rightarrow> string \<Rightarrow> memoryState \<Rightarrow> memoryState" where
  "ConfirmIdempotency eid token s = (case fmlookup (idempotency s) eid of
      None \<Rightarrow> s
    | Some c \<Rightarrow> if ic_token c = token
        then s\<lparr>idempotency := fmupd eid (c\<lparr>ic_confirmed := True\<rparr>) (idempotency s)\<rparr> else s)"

definition ReleaseIdempotency :: "ExecutionID \<Rightarrow> string \<Rightarrow> memoryState \<Rightarrow> memoryState" where
  "ReleaseIdempotency eid token s = (case fmlookup (idempotency s) eid of
      None \<Rightarrow> s
    | Some c \<Rightarrow> if ic_token c = token \<and> \<not> ic_confirmed c
        then s\<lparr>idempotency := fmdrop eid (idempotency s)\<rparr> else s)"

section \<open>The state machine of one key\<close>

text \<open>A key is free, held by a request that is still creating its execution, or has
  made its execution; an execution whose claim ran out answers for every
  fingerprint.\<close>

datatype keyState =
    Free
  | Held string string Time
  | Made "string option" ExecutionStatus

definition keyStateOf :: "Time \<Rightarrow> memoryState \<Rightarrow> ExecutionID \<Rightarrow> keyState" where
  "keyStateOf now s eid =
     (let claim = (case fmlookup (idempotency s) eid of None \<Rightarrow> None | Some c \<Rightarrow> if claimExpired now c then None else Some c)
      in case fmlookup (executions s) eid of
           Some e \<Rightarrow> Made (map_option ic_fingerprint claim) (es_Status (snap e))
         | None \<Rightarrow> (case claim of
              None \<Rightarrow> Free
            | Some c \<Rightarrow> if ic_confirmed c then Made (Some (ic_fingerprint c)) ExecutionStatusEmpty
                        else Held (ic_fingerprint c) (ic_token c) (ic_leaseUntil c)))"

fun specClaim :: "Time \<Rightarrow> IdempotencyClaimRequest \<Rightarrow> keyState \<Rightarrow> IdempotencyClaim \<times> keyState" where
  "specClaim now req Free =
     (claimAnswer IdempotencyClaimAccepted, Held (iq_Fingerprint req) (iq_Token req) (now + iq_Lease req))"
| "specClaim now req (Held fp tok until) =
     (if fp \<noteq> iq_Fingerprint req then (claimAnswer IdempotencyClaimConflict, Held fp tok until)
      else if now < until then (claimAnswer IdempotencyClaimInProgress, Held fp tok until)
      else (claimAnswer IdempotencyClaimTakeover, Held fp (iq_Token req) (now + iq_Lease req)))"
| "specClaim now req (Made fp status) =
     (if fp \<noteq> None \<and> fp \<noteq> Some (iq_Fingerprint req) then (claimAnswer IdempotencyClaimConflict, Made fp status)
      else (\<lparr>ia_State = IdempotencyClaimDuplicate, ia_Status = status\<rparr>, Made fp status))"

fun specConfirm :: "string \<Rightarrow> keyState \<Rightarrow> keyState" where
  "specConfirm token (Held fp tok until) =
     (if tok = token then Made (Some fp) ExecutionStatusEmpty else Held fp tok until)"
| "specConfirm token k = k"

fun specRelease :: "string \<Rightarrow> keyState \<Rightarrow> keyState" where
  "specRelease token (Held fp tok until) = (if tok = token then Free else Held fp tok until)"
| "specRelease token k = k"

lemma put_state:
  assumes "0 \<le> now" "fmlookup (executions s) (iq_ExecutionID req) = None"
  shows "keyStateOf now (putIdempotencyClaimLocked req now s) (iq_ExecutionID req)
    = Held (iq_Fingerprint req) (iq_Token req) (now + iq_Lease req)"
  using assms by (simp add: keyStateOf_def putIdempotencyClaimLocked_def claimExpired_def)

lemma dropExpired_simps [simp]:
  "executions (dropExpiredClaim now eid s) = executions s"
  "fmlookup (idempotency (dropExpiredClaim now eid s)) eid' =
     (if eid' = eid then (case fmlookup (idempotency s) eid of None \<Rightarrow> None | Some c \<Rightarrow> if claimExpired now c then None else Some c)
      else fmlookup (idempotency s) eid')"
  by (auto simp: dropExpiredClaim_def split: option.split)

lemma dropExpired_state [simp]: "keyStateOf now (dropExpiredClaim now eid s) eid' = keyStateOf now s eid'"
  by (simp add: keyStateOf_def split: option.split)

lemma put_other:
  "eid \<noteq> iq_ExecutionID req \<Longrightarrow> keyStateOf now (putIdempotencyClaimLocked req now' s) eid = keyStateOf now s eid"
  by (simp add: keyStateOf_def putIdempotencyClaimLocked_def)

lemma claim_spec:
  assumes "0 \<le> now"
  shows "fst (ClaimIdempotency now req s) = fst (specClaim now req (keyStateOf now s (iq_ExecutionID req)))"
    and "keyStateOf now (snd (ClaimIdempotency now req s)) (iq_ExecutionID req)
      = snd (specClaim now req (keyStateOf now s (iq_ExecutionID req)))"
proof -
  let ?id = "iq_ExecutionID req"
  define s1 where "s1 = dropExpiredClaim now ?id s"
  define claim where "claim = fmlookup (idempotency s1) ?id"
  have put: "keyStateOf now (putIdempotencyClaimLocked req now s1) ?id
      = Held (iq_Fingerprint req) (iq_Token req) (now + iq_Lease req)" if "fmlookup (executions s1) ?id = None"
    by (rule put_state [OF assms that])
  have k: "keyStateOf now s ?id = keyStateOf now s1 ?id" by (simp add: s1_def)
  have live: "\<not> claimExpired now c" if "claim = Some c" for c
    using that by (auto simp: claim_def s1_def split: option.splits if_splits)
  have st: "keyStateOf now s1 ?id = (case fmlookup (executions s1) ?id of
       Some e \<Rightarrow> Made (map_option ic_fingerprint claim) (es_Status (snap e))
     | None \<Rightarrow> (case claim of None \<Rightarrow> Free
         | Some c \<Rightarrow> if ic_confirmed c then Made (Some (ic_fingerprint c)) ExecutionStatusEmpty
                     else Held (ic_fingerprint c) (ic_token c) (ic_leaseUntil c)))"
    using live by (auto simp: keyStateOf_def claim_def [symmetric] split: option.split)
  show "fst (ClaimIdempotency now req s) = fst (specClaim now req (keyStateOf now s ?id))"
    unfolding ClaimIdempotency_def Let_def s1_def [symmetric] claim_def [symmetric] k st by (simp split: option.split)
  show "keyStateOf now (snd (ClaimIdempotency now req s)) ?id = snd (specClaim now req (keyStateOf now s ?id))"
    unfolding ClaimIdempotency_def Let_def s1_def [symmetric] claim_def [symmetric] k
    using st put by (simp split: option.split)
qed

lemma claim_others:
  "eid \<noteq> iq_ExecutionID req \<Longrightarrow> keyStateOf t (snd (ClaimIdempotency now req s)) eid = keyStateOf t s eid"
proof -
  assume n: "eid \<noteq> iq_ExecutionID req"
  then have "keyStateOf t (dropExpiredClaim now (iq_ExecutionID req) s) eid = keyStateOf t s eid"
    by (simp add: keyStateOf_def)
  then show ?thesis
    using n by (simp add: ClaimIdempotency_def Let_def put_other split: option.split)
qed

lemma confirm_state: "keyStateOf now (ConfirmIdempotency eid token s) eid = specConfirm token (keyStateOf now s eid)"
  by (cases "fmlookup (idempotency s) eid"; cases "fmlookup (executions s) eid")
    (auto simp: keyStateOf_def ConfirmIdempotency_def claimExpired_def)

lemma release_state:
  "fmlookup (executions s) eid = None \<Longrightarrow>
   keyStateOf now (ReleaseIdempotency eid token s) eid = specRelease token (keyStateOf now s eid)"
  by (cases "fmlookup (idempotency s) eid") (auto simp: keyStateOf_def ReleaseIdempotency_def claimExpired_def)

text \<open>C33. The three operations refine the state machine of one key.  For every store,
  request and clock reading, the answer to a claim and the key's state after a
  claim, a confirmation, or a release before the execution exists are those of the
  abstract machine (free, held until a lease ends, made), and a claim leaves the
  state of every other key as it was.\<close>

theorem claim_refines:
  assumes "0 \<le> now" "eid = iq_ExecutionID req"
  shows "fst (ClaimIdempotency now req s) = fst (specClaim now req (keyStateOf now s eid))
    \<and> keyStateOf now (snd (ClaimIdempotency now req s)) eid = snd (specClaim now req (keyStateOf now s eid))
    \<and> keyStateOf now (ConfirmIdempotency eid token s) eid = specConfirm token (keyStateOf now s eid)
    \<and> (fmlookup (executions s) eid = None \<longrightarrow>
        keyStateOf now (ReleaseIdempotency eid token s) eid = specRelease token (keyStateOf now s eid))
    \<and> (\<forall>other t. other \<noteq> eid \<longrightarrow> keyStateOf t (snd (ClaimIdempotency now req s)) other = keyStateOf t s other)"
  using claim_spec [OF assms(1)] claim_others confirm_state release_state assms(2) by blast

section \<open>Sequences of calls\<close>

datatype idemCall =
    ClaimCall Time IdempotencyClaimRequest
  | ConfirmCall ExecutionID string
  | ReleaseCall ExecutionID string

fun idemRun :: "idemCall list \<Rightarrow> memoryState \<Rightarrow> (IdempotencyClaimRequest \<times> IdempotencyClaim) list" where
  "idemRun [] s = []"
| "idemRun (ClaimCall now req # cs) s =
     (req, fst (ClaimIdempotency now req s)) # idemRun cs (snd (ClaimIdempotency now req s))"
| "idemRun (ConfirmCall eid token # cs) s = idemRun cs (ConfirmIdempotency eid token s)"
| "idemRun (ReleaseCall eid token # cs) s = idemRun cs (ReleaseIdempotency eid token s)"

text \<open>A call made while the claim is in force: a claim before the lease and the
  retention end, anything but a release by the holder.\<close>

fun duringClaim :: "ExecutionID \<Rightarrow> idempotencyClaim \<Rightarrow> idemCall \<Rightarrow> bool" where
  "duringClaim eid c (ClaimCall now req) \<longleftrightarrow> (ic_confirmed c \<or> now < ic_leaseUntil c) \<and> \<not> claimExpired now c"
| "duringClaim eid c (ConfirmCall eid' token) \<longleftrightarrow> True"
| "duringClaim eid c (ReleaseCall eid' token) \<longleftrightarrow> ic_confirmed c \<or> token \<noteq> ic_token c"

definition sameClaim :: "idempotencyClaim \<Rightarrow> idempotencyClaim option \<Rightarrow> bool" where
  "sameClaim c c' \<longleftrightarrow> c' = Some c \<or> c' = Some (c\<lparr>ic_confirmed := True\<rparr>)"

lemma sameClaim_D:
  assumes "sameClaim c (fmlookup m eid)"
  obtains c' where "fmlookup m eid = Some c'" "ic_fingerprint c' = ic_fingerprint c" "ic_token c' = ic_token c"
    "ic_leaseUntil c' = ic_leaseUntil c" "ic_expiresAt c' = ic_expiresAt c" "ic_confirmed c \<Longrightarrow> ic_confirmed c'" "c' = c \<or> c' = c\<lparr>ic_confirmed := True\<rparr>"
  using assms by (auto simp: sameClaim_def)

lemma claim_kept:
  assumes "sameClaim c (fmlookup (idempotency s) eid)" "duringClaim eid c (ClaimCall now req)"
  shows "fmlookup (idempotency (snd (ClaimIdempotency now req s))) eid = fmlookup (idempotency s) eid
    \<and> (iq_ExecutionID req = eid \<longrightarrow> ia_State (fst (ClaimIdempotency now req s)) =
         (if ic_fingerprint c \<noteq> iq_Fingerprint req then IdempotencyClaimConflict
          else if ic_confirmed (the (fmlookup (idempotency s) eid)) \<or> fmlookup (executions s) eid \<noteq> None
            then IdempotencyClaimDuplicate
          else IdempotencyClaimInProgress))"
proof -
  obtain c' where c: "fmlookup (idempotency s) eid = Some c'" "ic_fingerprint c' = ic_fingerprint c" "ic_leaseUntil c' = ic_leaseUntil c"
      "ic_expiresAt c' = ic_expiresAt c" "ic_confirmed c \<Longrightarrow> ic_confirmed c'"
    by (rule sameClaim_D [OF assms(1)]) blast
  have e: "\<not> claimExpired now c'" using assms(2) c(4) by (simp add: claimExpired_def)
  have l: "ic_confirmed c' \<or> now < ic_leaseUntil c'" using assms(2) c(3,5) by auto
  show ?thesis
  proof (cases "iq_ExecutionID req = eid")
    case True
    then show ?thesis using c(1,2) e l by (auto simp: ClaimIdempotency_def Let_def claimAnswer_def)
  next
    case False
    then show ?thesis
      using c(1) by (simp add: ClaimIdempotency_def Let_def putIdempotencyClaimLocked_def split: option.split)
  qed
qed

lemma sameClaim_confirm:
  "sameClaim c (fmlookup (idempotency s) eid) \<Longrightarrow> sameClaim c (fmlookup (idempotency (ConfirmIdempotency eid' token s)) eid)"
  by (auto simp: sameClaim_def ConfirmIdempotency_def split: option.split)

lemma sameClaim_release:
  "sameClaim c (fmlookup (idempotency s) eid) \<Longrightarrow> ic_confirmed c \<or> token \<noteq> ic_token c \<Longrightarrow>
   sameClaim c (fmlookup (idempotency (ReleaseIdempotency eid' token s)) eid)"
  by (auto simp: sameClaim_def ReleaseIdempotency_def split: option.split)

lemma during_run:
  assumes "sameClaim c (fmlookup (idempotency s) eid)" "list_all (duringClaim eid c) cs"
    "(req, a) \<in> set (idemRun cs s)" "iq_ExecutionID req = eid"
  shows "ia_State a \<in> {IdempotencyClaimConflict, IdempotencyClaimDuplicate, IdempotencyClaimInProgress}
    \<and> (ic_fingerprint c \<noteq> iq_Fingerprint req \<longleftrightarrow> ia_State a = IdempotencyClaimConflict)
    \<and> (ic_confirmed c \<longrightarrow> ia_State a \<noteq> IdempotencyClaimInProgress)"
  using assms
proof (induction cs s rule: idemRun.induct)
  case (2 now req' cs s)
  note k = claim_kept [OF "2.prems"(1), of now req']
  have d: "duringClaim eid c (ClaimCall now req')" "list_all (duringClaim eid c) cs" using "2.prems"(2) by simp_all
  have conf: "ic_confirmed c \<Longrightarrow> ic_confirmed (the (fmlookup (idempotency s) eid))"
    using "2.prems"(1) by (auto simp: sameClaim_def)
  show ?case
  proof (cases "(req, a) = (req', fst (ClaimIdempotency now req' s))")
    case True
    then show ?thesis using k [OF d(1)] "2.prems"(4) conf by auto
  next
    case False
    have kept: "sameClaim c (fmlookup (idempotency (snd (ClaimIdempotency now req' s))) eid)" using k [OF d(1)] "2.prems"(1) by simp
    have "(req, a) \<in> set (idemRun cs (snd (ClaimIdempotency now req' s)))" using False "2.prems"(3) by auto
    from "2.IH" [OF kept d(2) this "2.prems"(4)] show ?thesis .
  qed
qed (simp, simp add: sameClaim_confirm, simp add: sameClaim_release)

lemma new_claim:
  assumes "ClaimIdempotency now req s = (a, s1)" "ia_State a \<in> {IdempotencyClaimAccepted, IdempotencyClaimTakeover}"
  shows "fmlookup (idempotency s1) (iq_ExecutionID req) = Some \<lparr>ic_fingerprint = iq_Fingerprint req, ic_token = iq_Token req,
     ic_confirmed = False, ic_leaseUntil = now + iq_Lease req,
     ic_expiresAt = (if iq_TTL req > 0 then now + iq_TTL req else zeroTime)\<rparr>"
  using assms
  by (auto simp: ClaimIdempotency_def Let_def claimAnswer_def putIdempotencyClaimLocked_def split: option.splits if_splits)

text \<open>C34. A key creates one execution.  Once a submission was told to create the
  execution of a key, no other submission is, whatever claims, confirmations and
  releases follow in whatever order, as long as the claims arrive within the lease
  and the retention of the claim and nobody releases it with the holder's token;
  a submission with another content is told of the conflict.\<close>

theorem key_claimed_once:
  assumes "ClaimIdempotency now req s = (a, s1)" "ia_State a \<in> {IdempotencyClaimAccepted, IdempotencyClaimTakeover}"
    and calls: "\<forall>c \<in> set cs. case c of
        ClaimCall t r \<Rightarrow> t < now + iq_Lease req \<and> (iq_TTL req > 0 \<longrightarrow> t < now + iq_TTL req)
      | ConfirmCall i token \<Rightarrow> True
      | ReleaseCall i token \<Rightarrow> token \<noteq> iq_Token req"
    and "(req', a') \<in> set (idemRun cs s1)" "iq_ExecutionID req' = iq_ExecutionID req"
  shows "ia_State a' \<notin> {IdempotencyClaimAccepted, IdempotencyClaimTakeover}
    \<and> (ia_State a' = IdempotencyClaimConflict \<longleftrightarrow> iq_Fingerprint req' \<noteq> iq_Fingerprint req)"
proof -
  obtain c where c: "fmlookup (idempotency s1) (iq_ExecutionID req) = Some c" "ic_fingerprint c = iq_Fingerprint req"
      "ic_token c = iq_Token req" "ic_leaseUntil c = now + iq_Lease req"
      "ic_expiresAt c = (if iq_TTL req > 0 then now + iq_TTL req else zeroTime)"
    using new_claim [OF assms(1,2)] by simp
  have "duringClaim (iq_ExecutionID req) c x" if "x \<in> set cs" for x
    using calls that c by (cases x) (auto simp: claimExpired_def)
  then have "list_all (duringClaim (iq_ExecutionID req) c) cs" by (simp add: list_all_iff)
  from during_run [OF _ this assms(4,5)] show ?thesis using c by (auto simp: sameClaim_def)
qed

text \<open>A confirmed key answers for its execution: after the holder confirmed, every
  submission of the same content is answered as a duplicate and every other one as
  a conflict, through any sequence of calls, releases with the holder's own token
  included, until the retention of the claim ends; the lease no longer matters.\<close>

theorem confirmed_key_answers:
  assumes "ClaimIdempotency now req s = (a, s1)" "ia_State a \<in> {IdempotencyClaimAccepted, IdempotencyClaimTakeover}"
    and calls: "\<forall>t r. ClaimCall t r \<in> set cs \<longrightarrow> iq_TTL req > 0 \<longrightarrow> t < now + iq_TTL req"
    and "(req', a') \<in> set (idemRun (ConfirmCall (iq_ExecutionID req) (iq_Token req) # cs) s1)"
      "iq_ExecutionID req' = iq_ExecutionID req"
  shows "ia_State a' = (if iq_Fingerprint req' = iq_Fingerprint req then IdempotencyClaimDuplicate else IdempotencyClaimConflict)"
proof -
  obtain c where c: "fmlookup (idempotency s1) (iq_ExecutionID req) = Some c" "ic_fingerprint c = iq_Fingerprint req"
      "ic_token c = iq_Token req" "ic_expiresAt c = (if iq_TTL req > 0 then now + iq_TTL req else zeroTime)"
    using new_claim [OF assms(1,2)] by simp
  let ?c = "c\<lparr>ic_confirmed := True\<rparr>" and ?s = "ConfirmIdempotency (iq_ExecutionID req) (iq_Token req) s1"
  have s: "sameClaim ?c (fmlookup (idempotency ?s) (iq_ExecutionID req))"
    using c by (simp add: ConfirmIdempotency_def sameClaim_def)
  have "duringClaim (iq_ExecutionID req) ?c x" if "x \<in> set cs" for x
    using calls that c(4) by (cases x) (auto simp: claimExpired_def)
  then have d: "list_all (duringClaim (iq_ExecutionID req) ?c) cs" by (simp add: list_all_iff)
  have "(req', a') \<in> set (idemRun cs ?s)" using assms(4) by simp
  from during_run [OF s d this assms(5)] show ?thesis using c(2) by (cases "ia_State a'") auto
qed

section \<open>Examples\<close>

definition sampleClaim :: "string \<Rightarrow> IdempotencyClaimRequest" where
  "sampleClaim token = \<lparr>iq_ExecutionID = ''idem-1'', iq_Fingerprint = ''f'', iq_TTL = 1000, iq_Lease = 60, iq_Token = token\<rparr>"

definition sampleCalls :: "idemCall list" where
  "sampleCalls = [ClaimCall 120 (sampleClaim ''b''), ReleaseCall ''idem-1'' ''b'', ConfirmCall ''idem-1'' ''b'',
     ClaimCall 130 ((sampleClaim ''c'')\<lparr>iq_Fingerprint := ''g''\<rparr>)]"

theorem claim_refines_witness:
  "fst (ClaimIdempotency 100 (sampleClaim ''a'') (newMemoryState False))
     = fst (specClaim 100 (sampleClaim ''a'') (keyStateOf 100 (newMemoryState False) ''idem-1''))"
  using claim_refines [of 100 "''idem-1''" "sampleClaim ''a''" "newMemoryState False"] by (simp add: sampleClaim_def)

theorem key_claimed_once_witness:
  "(sampleClaim ''b'', claimAnswer IdempotencyClaimInProgress)
      \<in> set (idemRun sampleCalls (snd (ClaimIdempotency 100 (sampleClaim ''a'') (newMemoryState False))))
    \<and> ia_State (claimAnswer IdempotencyClaimInProgress) \<notin> {IdempotencyClaimAccepted, IdempotencyClaimTakeover}"
proof -
  let ?r = "ClaimIdempotency 100 (sampleClaim ''a'') (newMemoryState False)"
  have r: "?r = (fst ?r, snd ?r)" by simp
  have a: "ia_State (fst ?r) \<in> {IdempotencyClaimAccepted, IdempotencyClaimTakeover}" by code_simp
  have m: "(sampleClaim ''b'', claimAnswer IdempotencyClaimInProgress) \<in> set (idemRun sampleCalls (snd ?r))" by code_simp
  have "iq_ExecutionID (sampleClaim ''b'') = iq_ExecutionID (sampleClaim ''a'')" by (simp add: sampleClaim_def)
  from key_claimed_once [OF r a _ m this] have
    "ia_State (claimAnswer IdempotencyClaimInProgress) \<notin> {IdempotencyClaimAccepted, IdempotencyClaimTakeover}"
    by (simp add: sampleCalls_def sampleClaim_def)
  with m show ?thesis ..
qed

theorem confirmed_key_answers_witness:
  "\<exists>a'. (sampleClaim ''b'', a') \<in> set (idemRun [ConfirmCall ''idem-1'' ''a'', ReleaseCall ''idem-1'' ''a'', ClaimCall 500 (sampleClaim ''b'')]
        (snd (ClaimIdempotency 100 (sampleClaim ''a'') (newMemoryState False))))
    \<and> ia_State a' = IdempotencyClaimDuplicate"
proof -
  let ?r = "ClaimIdempotency 100 (sampleClaim ''a'') (newMemoryState False)"
  let ?cs = "[ReleaseCall ''idem-1'' ''a'', ClaimCall 500 (sampleClaim ''b'')]"
  have r: "?r = (fst ?r, snd ?r)" by simp
  have a: "ia_State (fst ?r) \<in> {IdempotencyClaimAccepted, IdempotencyClaimTakeover}" by code_simp
  have i: "iq_ExecutionID (sampleClaim x) = ''idem-1''" "iq_Token (sampleClaim x) = x" "iq_TTL (sampleClaim x) = 1000"
    "iq_Fingerprint (sampleClaim x) = ''f''" for x by (simp_all add: sampleClaim_def)
  obtain a' where m: "(sampleClaim ''b'', a') \<in> set (idemRun (ConfirmCall ''idem-1'' ''a'' # ?cs) (snd ?r))" by auto
  from confirmed_key_answers [OF r a, unfolded i, OF _ m] m show ?thesis by (auto simp: i)
qed

end
