(* ===== verification/IntentFrames.thy ===== *)
theory IntentFrames
  imports Idempotency
begin

text \<open>
  What the store's operations do to the intent log as a whole.  Promotion, release,
  completion and cancellation move or drop intents but write none, and every intent
  is stored under its own id.
\<close>

section \<open>Operations that write no intent\<close>

definition intentsKept :: "memoryState \<Rightarrow> memoryState \<Rightarrow> bool" where
  "intentsKept s s' \<longleftrightarrow> (\<forall>x i h'. fmlookup (outboxOf s' x) i = Some h' \<longrightarrow>
     (\<exists>h. fmlookup (outboxOf s x) i = Some h \<and> oe_ID (mo_entry h') = oe_ID (mo_entry h) \<and> oe_Task (mo_entry h') = oe_Task (mo_entry h)))"

named_theorems intents

lemma intentsKept_refl [simp, intents]: "intentsKept s s"
  by (simp add: intentsKept_def)

lemma intentsKept_outbox: "outbox s' = outbox s \<Longrightarrow> intentsKept s s'"
  by (simp add: intentsKept_def outboxOf_def)

lemma intentsKept_trans: "intentsKept s s1 \<Longrightarrow> intentsKept s1 s2 \<Longrightarrow> intentsKept s s2"
  unfolding intentsKept_def by metis

lemma intentsKept_pre: "outbox s1 = outbox s \<Longrightarrow> intentsKept s1 s2 \<Longrightarrow> intentsKept s s2"
  by (simp add: intentsKept_def outboxOf_def)

lemma intentsKept_post: "intentsKept s s1 \<Longrightarrow> outbox s2 = outbox s1 \<Longrightarrow> intentsKept s s2"
  by (simp add: intentsKept_def outboxOf_def)

lemma intentsKept_fold: "(\<And>x s. intentsKept s (f x s)) \<Longrightarrow> intentsKept s (fold f xs s)"
  by (induction xs arbitrary: s) (simp, simp, metis intentsKept_trans)

lemma intentsKept_keyed: "intentsKept s s' \<Longrightarrow> keyed s \<Longrightarrow> keyed s'"
  unfolding intentsKept_def keyed_def by metis

lemma intentsKept_hasKey: "intentsKept s s' \<Longrightarrow> hasKey (outboxOf s' x) i \<Longrightarrow> hasKey (outboxOf s x) i"
  unfolding intentsKept_def hasKey_def by (metis option.collapse option.distinct(1))

lemma setAvailableAt_entry [simp]:
  "oe_ID (mo_entry (setAvailableAt t h)) = oe_ID (mo_entry h)" "oe_Task (mo_entry (setAvailableAt t h)) = oe_Task (mo_entry h)"
  by (simp_all add: setAvailableAt_def)

lemma intentsKept_updEntries:
  assumes "f fmempty = fmempty"
    and "\<And>m i h'. fmlookup (f m) i = Some h' \<Longrightarrow>
      \<exists>h. fmlookup m i = Some h \<and> oe_ID (mo_entry h') = oe_ID (mo_entry h) \<and> oe_Task (mo_entry h') = oe_Task (mo_entry h)"
  shows "intentsKept s (updEntries f eid s)"
  using assms(2) by (auto simp: intentsKept_def outboxOf_updEntries [where f = f, OF assms(1)])

lemma intentsKept_unhold [intents]: "intentsKept s (updEntries unholdEntries eid s)"
  by (rule intentsKept_updEntries) (auto split: if_splits)

lemma intentsKept_hold [intents]: "intentsKept s (holdOutboxLocked eid s)"
  unfolding holdOutboxLocked_def by (rule intentsKept_updEntries) (auto split: if_splits)

lemma intentsKept_dropHeld [intents]: "intentsKept s (dropHeldOutboxLocked eid s)"
  by (auto simp: intentsKept_def dropHeldOutboxLocked_def outboxOf_def storeEntries_def mapGet_def split: if_splits option.splits)

lemma intentsKept_promotion: "intentsKept s (completePromotionLocked now eid s)"
  by (auto simp: intentsKept_def completePromotionLocked_outbox split: if_splits)

lemma intentsKept_promoteHead: "promoteHead now slot s = (slot', s') \<Longrightarrow> intentsKept s s'"
  by (auto simp: promoteHead_def Let_def putSlot_def intro: intentsKept_pre [OF _ intentsKept_promotion])

lemma intentsKept_promote: "intentsKept s (snd (promoteLocked now slot s))"
proof (induction now slot s rule: promoteLocked.induct)
  case (1 now slot s)
  obtain slot1 s1 where h: "promoteHead now slot s = (slot1, s1)" by fastforce
  show ?case
  proof (cases "ws_limit slot > 0 \<and> holderCount slot < ws_limit slot \<and> ws_queued slot \<noteq> []")
    case True
    have "intentsKept s1 (snd (promoteLocked now slot1 s1))" using "1.IH" [OF True h [symmetric]] by simp
    then show ?thesis
      using True intentsKept_trans [OF intentsKept_promoteHead [OF h]] by (simp add: promoteLocked.simps [of now slot s] h)
  next
    case False
    then show ?thesis by (subst promoteLocked.simps) (simp only: if_False snd_conv intentsKept_refl)
  qed
qed

lemma pruneSlot_outbox [simp]: "outbox (pruneSlot slot s) = outbox s"
  by (simp add: pruneSlot_def)

lemma intentsKept_refill:
  assumes "intentsKept s s1"
  shows "intentsKept s (case promoteLocked now slot s1 of (slot', s') \<Rightarrow> pruneSlot slot' s')"
  by (rule intentsKept_trans [OF assms]) (auto intro: intentsKept_post [OF intentsKept_promote [of s1 now slot]] split: prod.split)

lemma intentsKept_release [intents]: "intentsKept s (releaseWorkflowSlotLocked now eid s)"
proof -
  have "intentsKept s ((putSlot slot s)\<lparr>slotHolders := h\<rparr>)" for slot h by (rule intentsKept_outbox) (simp add: putSlot_def)
  moreover have "intentsKept s (dropHeldOutboxLocked eid ((putSlot slot s)\<lparr>queued := q\<rparr>))" for slot q
    by (rule intentsKept_pre [OF _ intentsKept_dropHeld]) (simp add: putSlot_def)
  ultimately show ?thesis
    unfolding releaseWorkflowSlotLocked_def Let_def by (auto intro!: intentsKept_refill split: option.split)
qed

lemma closeEntry_outbox [simp]: "outbox (closeEntry eid s) = outbox s"
  by (simp add: closeEntry_def closeDone_def split: option.split bool.split)

lemma intentsKept_end:
  "intentsKept s (publishLocked ev (closeEntry eid (releaseWorkflowSlotLocked now eid (withdrawDeadlineLocked eid st s))))"
  by (rule intentsKept_post [OF intentsKept_pre [OF _ intentsKept_release]])
    (auto simp: eraseEvents_D [OF publishLocked_frame] withdrawDeadlineLocked_def)

lemma intentsKept_finish [intents]: "intentsKept s (finishExecutionLocked now eid st e s)"
proof (cases "fmlookup (executions s) eid")
  case (Some en)
  have "outbox (setExecSnap eid en sn s) = outbox s" for sn by (simp add: setExecSnap_def)
  from intentsKept_pre [OF this intentsKept_end] show ?thesis by (simp add: finishExecutionLocked_def Some Let_def)
qed (simp add: finishExecutionLocked_def)

lemma intentsKept_status [intents]: "intentsKept s (snd (updateExecutionStatusLocked now eid st e s))"
proof (cases "fmlookup (executions s) eid")
  case (Some en)
  have "intentsKept s (publishLocked ev (closeEntry eid (releaseWorkflowSlotLocked now eid (withdrawDeadlineLocked eid st s1))))"
    "intentsKept s (publishLocked ev s1)" if "outbox s1 = outbox s" for ev s1
    using intentsKept_pre [OF that intentsKept_end] intentsKept_outbox [of "publishLocked ev s1" s] that
    by (simp_all add: eraseEvents_D [OF publishLocked_frame])
  then show ?thesis by (simp add: updateExecutionStatusLocked_def Some Let_def setExecSnap_def)
qed (simp add: updateExecutionStatusLocked_def)

end
