(* ===== verification/Seeding.thy ===== *)
theory Seeding
  imports IntentFrames
begin

text \<open>
  Executions that do not start at the graph's roots: an entry unit's result admitted
  by its key (\<open>entry_admission.go\<close>) and an execution derived from an earlier one
  with a resolved prefix (\<open>execution_seed.go\<close>).  Both decide, create, count and
  schedule in one critical section and then project the row to the durable store,
  whose answer is a parameter.  One clock reading stands for the several a section
  takes.
\<close>

section \<open>Requests and responses\<close>

datatype AdmissionState =
    AdmissionStateAccepted
  | AdmissionStateConflict
  | AdmissionStateOverLimit
  | AdmissionStateQueueFull
  | AdmissionStateEmpty

text \<open>The fields the store reads; trace fields and the generation fence belong to the
  caller.\<close>

record SeedExecutionFromEntryRequest =
  sf_AdmissionKey :: string
  sf_Namespace :: string
  sf_WorkflowID :: string
  sf_WorkflowVersion :: string
  sf_DefinitionHash :: string
  sf_EntryUnitIdx :: int
  sf_Graph :: "Graph option"
  sf_Outcome :: GroupOutcome
  sf_Exits :: "GroupExitResult list"
  sf_Error :: string
  sf_ResultHash :: string
  sf_Downstream :: "DownstreamArrival list"
  sf_Params :: data

record SeedExecutionFromEntryResponse =
  sr_State :: AdmissionState
  sr_ExecutionID :: ExecutionID
  sr_Duplicate :: bool
  sr_Queued :: bool
  sr_QueuePosition :: int
  sr_Skipped :: "SkippedUnit list"

record SeedUnit =
  sv_UnitIdx :: int
  sv_NodeName :: string
  sv_NodeIdx :: int
  sv_Status :: NodeStatus
  sv_Port :: string
  sv_Output :: data
  sv_PrivateOutput :: bool
  sv_Downstream :: "DownstreamArrival list"

record SeedExecutionRequest =
  sq_Execution :: "ExecutionSnapshot option"
  sq_Units :: "SeedUnit list"
  sq_Entries :: "OutboxEntry list"
  sq_Admission :: "ConcurrencyAdmission option"

record SeedExecutionResponse =
  sp_Queued :: bool
  sp_QueuePosition :: int
  sp_Skipped :: "SkippedUnit list"

definition emptySeedResponse :: SeedExecutionFromEntryResponse where
  "emptySeedResponse = \<lparr>sr_State = AdmissionStateEmpty, sr_ExecutionID = '''', sr_Duplicate = False, sr_Queued = False,
     sr_QueuePosition = 0, sr_Skipped = []\<rparr>"

definition DeterministicExecutionID :: "string \<Rightarrow> ExecutionID" where
  "DeterministicExecutionID key = ''exec-tg-'' @ take 32 (sha256hex key)"

definition SeedAdmissionRefusal :: "StoreError \<Rightarrow> StoreError + SeedExecutionFromEntryResponse" where
  "SeedAdmissionRefusal err =
     (if err = ErrConcurrencyLimit then Inr (emptySeedResponse\<lparr>sr_State := AdmissionStateOverLimit\<rparr>)
      else if err = ErrConcurrencyQueueFull then Inr (emptySeedResponse\<lparr>sr_State := AdmissionStateQueueFull\<rparr>)
      else Inl err)"

text \<open>The roots an entry-scoped start did not select.  Compilation gives every unit an
  in-degree and every node unit a node.\<close>

definition rootSkip :: "ExecutionID \<Rightarrow> Graph \<Rightarrow> int \<Rightarrow> nat \<Rightarrow> Task list" where
  "rootSkip eid g selectedUnit i =
     (let u = g_units g ! i
      in if int i = selectedUnit \<or> g_unitInDegree g ! i \<noteq> 0 \<or> um_Kind u \<noteq> UnitNode then []
         else [emptyTask\<lparr>t_ExecutionID := eid, t_NodeName := nm_Name (g_nodes g ! nat (um_NodeIdx u)),
                 t_NodeIdx := um_NodeIdx u, t_UnitIdx := int i, t_Type := TaskTypeNodeSkip\<rparr>])"

definition UnselectedRootSkips :: "ExecutionID \<Rightarrow> Graph option \<Rightarrow> int \<Rightarrow> Task list" where
  "UnselectedRootSkips eid graph selectedUnit = (case graph of
      None \<Rightarrow> []
    | Some g \<Rightarrow> if g_allowCycles g then []
        else concat (map (rootSkip eid g selectedUnit) [0..<length (g_units g)]))"

section \<open>Admitting an entry unit\<close>

text \<open>The two answers for a key that was admitted before.\<close>

definition admittedBefore :: "SeedExecutionFromEntryRequest \<Rightarrow> admissionEntry \<Rightarrow> memoryState \<Rightarrow> SeedExecutionFromEntryResponse" where
  "admittedBefore req existing s =
     (let position = queuePositionLocked s (ae_executionID existing);
          same = (ae_resultHash existing = sf_ResultHash req)
      in emptySeedResponse\<lparr>sr_State := (if same then AdmissionStateAccepted else AdmissionStateConflict),
           sr_ExecutionID := ae_executionID existing, sr_Duplicate := same, sr_Queued := position > 0,
           sr_QueuePosition := position\<rparr>)"

definition entrySnapshot :: "Time \<Rightarrow> string \<Rightarrow> SeedExecutionFromEntryRequest \<Rightarrow> bool \<Rightarrow> ExecutionSnapshot" where
  "entrySnapshot now nsCtx req pending =
     zeroExecution\<lparr>es_ID := DeterministicExecutionID (sf_AdmissionKey req), es_Graph := sf_Graph req,
       es_Status := (if pending then ExecutionStatusQueued else ExecutionStatusRunning), es_Params := sf_Params req,
       es_WorkflowID := sf_WorkflowID req, es_WorkflowVersion := sf_WorkflowVersion req,
       es_DefinitionHash := sf_DefinitionHash req,
       es_Namespace := (if sf_Namespace req = '''' then nsCtx else sf_Namespace req), es_CreatedAt := now,
       es_Deadline := (case sf_Graph req of None \<Rightarrow> zeroTime
          | Some g \<Rightarrow> if g_timeout g > 0 then now + g_timeout g else zeroTime)\<rparr>"

definition acyclicGraph :: "Graph option \<Rightarrow> bool" where
  "acyclicGraph graph = (case graph of None \<Rightarrow> False | Some g \<Rightarrow> \<not> g_allowCycles g)"

text \<open>Step 6: the completion counting, the arrivals of the entry unit, and the skips of
  the other roots.\<close>

definition countEntry :: "Time \<Rightarrow> ExecutionID \<Rightarrow> SeedExecutionFromEntryRequest \<Rightarrow> memoryState \<Rightarrow> memoryState" where
  "countEntry now eid req s =
     (if acyclicGraph (sf_Graph req)
      then snd (countUnit now eid (sf_Outcome req = GroupOutcomeFailed)
             (sf_Outcome req = GroupOutcomeFailed \<and> sf_Downstream req = []) (sf_Error req) s)
      else s)"

definition skipRoot :: "Time \<Rightarrow> ExecutionID \<Rightarrow> Task \<Rightarrow> memoryState \<Rightarrow> memoryState" where
  "skipRoot now eid skip s =
     (let counterKey = memoryCounterKey eid (t_UnitIdx skip)
      in if mapGet '''' (scheduled s) counterKey \<noteq> '''' then s
         else snd (putOutboxLocked now eid (skipOutboxID eid (t_NodeName skip) 0) skip zeroTime
                (s\<lparr>scheduled := fmupd counterKey ''skip'' (scheduled s)\<rparr>)))"

definition holdWhilePending :: "ExecutionID \<Rightarrow> memoryState \<Rightarrow> memoryState" where
  "holdWhilePending eid s =
     (if mapGet False (mirrorCreatePending s) eid \<and> hasKey (executions s) eid \<and> \<not> endedIn s eid
      then holdOutboxLocked eid s else s)"

definition seedExecutionFromEntryLocked :: "Time \<Rightarrow> bool \<Rightarrow> string \<Rightarrow> SeedExecutionFromEntryRequest \<Rightarrow>
    ConcurrencyAdmission option \<Rightarrow> memoryState \<Rightarrow> ((StoreError + SeedExecutionFromEntryResponse) \<times> bool) \<times> memoryState" where
  "seedExecutionFromEntryLocked now hint nsCtx req admission s =
     (let execID = DeterministicExecutionID (sf_AdmissionKey req)
      in case fmlookup (admissions s) (sf_AdmissionKey req) of
           Some existing \<Rightarrow> ((Inr (admittedBefore req existing s), False), s)
         | None \<Rightarrow>
             (case (case admission of None \<Rightarrow> (s, Inr False) | Some adm \<Rightarrow> chargeOrParkLocked now execID adm s) of
                (s0, Inl err) \<Rightarrow> ((SeedAdmissionRefusal err, False), s0)
              | (s0, Inr pending) \<Rightarrow>
                  let sn = entrySnapshot now nsCtx req pending;
                      s1 = createLocked now hint sn s0;
                      s2 = s1\<lparr>groupUnits := fmupd (groupKey execID (sf_EntryUnitIdx req))
                             (newGroupUnit groupUnitDone ''seed-triggered'') (groupUnits s1)\<rparr>;
                      s3 = countEntry now execID req (fold (writeExit execID) (sf_Exits req) s2);
                      down = (if sf_Outcome req = GroupOutcomeSuccess \<or> sf_Downstream req \<noteq> []
                              then applyGroupDownstreamLocked now execID (sf_Downstream req) s3 else (([], []), s3));
                      s4 = snd down;
                      s5 = (if hasKey (executions s4) execID \<and> \<not> endedIn s4 execID
                            then fold (skipRoot now execID) (UnselectedRootSkips execID (sf_Graph req) (sf_EntryUnitIdx req)) s4
                            else s4);
                      position = queuePositionLocked s5 execID;
                      s6 = (if position > 0 then holdOutboxLocked execID s5 else s5);
                      s7 = holdWhilePending execID s6
                  in ((Inr (emptySeedResponse\<lparr>sr_State := AdmissionStateAccepted, sr_ExecutionID := execID,
                              sr_Queued := position > 0, sr_QueuePosition := position, sr_Skipped := snd (fst down)\<rparr>), True),
                      s7\<lparr>admissions := fmupd (sf_AdmissionKey req)
                           \<lparr>ae_executionID = execID, ae_resultHash = sf_ResultHash req\<rparr> (admissions s7)\<rparr>)))"

section \<open>The durable row of a seeded execution\<close>

definition projectSeededRow :: "InsertOutcome \<Rightarrow> ExecutionID \<Rightarrow> memoryState \<Rightarrow> memoryState" where
  "projectSeededRow ins eid s = (case ins of
      InsertOK \<Rightarrow> clearMirrorCreatePending eid s
    | InsertExists \<Rightarrow> markMirrorConflict eid s
    | InsertFailed \<Rightarrow> s)"

definition mirrorSeededExecution :: "InsertOutcome \<Rightarrow> ExecutionID \<Rightarrow> memoryState \<Rightarrow> memoryState" where
  "mirrorSeededExecution ins eid s = (case beginMirrorMode eid True s of
      (False, s1) \<Rightarrow> s1
    | (True, s1) \<Rightarrow> finishMirror eid (if hasKey (executions s1) eid then projectSeededRow ins eid s1 else s1))"

definition settleSeed :: "InsertOutcome \<Rightarrow> ExecutionID \<Rightarrow> memoryState \<Rightarrow> memoryState" where
  "settleSeed ins eid s = pruneTransientSkipAfterTerminal eid (releaseInitialMirrorHold eid (mirrorSeededExecution ins eid s))"

definition seedExecutionFromEntry :: "Time \<Rightarrow> bool \<Rightarrow> string \<Rightarrow> InsertOutcome \<Rightarrow> SeedExecutionFromEntryRequest \<Rightarrow>
    ConcurrencyAdmission option \<Rightarrow> memoryState \<Rightarrow> (StoreError + SeedExecutionFromEntryResponse) \<times> memoryState" where
  "seedExecutionFromEntry now hint nsCtx ins req admission s =
     (case seedExecutionFromEntryLocked now hint nsCtx req admission s of
        ((result, created), s1) \<Rightarrow>
          (result, if created then settleSeed ins (DeterministicExecutionID (sf_AdmissionKey req)) s1 else s1))"

section \<open>Seeding a derived execution\<close>

definition seedScheduledMarker :: string where
  "seedScheduledMarker = ''seed''"

definition seedNode :: "ExecutionID \<Rightarrow> SeedUnit \<Rightarrow> bool \<Rightarrow> NodeSnapshot" where
  "seedNode eid u privateOutput =
     emptyNode\<lparr>ns_ExecutionID := eid, ns_Name := sv_NodeName u, ns_NodeIdx := sv_NodeIdx u, ns_UnitIdx := sv_UnitIdx u,
       ns_Status := sv_Status u, ns_Port := sv_Port u, ns_PrivateOutput := privateOutput,
       ns_Output := (if privateOutput then None else sv_Output u)\<rparr>"

definition markSeeded :: "ExecutionID \<Rightarrow> SeedUnit \<Rightarrow> memoryState \<Rightarrow> memoryState" where
  "markSeeded eid u s =
     (let key = memoryNodeKey eid (sv_NodeName u)
      in case preserveOutputPrivacyLocked key (sv_PrivateOutput u) s of
           (privateOutput, s1) \<Rightarrow>
             s1\<lparr>nodes := fmupd key (seedNode eid u privateOutput) (nodes s1),
                outputs := fmupd key (sv_Output u) (outputs s1),
                scheduled := fmupd (memoryCounterKey eid (sv_UnitIdx u)) seedScheduledMarker (scheduled s1)\<rparr>)"

definition seedArrivals :: "Time \<Rightarrow> ExecutionID \<Rightarrow> SeedUnit \<Rightarrow> SkippedUnit list \<times> memoryState \<Rightarrow> SkippedUnit list \<times> memoryState" where
  "seedArrivals now eid u r = (case applyGroupDownstreamLocked now eid (sv_Downstream u) (snd r) of
      ((ids, skipped), s) \<Rightarrow> (fst r @ skipped, s))"

definition completeSeed :: "Time \<Rightarrow> ExecutionID \<Rightarrow> memoryState \<Rightarrow> memoryState" where
  "completeSeed now eid s =
     (if hasKey (executions s) eid \<and> mapGet 0 (remaining s) eid \<le> 0
      then finishExecutionLocked now eid (if mapGet 0 (failed s) eid > 0 then ExecutionStatusFailed else ExecutionStatusSuccess) '''' s
      else s)"

definition badSeedUnit :: "SeedUnit \<Rightarrow> bool" where
  "badSeedUnit u \<longleftrightarrow> sv_Status u \<noteq> NodeStatusSuccess \<and> sv_Status u \<noteq> NodeStatusSkipped"

definition seedExecution :: "Time \<Rightarrow> bool \<Rightarrow> SeedExecutionRequest \<Rightarrow> memoryState \<Rightarrow>
    (StoreError + SeedExecutionResponse) \<times> memoryState" where
  "seedExecution now hint req s = (case sq_Execution req of
      None \<Rightarrow> (Inl (ErrOther ''no execution snapshot''), s)
    | Some e \<Rightarrow>
        if list_ex badSeedUnit (sq_Units req) then (Inl (ErrOther ''unit status''), s)
        else (case (case sq_Admission req of None \<Rightarrow> (s, Inr False) | Some adm \<Rightarrow> chargeOrParkLocked now (es_ID e) adm s) of
           (s0, Inl err) \<Rightarrow> (Inl err, s0)
         | (s0, Inr pending) \<Rightarrow>
             let eid = es_ID e;
                 admitted = e\<lparr>es_Status := (if pending then ExecutionStatusQueued else ExecutionStatusRunning)\<rparr>;
                 s1 = fold (markSeeded eid) (sq_Units req) (createLocked now hint admitted s0);
                 s2 = (if acyclicGraph (es_Graph e)
                       then s1\<lparr>remaining := fmupd eid (mapGet 0 (remaining s1) eid - int (length (sq_Units req))) (remaining s1)\<rparr>
                       else s1);
                 arr = fold (seedArrivals now eid) (sq_Units req) ([], s2);
                 s3 = writeInitialIntentsLocked now eid (sq_Entries req) zeroTime (snd arr);
                 s4 = (if acyclicGraph (es_Graph e) then completeSeed now eid s3 else s3);
                 waiting = (statusOf s4 eid = Some ExecutionStatusQueued);
                 position = (if waiting then queuePositionLocked s4 eid else 0);
                 s5 = (if position > 0 then holdOutboxLocked eid s4 else s4)
             in (Inr \<lparr>sp_Queued = (position > 0), sp_QueuePosition = position, sp_Skipped = fst arr\<rparr>, holdWhilePending eid s5)))"

definition SeedExecution :: "Time \<Rightarrow> bool \<Rightarrow> InsertOutcome \<Rightarrow> SeedExecutionRequest \<Rightarrow> memoryState \<Rightarrow>
    (StoreError + SeedExecutionResponse) \<times> memoryState" where
  "SeedExecution now hint ins req s = (case seedExecution now hint req s of
      (Inl err, s1) \<Rightarrow> (Inl err, s1)
    | (Inr resp, s1) \<Rightarrow> (Inr resp, settleSeed ins (es_ID (the (sq_Execution req))) s1))"

section \<open>Invariants\<close>

lemma core_scheduled: "core (s\<lparr>scheduled := m\<rparr>) = core s"
  by (simp add: core_def)

lemma seed_core [simp]:
  "core (s\<lparr>admissions := a\<rparr>) = core s"
  "core (holdWhilePending eid s) = core s"
  "core (holdOutboxLocked eid s) = core s"
  "core (skipRoot now eid t s) = core s"
  "core (mirrorSeededExecution ins eid s) = core s"
  "core (settleSeed ins eid s) = core s"
proof -
  show "core (s\<lparr>admissions := a\<rparr>) = core s" for s by (simp add: core_def)
  show h: "core (holdOutboxLocked eid s) = core s" for s by (simp add: holdOutboxLocked_def)
  then show "core (holdWhilePending eid s) = core s" by (simp add: holdWhilePending_def)
  show "core (skipRoot now eid t s) = core s" by (simp add: skipRoot_def Let_def core_scheduled)
  have "core (projectSeededRow ins eid s) = core s" for s
    by (simp add: projectSeededRow_def markMirrorConflict_def split: InsertOutcome.split)
  then show m: "core (mirrorSeededExecution ins eid s) = core s" for s
    using mirror_core(6) [of eid True s]
    by (cases "beginMirrorMode eid True s"; cases "fst (beginMirrorMode eid True s)") (simp_all add: mirrorSeededExecution_def)
  show "core (settleSeed ins eid s) = core s" by (simp add: settleSeed_def m)
qed

lemma markSeeded_core [simp]: "core (markSeeded eid u s) = core s"
  using preserve_core [of "memoryNodeKey eid (sv_NodeName u)" "sv_PrivateOutput u" s]
  by (simp add: markSeeded_def Let_def case_prod_beta core_def)

lemma seedArrivals_core: "core (snd (seedArrivals now eid u r)) = core (snd r)"
  using eraseSched_D(1) [OF groupDownstream_frame, of now eid "sv_Downstream u" "snd r"]
  by (simp add: seedArrivals_def case_prod_beta)

lemma fold_seedArrivals_core: "core (snd (fold (seedArrivals now eid) us r)) = core (snd r)"
  by (induction us arbitrary: r) (simp_all add: seedArrivals_core)

text \<open>The slot decision followed by the creation, as the three ways to create an
  admitted execution share it.\<close>

definition decideSlot :: "Time \<Rightarrow> ExecutionID \<Rightarrow> ConcurrencyAdmission option \<Rightarrow> memoryState \<Rightarrow> memoryState \<times> (StoreError + bool)" where
  "decideSlot now eid admission s = (case admission of None \<Rightarrow> (s, Inr False) | Some adm \<Rightarrow> chargeOrParkLocked now eid adm s)"

definition admitted :: "bool \<Rightarrow> ExecutionSnapshot \<Rightarrow> ExecutionSnapshot" where
  "admitted pending e = e\<lparr>es_Status := (if pending then ExecutionStatusQueued else ExecutionStatusRunning)\<rparr>"

lemma admitted_create_inv:
  assumes inv: "storeInv lim s" "\<And>k. 0 < fst (lim k)" and fresh: "fmlookup (executions s) (es_ID e) = None"
    and adm: "\<And>adm. admission = Some adm \<Longrightarrow> withinLimits lim adm"
    and d: "decideSlot now (es_ID e) admission s = (s0, r)"
  shows "case r of Inl err \<Rightarrow> storeInv lim s0 | Inr pending \<Rightarrow> storeInv lim (createLocked now hint (admitted pending e) s0)"
proof (cases admission)
  case None
  then have "s0 = s" "r = Inr False" using d by (simp_all add: decideSlot_def)
  moreover have "storeInv lim (createLocked now hint (admitted False e) s)"
    unfolding createLocked_def
    by (rule createLocked_inv [OF inv(1)]) (simp_all add: fresh admitted_def isTerminalStatus_def)
  ultimately show ?thesis by simp
next
  case (Some a)
  then have c: "chargeOrParkLocked now (es_ID e) a s = (s0, r)" using d by (simp add: decideSlot_def)
  have "storeInv lim (fst (createWithConcurrencyLocked now hint e [] a s))"
    by (rule createWithConcurrencyLocked_inv [OF inv fresh adm [OF Some]])
  then show ?thesis
    by (cases r) (simp_all add: createWithConcurrencyLocked_def c createLocked_def admitted_def writeInitialIntentsLocked_def Let_def
        case_prod_beta)
qed

lemma countEntry_inv:
  "storeInv lim s \<Longrightarrow> (\<And>k. 0 < fst (lim k)) \<Longrightarrow> storeInv lim (countEntry now eid req s)"
  by (simp add: countEntry_def countUnit_inv)

lemma seedExecutionFromEntryLocked_inv:
  assumes inv: "storeInv lim s" "\<And>k. 0 < fst (lim k)"
    and fresh: "fmlookup (executions s) (DeterministicExecutionID (sf_AdmissionKey req)) = None"
    and adm: "\<And>adm. admission = Some adm \<Longrightarrow> withinLimits lim adm"
  shows "storeInv lim (snd (seedExecutionFromEntryLocked now hint nsCtx req admission s))"
proof (cases "fmlookup (admissions s) (sf_AdmissionKey req)")
  case (Some existing)
  then show ?thesis by (simp add: seedExecutionFromEntryLocked_def inv Let_def)
next
  case None
  let ?id = "DeterministicExecutionID (sf_AdmissionKey req)"
  define e where "e = entrySnapshot now nsCtx req False"
  have id: "es_ID e = ?id" by (simp add: e_def entrySnapshot_def)
  have e': "entrySnapshot now nsCtx req pending = admitted pending e" for pending
    by (simp add: e_def entrySnapshot_def admitted_def)
  obtain s0 r where d: "decideSlot now ?id admission s = (s0, r)" by fastforce
  note c = admitted_create_inv [where e = e, unfolded id, OF inv fresh adm d, of hint]
  show ?thesis
  proof (cases r)
    case (Inl err)
    then show ?thesis using None d c by (simp add: seedExecutionFromEntryLocked_def decideSlot_def [symmetric] Let_def)
  next
    case (Inr pending)
    define s1 where "s1 = createLocked now hint (admitted pending e) s0"
    define s2 where "s2 = s1\<lparr>groupUnits := fmupd (groupKey ?id (sf_EntryUnitIdx req))
                             (newGroupUnit groupUnitDone ''seed-triggered'') (groupUnits s1)\<rparr>"
    define s3 where "s3 = countEntry now ?id req (fold (writeExit ?id) (sf_Exits req) s2)"
    have "core (fold (writeExit ?id) (sf_Exits req) s2) = core s1"
      by (subst fold_same [where g = core, OF writeExit_kept(2)]) (simp add: s2_def)
    moreover have "storeInv lim s1" using c Inr by (simp add: s1_def)
    ultimately have "storeInv lim (fold (writeExit ?id) (sf_Exits req) s2)" using storeInv_core by metis
    then have i3: "storeInv lim s3" unfolding s3_def by (rule countEntry_inv [OF _ inv(2)])
    have g: "core (snd (applyGroupDownstreamLocked now ?id (sf_Downstream req) s3)) = core s3"
      by (rule eraseSched_D(1) [OF groupDownstream_frame])
    have k: "core (fold (skipRoot now ?id) ts s) = core s" for ts s by (rule fold_same) simp
    have "core (snd (seedExecutionFromEntryLocked now hint nsCtx req admission s)) = core s3"
      using None d Inr
      by (simp add: seedExecutionFromEntryLocked_def decideSlot_def [symmetric] Let_def e' s1_def [symmetric] s2_def [symmetric]
          s3_def [symmetric] g k)
    then show ?thesis using i3 storeInv_core by metis
  qed
qed

lemma completeSeed_inv:
  "storeInv lim s \<Longrightarrow> (\<And>k. 0 < fst (lim k)) \<Longrightarrow> storeInv lim (completeSeed now eid s)"
  by (simp add: completeSeed_def finishExecutionLocked_inv isTerminalStatus_def)

lemma core_remaining [simp]: "core (s\<lparr>remaining := m\<rparr>) = core s"
  by (simp add: core_def)

lemma seedExecution_inv:
  assumes inv: "storeInv lim s" "\<And>k. 0 < fst (lim k)"
    and fresh: "\<And>e. sq_Execution req = Some e \<Longrightarrow> fmlookup (executions s) (es_ID e) = None"
    and adm: "\<And>adm. sq_Admission req = Some adm \<Longrightarrow> withinLimits lim adm"
  shows "storeInv lim (snd (seedExecution now hint req s))"
proof (cases "sq_Execution req")
  case None
  then show ?thesis by (simp add: seedExecution_def inv)
next
  case (Some e)
  obtain s0 r where d: "decideSlot now (es_ID e) (sq_Admission req) s = (s0, r)" by fastforce
  note c = admitted_create_inv [OF inv fresh [OF Some] adm d, of hint]
  show ?thesis
  proof (cases "list_ex badSeedUnit (sq_Units req)")
    case True
    then show ?thesis by (simp add: seedExecution_def Some inv)
  next
    case good: False
    show ?thesis
    proof (cases r)
      case (Inl err)
      then show ?thesis using Some good d c by (simp add: seedExecution_def decideSlot_def [symmetric])
    next
      case (Inr pending)
      define s1 where "s1 = fold (markSeeded (es_ID e)) (sq_Units req) (createLocked now hint (admitted pending e) s0)"
      define s2 where "s2 = (if acyclicGraph (es_Graph e)
          then s1\<lparr>remaining := fmupd (es_ID e) (mapGet 0 (remaining s1) (es_ID e) - int (length (sq_Units req))) (remaining s1)\<rparr> else s1)"
      define s3 where "s3 = writeInitialIntentsLocked now (es_ID e) (sq_Entries req) zeroTime (snd (fold (seedArrivals now (es_ID e)) (sq_Units req) ([], s2)))"
      define s4 where "s4 = (if acyclicGraph (es_Graph e) then completeSeed now (es_ID e) s3 else s3)"
      have "core s1 = core (createLocked now hint (admitted pending e) s0)" unfolding s1_def by (rule fold_same) simp
      then have "core s3 = core (createLocked now hint (admitted pending e) s0)"
        by (simp add: s3_def s2_def fold_seedArrivals_core)
      then have "storeInv lim s3" using c Inr storeInv_core by (metis sum.case(2))
      then have "storeInv lim s4" using completeSeed_inv inv(2) by (simp add: s4_def)
      moreover have "core (snd (seedExecution now hint req s)) = core s4"
        using Some good d Inr
        by (simp add: seedExecution_def decideSlot_def [symmetric] Let_def admitted_def [symmetric] s1_def [symmetric]
            s2_def s3_def s4_def)
      ultimately show ?thesis using storeInv_core by metis
    qed
  qed
qed

section \<open>First writer wins\<close>

lemma seeded_admission:
  assumes "seedExecutionFromEntryLocked now hint nsCtx req admission s = ((r, True), s1)"
  shows "fmlookup (admissions s1) (sf_AdmissionKey req) =
    Some \<lparr>ae_executionID = DeterministicExecutionID (sf_AdmissionKey req), ae_resultHash = sf_ResultHash req\<rparr>"
  using assms by (auto simp: seedExecutionFromEntryLocked_def Let_def split: option.splits sum.splits prod.splits)

text \<open>While the record of a key is there, an admission under the key is answered from it
  and changes nothing.\<close>

lemma admission_recovered:
  assumes "fmlookup (admissions s) (sf_AdmissionKey req) = Some a"
  shows "seedExecutionFromEntry now hint nsCtx ins req admission s = (Inr (admittedBefore req a s), s)"
  using assms by (simp add: seedExecutionFromEntry_def seedExecutionFromEntryLocked_def Let_def)

section \<open>A refused admission\<close>

text \<open>When the policy of an admission refuses: in queue mode the set is full, or has a
  line, and the line is as long as it may get; otherwise the set is full.\<close>

definition admissionRefused :: "ConcurrencyAdmission \<Rightarrow> workflowSlot \<Rightarrow> bool" where
  "admissionRefused adm sl \<longleftrightarrow>
     (if ca_Mode adm = ''queue''
      then (ca_Limit adm \<le> holderCount sl \<or> ws_queued sl \<noteq> []) \<and> 0 < ca_MaxQueued adm \<and> ca_MaxQueued adm \<le> int (length (ws_queued sl))
      else ca_Limit adm \<le> holderCount sl)"

definition refusalError :: "ConcurrencyAdmission \<Rightarrow> StoreError" where
  "refusalError adm = (if ca_Mode adm = ''queue'' then ErrConcurrencyQueueFull else ErrConcurrencyLimit)"

lemma chargeOrPark_refused:
  assumes "slotsOK s" "admissionRefused adm (admissionSlot adm s)"
  shows "chargeOrParkLocked now eid adm s = (admissionState adm s, Inl (refusalError adm))"
  using assms(2)
  by (auto simp: chargeOrParkLocked_eq [OF assms(1)] admissionRefused_def refusalError_def parkOrChargeLocked_def admissionSlot_def Let_def
      split: if_splits)

text \<open>C36. A refused admission creates nothing.  Let the slot tables of the store agree (as they
  do in every reachable store).  When the workflow's policy refuses (the
  set is full and the mode is to reject, or the line is as long as it may get), each of
  the three ways to create an execution reports the refusal: a submission, a derived
  execution whose request is well-formed, and an entry unit's admission under a key
  that was not admitted before.  The store is then the one before, but for the limit
  that the workflow's set remembers: no execution, counter, intent or admission key,
  and no holder, place in a line or slot charged, whatever the durable store would
  have answered.\<close>

theorem refused_creates_nothing:
  assumes "slotsOK s" "k = ConcurrencyKey (ca_Namespace adm) (ca_Workflow adm)"
    and "sl = (case fmlookup (workflowSlots s) k of None \<Rightarrow> emptySlot k | Some sl \<Rightarrow> sl)" "admissionRefused adm sl"
    and "s' = s\<lparr>workflowSlots := fmupd k (sl\<lparr>ws_limit := ca_Limit adm\<rparr>) (workflowSlots s)\<rparr>"
  shows "CreateExecutionWithConcurrency now hint ins e entries adm s = (s', Inl (refusalError adm))
    \<and> (sq_Execution q = Some e' \<and> sq_Admission q = Some adm \<and> \<not> list_ex badSeedUnit (sq_Units q) \<longrightarrow>
        SeedExecution now hint ins q s = (Inl (refusalError adm), s'))
    \<and> (fmlookup (admissions s) (sf_AdmissionKey req) = None \<longrightarrow>
        seedExecutionFromEntry now hint nsCtx ins req (Some adm) s =
          (Inr (emptySeedResponse\<lparr>sr_State := (if ca_Mode adm = ''queue'' then AdmissionStateQueueFull else AdmissionStateOverLimit)\<rparr>), s'))"
proof -
  have k: "k = admissionKey adm" by (simp add: assms(2) admissionKey_def)
  have sl: "admissionSlot adm s = sl\<lparr>ws_limit := ca_Limit adm\<rparr>" unfolding admissionSlot_def assms(3) k ..
  then have s': "admissionState adm s = s'" by (simp add: admissionState_def assms(5) k)
  have "admissionRefused adm (admissionSlot adm s)"
    using assms(4) by (simp add: sl admissionRefused_def holderCount_def split: if_splits)
  note c = chargeOrPark_refused [OF assms(1) this, unfolded s']
  have "SeedAdmissionRefusal (refusalError adm) =
      Inr (emptySeedResponse\<lparr>sr_State := (if ca_Mode adm = ''queue'' then AdmissionStateQueueFull else AdmissionStateOverLimit)\<rparr>)"
    by (simp add: refusalError_def SeedAdmissionRefusal_def)
  then show ?thesis
    by (simp add: c CreateExecutionWithConcurrency_def createWithConcurrencyLocked_def SeedExecution_def
        seedExecution_def seedExecutionFromEntry_def seedExecutionFromEntryLocked_def Let_def)
qed

section \<open>A resolved prefix is never run\<close>

text \<open>A unit whose outcome the seed recorded: marked, and without an intent.\<close>

definition settledUnit :: "ExecutionID \<Rightarrow> int \<Rightarrow> string \<Rightarrow> memoryState \<Rightarrow> bool" where
  "settledUnit eid u name s \<longleftrightarrow> markerOf eid u s = seedScheduledMarker
     \<and> \<not> hasKey (outboxOf s eid) (executeOutboxID eid name 0) \<and> \<not> hasKey (outboxOf s eid) (skipOutboxID eid name 0)"

lemma settledUnit_intent: "settledUnit eid u name s \<longleftrightarrow> intentOK eid 0 u name s \<and> markerOf eid u s = seedScheduledMarker"
  by (auto simp: settledUnit_def intentOK_def seedScheduledMarker_def)

lemma settledUnit_kept: "intentsKept s s' \<Longrightarrow> scheduled s' = scheduled s \<Longrightarrow> settledUnit eid u name s \<Longrightarrow> settledUnit eid u name s'"
  by (auto simp: settledUnit_def markerOf_def dest: intentsKept_hasKey)

lemma settledUnit_arrivals:
  assumes "settledUnit eid u name s"
    and "\<forall>a\<in>set as. da_ArrivalCount a > 0 \<longrightarrow> (da_UnitIdx a = u \<longleftrightarrow> da_NodeName a = name)"
  shows "settledUnit eid u name (snd (applyGroupDownstreamLocked now eid as s))"
proof -
  have m: "markerOf eid u (snd (applyArrival now eid 0 0 a s)) = markerOf eid u s" if "markerOf eid u s \<noteq> ''''" for a s
    using that by (cases "unitAt eid u s") (simp add: markerOf_unit applyArrival_unit)
  have "markerOf eid u (snd (applyArrivalsLocked now eid 0 0 as s)) = seedScheduledMarker"
    if "markerOf eid u s = seedScheduledMarker" for s
    using that by (induction as arbitrary: s) (simp_all add: m seedScheduledMarker_def del: applyArrivalsLocked.simps(2))
  then show ?thesis
    using assms applyArrivals_intent [of eid 0 u name s as now 0]
    by (simp add: settledUnit_intent applyGroupDownstreamLocked_def groupArrivals_fold)
qed

lemma settledUnit_seedArrivals:
  assumes "settledUnit eid u name (snd r)"
    and "\<forall>v\<in>set us. \<forall>a\<in>set (sv_Downstream v). da_ArrivalCount a > 0 \<longrightarrow> (da_UnitIdx a = u \<longleftrightarrow> da_NodeName a = name)"
  shows "settledUnit eid u name (snd (fold (seedArrivals now eid) us r))"
  using assms
proof (induction us arbitrary: r)
  case (Cons v us)
  have "settledUnit eid u name (snd (seedArrivals now eid v r))"
    using settledUnit_arrivals [OF Cons.prems(1), of "sv_Downstream v" now] Cons.prems(2)
    by (simp add: seedArrivals_def case_prod_beta)
  then show ?case using Cons by simp
qed simp

lemma settledUnit_put:
  "settledUnit eid u name s \<Longrightarrow> oe_ID en \<noteq> executeOutboxID eid name 0 \<Longrightarrow> oe_ID en \<noteq> skipOutboxID eid name 0 \<Longrightarrow>
   settledUnit eid u name (snd (putOutboxEntryLocked now eid en s))"
  by (simp add: settledUnit_def hasKey_def putOutboxEntryLocked_lookup) (simp add: markerOf_def putOutboxEntryLocked_def Let_def)

lemma settledUnit_mark:
  "settledUnit eid u name s \<Longrightarrow> v \<noteq> u \<Longrightarrow> settledUnit eid u name (s\<lparr>scheduled := fmupd (memoryCounterKey eid v) m (scheduled s)\<rparr>)"
  by (simp add: settledUnit_def markerOf_def outboxOf_def)

lemma settledUnit_intents:
  assumes "settledUnit eid u name s"
    and "\<forall>en\<in>set entries. t_UnitIdx (oe_Task en) \<noteq> u \<and> oe_ID en \<noteq> executeOutboxID eid name 0 \<and> oe_ID en \<noteq> skipOutboxID eid name 0"
  shows "settledUnit eid u name (writeInitialIntentsLocked now eid entries zeroTime s)"
  unfolding writeInitialIntentsLocked_def using assms
proof (induction entries arbitrary: s)
  case (Cons en entries)
  have "settledUnit eid u name (writeIntent now eid zeroTime en s)"
    using Cons.prems by (auto simp: writeIntent_def Let_def intro!: settledUnit_put settledUnit_mark)
  then show ?case using Cons by simp
qed simp

lemma hold_sel [simp]:
  "scheduled (holdOutboxLocked eid s) = scheduled s" "nodes (holdOutboxLocked eid s) = nodes s"
  "remaining (holdOutboxLocked eid s) = remaining s"
  "scheduled (holdWhilePending eid s) = scheduled s" "nodes (holdWhilePending eid s) = nodes s"
  "remaining (holdWhilePending eid s) = remaining s"
  by (simp_all add: holdWhilePending_def holdOutboxLocked_def updEntries_def split: option.split)

lemma intentsKept_pending: "intentsKept s (holdWhilePending eid s)"
  by (simp add: holdWhilePending_def intents)

text \<open>The stages of an accepted seed: up to \<open>s3\<close> units are marked, arrivals applied and
  entries written; what follows completes or holds the execution.\<close>

definition seedMarked :: "Time \<Rightarrow> bool \<Rightarrow> SeedExecutionRequest \<Rightarrow> ExecutionSnapshot \<Rightarrow> bool \<Rightarrow> memoryState \<Rightarrow> memoryState" where
  "seedMarked now hint req e pending s0 =
     (let s1 = fold (markSeeded (es_ID e)) (sq_Units req) (createLocked now hint (admitted pending e) s0)
      in if acyclicGraph (es_Graph e)
         then s1\<lparr>remaining := fmupd (es_ID e) (mapGet 0 (remaining s1) (es_ID e) - int (length (sq_Units req))) (remaining s1)\<rparr>
         else s1)"

lemma seedExecution_stages:
  assumes "seedExecution now hint req s = (Inr resp, s')" "sq_Execution req = Some e"
  obtains s0 pending s3 where "decideSlot now (es_ID e) (sq_Admission req) s = (s0, Inr pending)"
    "s3 = writeInitialIntentsLocked now (es_ID e) (sq_Entries req) zeroTime
       (snd (fold (seedArrivals now (es_ID e)) (sq_Units req) ([], seedMarked now hint req e pending s0)))"
    "intentsKept s3 s'" "scheduled s' = scheduled s3" "nodes s' = nodes s3" "remaining s' = remaining s3"
proof -
  obtain s0 r where d: "decideSlot now (es_ID e) (sq_Admission req) s = (s0, r)" by fastforce
  have g: "\<not> list_ex badSeedUnit (sq_Units req)" using assms by (auto simp: seedExecution_def split: if_splits)
  then obtain pending where r: "r = Inr pending"
    using assms d by (cases r) (auto simp: seedExecution_def decideSlot_def [symmetric])
  define s3 where "s3 = writeInitialIntentsLocked now (es_ID e) (sq_Entries req) zeroTime
       (snd (fold (seedArrivals now (es_ID e)) (sq_Units req) ([], seedMarked now hint req e pending s0)))"
  define s4 where "s4 = (if acyclicGraph (es_Graph e) then completeSeed now (es_ID e) s3 else s3)"
  have "intentsKept s3 s4 \<and> scheduled s4 = scheduled s3 \<and> nodes s4 = nodes s3 \<and> remaining s4 = remaining s3"
    by (simp add: s4_def completeSeed_def intents)
  moreover have "s' = holdWhilePending (es_ID e) (if (if statusOf s4 (es_ID e) = Some ExecutionStatusQueued
      then queuePositionLocked s4 (es_ID e) else 0) > 0 then holdOutboxLocked (es_ID e) s4 else s4)"
    using assms g d
    by (simp only: seedExecution_def decideSlot_def [symmetric] r option.case prod.case sum.case Let_def if_False
        admitted_def [symmetric] seedMarked_def [unfolded Let_def, symmetric] s3_def [symmetric] s4_def [symmetric] prod.inject)
  moreover have "intentsKept s4 (holdWhilePending (es_ID e) (if b then holdOutboxLocked (es_ID e) s4 else s4))" for b
    by (rule intentsKept_trans [OF _ intentsKept_pending]) (simp add: intents)
  ultimately have "intentsKept s4 s'" "intentsKept s3 s4" "scheduled s' = scheduled s3" "nodes s' = nodes s3" "remaining s' = remaining s3"
    by (simp_all only: hold_sel if_distrib [of scheduled] if_distrib [of nodes] if_distrib [of remaining] if_cancel)
  then have "intentsKept s3 s'" "scheduled s' = scheduled s3" "nodes s' = nodes s3" "remaining s' = remaining s3"
    using intentsKept_trans by blast+
  then show thesis using that d r s3_def by blast
qed

lemma markSeeded_sel:
  "outbox (markSeeded eid u s) = outbox s" "remaining (markSeeded eid u s) = remaining s"
  "scheduled (markSeeded eid u s) = fmupd (memoryCounterKey eid (sv_UnitIdx u)) seedScheduledMarker (scheduled s)"
  by (simp_all add: markSeeded_def Let_def preserveOutputPrivacyLocked_def split: option.split)

lemma markSeeded_nodes:
  "fmlookup (nodes (markSeeded eid u s)) (memoryNodeKey eid (sv_NodeName u))
     = Some (seedNode eid u (sv_PrivateOutput u \<or> outputIsPrivateLocked s (memoryNodeKey eid (sv_NodeName u))))"
  "sv_NodeName u \<noteq> name \<Longrightarrow> fmlookup (nodes (markSeeded eid u s)) (memoryNodeKey eid name) = fmlookup (nodes s) (memoryNodeKey eid name)"
  by (simp_all add: markSeeded_def Let_def preserveOutputPrivacyLocked_def memoryNodeKey_def split: option.split)

lemma fold_markSeeded_outbox: "outbox (fold (markSeeded eid) us s) = outbox s" "remaining (fold (markSeeded eid) us s) = remaining s"
  by (rule fold_same, rule markSeeded_sel)+

lemma fold_markSeeded_marker:
  "markerOf eid (sv_UnitIdx u) (fold (markSeeded eid) us s) = seedScheduledMarker" if "u \<in> set us \<or> markerOf eid (sv_UnitIdx u) s = seedScheduledMarker"
  using that by (induction us arbitrary: s) (auto simp: markerOf_def markSeeded_sel)

lemma fold_markSeeded_node:
  assumes "distinct (map sv_NodeName us)" "u \<in> set us"
  shows "\<exists>p. fmlookup (nodes (fold (markSeeded eid) us s)) (memoryNodeKey eid (sv_NodeName u)) = Some (seedNode eid u p)"
  using assms
proof (induction us arbitrary: s)
  case (Cons v us)
  have other: "fmlookup (nodes (fold (markSeeded eid) vs s)) (memoryNodeKey eid name) = fmlookup (nodes s) (memoryNodeKey eid name)"
    if "name \<notin> sv_NodeName ` set vs" for vs name s
    using that by (induction vs arbitrary: s) (auto simp: markSeeded_nodes(2))
  show ?case
  proof (cases "u = v")
    case True
    then show ?thesis using Cons.prems(1) other [of "sv_NodeName v" us "markSeeded eid v s"] by (auto simp: markSeeded_nodes(1))
  next
    case False
    then show ?thesis using Cons.IH [of "markSeeded eid v s"] Cons.prems by simp
  qed
qed simp

lemma seedArrivals_sel:
  "nodes (snd (seedArrivals now eid u r)) = nodes (snd r)" "remaining (snd (seedArrivals now eid u r)) = remaining (snd r)"
  using eraseSched_D(2,6) [OF groupDownstream_frame, of now eid "sv_Downstream u" "snd r"]
  by (simp_all add: seedArrivals_def case_prod_beta)

lemma fold_seedArrivals_sel:
  "nodes (snd (fold (seedArrivals now eid) us r)) = nodes (snd r)" "remaining (snd (fold (seedArrivals now eid) us r)) = remaining (snd r)"
  by (induction us arbitrary: r) (simp_all add: seedArrivals_sel)

lemma writeIntents_sel:
  "nodes (writeInitialIntentsLocked now eid es at s) = nodes s" "remaining (writeInitialIntentsLocked now eid es at s) = remaining s"
proof -
  have "nodes (writeIntent now eid at e s) = nodes s" "remaining (writeIntent now eid at e s) = remaining s" for e s
    by (simp_all add: writeIntent_def Let_def putOutboxEntryLocked_def)
  then show "nodes (writeInitialIntentsLocked now eid es at s) = nodes s"
    "remaining (writeInitialIntentsLocked now eid es at s) = remaining s"
    unfolding writeInitialIntentsLocked_def by (simp_all add: fold_same)
qed

lemma decideSlot_outbox: "decideSlot now eid adm s = (s0, r) \<Longrightarrow> outbox s0 = outbox s"
  by (auto simp: decideSlot_def chargeOrParkLocked_def parkOrChargeLocked_def chargeSlotLocked_def putSlot_def slotForLocked_def Let_def
      split: option.splits if_splits prod.splits)

lemma createLocked_sel:
  "outbox (createLocked now hint e s) = outbox s"
  "acyclicGraph (es_Graph e) \<Longrightarrow> mapGet 0 (remaining (createLocked now hint e s)) (es_ID e) = UnitCount (the (es_Graph e))"
  by (auto simp: createLocked_def createExecutionLocked_def Let_def markMirrorCreatePendingLocked_def noteMirrorModeLocked_def
      acyclicGraph_def split: option.splits)

text \<open>C37. A derived execution builds on its recorded prefix and never runs it again.
  For every unit the request resolves, the seeded execution has the unit's record
  with the resolved status and output, its scheduling marker says that the decision
  is made, and neither an execute nor a skip intent for it exists, although the
  arrivals of the other resolved units reach its counters; and exactly the units
  that were not resolved are left to run.\<close>

theorem seed_prefix_final:
  assumes "seedExecution now hint req s = (Inr resp, s')" "sq_Execution req = Some e" "acyclicGraph (es_Graph e)"
    and "outboxOf s (es_ID e) = fmempty" "distinct (map sv_NodeName (sq_Units req))" "u \<in> set (sq_Units req)"
    and arr: "\<forall>v\<in>set (sq_Units req). \<forall>a\<in>set (sv_Downstream v). da_ArrivalCount a > 0 \<longrightarrow>
      (da_UnitIdx a = sv_UnitIdx u \<longleftrightarrow> da_NodeName a = sv_NodeName u)"
    and ent: "\<forall>en\<in>set (sq_Entries req). t_UnitIdx (oe_Task en) \<noteq> sv_UnitIdx u
      \<and> oe_ID en \<noteq> executeOutboxID (es_ID e) (sv_NodeName u) 0 \<and> oe_ID en \<noteq> skipOutboxID (es_ID e) (sv_NodeName u) 0"
  shows "(\<exists>p. fmlookup (nodes s') (memoryNodeKey (es_ID e) (sv_NodeName u)) = Some (seedNode (es_ID e) u p))
    \<and> mapGet '''' (scheduled s') (memoryCounterKey (es_ID e) (sv_UnitIdx u)) = ''seed''
    \<and> \<not> hasKey (outboxOf s' (es_ID e)) (executeOutboxID (es_ID e) (sv_NodeName u) 0)
    \<and> \<not> hasKey (outboxOf s' (es_ID e)) (skipOutboxID (es_ID e) (sv_NodeName u) 0)
    \<and> mapGet 0 (remaining s') (es_ID e) = UnitCount (the (es_Graph e)) - int (length (sq_Units req))"
  using assms(1,2)
proof (rule seedExecution_stages)
  fix s0 pending s3
  assume d: "decideSlot now (es_ID e) (sq_Admission req) s = (s0, Inr pending)"
    and s3: "s3 = writeInitialIntentsLocked now (es_ID e) (sq_Entries req) zeroTime
       (snd (fold (seedArrivals now (es_ID e)) (sq_Units req) ([], seedMarked now hint req e pending s0)))"
    and k: "intentsKept s3 s'" "scheduled s' = scheduled s3" "nodes s' = nodes s3" "remaining s' = remaining s3"
  define c where "c = createLocked now hint (admitted pending e) s0"
  define m where "m = fold (markSeeded (es_ID e)) (sq_Units req) c"
  have id: "es_ID (admitted pending e) = es_ID e" "es_Graph (admitted pending e) = es_Graph e" by (simp_all add: admitted_def)
  have m2: "seedMarked now hint req e pending s0 =
      m\<lparr>remaining := fmupd (es_ID e) (mapGet 0 (remaining m) (es_ID e) - int (length (sq_Units req))) (remaining m)\<rparr>"
    using assms(3) by (simp add: seedMarked_def Let_def m_def c_def)
  have "outbox m = outbox s" by (simp add: m_def c_def fold_markSeeded_outbox createLocked_sel decideSlot_outbox [OF d])
  then have "settledUnit (es_ID e) (sv_UnitIdx u) (sv_NodeName u) m"
    using assms(4) fold_markSeeded_marker [of u "sq_Units req" "es_ID e" c] assms(6)
    by (simp add: settledUnit_def outboxOf_def hasKey_def m_def)
  then have "settledUnit (es_ID e) (sv_UnitIdx u) (sv_NodeName u) (seedMarked now hint req e pending s0)"
    by (simp add: m2 settledUnit_def markerOf_def outboxOf_def)
  from settledUnit_intents [OF settledUnit_seedArrivals [where r = "([], seedMarked now hint req e pending s0)", simplified, OF this arr] ent]
  have "settledUnit (es_ID e) (sv_UnitIdx u) (sv_NodeName u) s'" using settledUnit_kept [OF k(1,2)] by (simp add: s3)
  moreover have "nodes s' = nodes m" by (simp add: k(3) s3 writeIntents_sel fold_seedArrivals_sel m2)
  moreover have "mapGet 0 (remaining m) (es_ID e) = UnitCount (the (es_Graph e))"
    using createLocked_sel(2) [of "admitted pending e" now hint s0] assms(3) by (simp add: m_def c_def fold_markSeeded_outbox id)
  ultimately show ?thesis
    using fold_markSeeded_node [OF assms(5,6), of "es_ID e" c]
    by (simp add: settledUnit_def markerOf_def seedScheduledMarker_def m_def [symmetric] k(4) s3 writeIntents_sel fold_seedArrivals_sel m2)
qed

section \<open>Examples\<close>

definition sampleEntry :: SeedExecutionFromEntryRequest where
  "sampleEntry = \<lparr>sf_AdmissionKey = ''k'', sf_Namespace = ''default'', sf_WorkflowID = ''w'', sf_WorkflowVersion = ''1'',
     sf_DefinitionHash = '''', sf_EntryUnitIdx = 0, sf_Graph = None, sf_Outcome = GroupOutcomeSuccess, sf_Exits = [],
     sf_Error = '''', sf_ResultHash = ''h1'', sf_Downstream = [], sf_Params = None\<rparr>"

definition sampleRefusal :: ConcurrencyAdmission where
  "sampleRefusal = \<lparr>ca_Namespace = ''n'', ca_Workflow = ''w'', ca_Limit = 0, ca_Mode = ''reject'', ca_MaxQueued = 0, ca_QueueTimeout = 0\<rparr>"

theorem refused_creates_nothing_witness:
  "SeedExecution 100 False InsertOK \<lparr>sq_Execution = Some zeroExecution, sq_Units = [], sq_Entries = [], sq_Admission = Some sampleRefusal\<rparr>
     (newMemoryState False) =
    (Inl ErrConcurrencyLimit, (newMemoryState False)\<lparr>workflowSlots :=
       fmupd (ConcurrencyKey ''n'' ''w'') (emptySlot (ConcurrencyKey ''n'' ''w'')) fmempty\<rparr>)"
proof -
  let ?q = "\<lparr>sq_Execution = Some zeroExecution, sq_Units = [], sq_Entries = [], sq_Admission = Some sampleRefusal\<rparr>"
  have ok: "slotsOK (newMemoryState False)" by (simp add: slotsOK_def newMemoryState_def)
  have a: "ca_Namespace sampleRefusal = ''n''" "ca_Workflow sampleRefusal = ''w''" "ca_Limit sampleRefusal = 0"
    "admissionRefused sampleRefusal (emptySlot k)" "refusalError sampleRefusal = ErrConcurrencyLimit" for k
    by (simp_all add: sampleRefusal_def admissionRefused_def refusalError_def holderCount_def emptySlot_def)
  have w: "workflowSlots (newMemoryState False) = fmempty" "(emptySlot k)\<lparr>ws_limit := 0\<rparr> = emptySlot k" for k
    by (simp_all add: newMemoryState_def emptySlot_def)
  show ?thesis
    using refused_creates_nothing [OF ok refl refl _ refl, of sampleRefusal 100 False InsertOK zeroExecution "[]" ?q zeroExecution]
    by (simp add: a w)
qed

text \<open>A chain of three units, of which the first two were resolved.\<close>

definition sampleUnit :: "int \<Rightarrow> UnitMeta" where
  "sampleUnit i = \<lparr>um_Kind = UnitNode, um_Name = ''u'' @ itoa i, um_NodeIdx = i, um_GroupIdx = 0, um_RunnerSelector = None,
     um_Retry = None, um_Timeout = 0, um_ActivationReplicas = 0\<rparr>"

definition sampleGraph :: Graph where
  "sampleGraph = \<lparr>g_name = ''g'', g_nodes = [], g_index = fmempty, g_outEdges = [], g_inEdges = [], g_inDegree = [], g_allowCycles = False,
     g_startIdx = 0, g_maxAutoDepth = 0, g_transient = False, g_timeout = 0, g_concurrency = None, g_hasDisabled = False, g_groups = [],
     g_units = map sampleUnit [0, 1, 2], g_unitOutEdges = [], g_unitInEdges = [], g_unitInDegree = [0, 1, 1], g_nodeUnit = []\<rparr>"

definition sampleSeedUnit :: "int \<Rightarrow> string \<Rightarrow> string \<Rightarrow> SeedUnit" where
  "sampleSeedUnit i name succ = \<lparr>sv_UnitIdx = i, sv_NodeName = name, sv_NodeIdx = i, sv_Status = NodeStatusSuccess, sv_Port = ''main'',
     sv_Output = None, sv_PrivateOutput = False,
     sv_Downstream = [\<lparr>da_NodeName = succ, da_NodeIdx = i + 1, da_UnitIdx = i + 1, da_ArrivalCount = 1, da_ActiveCount = 1,
       da_MergeMode = ''wait_all'', da_ExecTaskType = TaskTypeNodeExec\<rparr>]\<rparr>"

definition sampleSeed :: SeedExecutionRequest where
  "sampleSeed = \<lparr>sq_Execution = Some (zeroExecution\<lparr>es_ID := ''ex'', es_Graph := Some sampleGraph\<rparr>),
     sq_Units = [sampleSeedUnit 0 ''a'' ''b'', sampleSeedUnit 1 ''b'' ''c''], sq_Entries = [], sq_Admission = None\<rparr>"

theorem seed_prefix_final_witness:
  "mapGet '''' (scheduled (snd (seedExecution 100 False sampleSeed (newMemoryState False)))) (memoryCounterKey ''ex'' 1) = ''seed''
    \<and> mapGet 0 (remaining (snd (seedExecution 100 False sampleSeed (newMemoryState False)))) ''ex'' = 1"
proof -
  let ?r = "seedExecution 100 False sampleSeed (newMemoryState False)"
  have "isOk (fst ?r)" by code_simp
  then obtain resp where "fst ?r = Inr resp" by (cases "fst ?r") simp_all
  then have r: "?r = (Inr resp, snd ?r)" by (metis prod.collapse)
  have e: "sq_Execution sampleSeed = Some (zeroExecution\<lparr>es_ID := ''ex'', es_Graph := Some sampleGraph\<rparr>)" by (simp add: sampleSeed_def)
  show ?thesis
    using seed_prefix_final [OF r e, of "sampleSeedUnit 1 ''b'' ''c''"]
    by (simp add: sampleSeed_def sampleSeedUnit_def sampleGraph_def acyclicGraph_def UnitCount_def newMemoryState_def outboxOf_def)
qed

end
