(* ===== verification/Expansion.thy ===== *)
theory Expansion
  imports Seeding "HOL-Library.Multiset"
begin

text \<open>
  Nodes that wait for child executions: the batches a node expands into
  (\<open>expand_state.go\<close>) and the sub-workflow a node is parked on
  (\<open>subworkflow_state.go\<close>).  A lease may be the nil pointer.  \<open>sort.Slice\<close> leaves the
  order of equal keys open: the argument \<open>arrange\<close> is the arrangement of the records
  whose stable sort is the one it returns, and may be any function that permutes.
\<close>

section \<open>Expanded batches\<close>

definition matchesExpansionLease :: "NodeSnapshot option \<Rightarrow> TaskLease \<Rightarrow> NodeStatus \<Rightarrow> bool" where
  "matchesExpansionLease node lease status = (case node of None \<Rightarrow> False
      | Some n \<Rightarrow> ns_Status n = status \<and> ns_LeaseID n = tl_LeaseID lease \<and> ns_LeaseToken n = tl_LeaseToken lease
          \<and> ns_Attempt n = tl_Attempt lease \<and> ns_ActivationID n = t_ActivationID (tl_Task lease))"

definition expansionSubExecutionKey :: "TaskLease \<Rightarrow> string" where
  "expansionSubExecutionKey lease =
     t_ExecutionID (tl_Task lease) @ ''/'' @ t_NodeName (tl_Task lease) @ ''/'' @ tl_LeaseID lease"

definition expansionResults :: "(SubExecution list \<Rightarrow> SubExecution list) \<Rightarrow> SubExecution list \<Rightarrow> data list" where
  "expansionResults arrange subs = filter (\<lambda>r. r \<noteq> None) (map sx_Result (sort_key sx_BatchIndex (arrange subs)))"

definition badChild :: "TaskLease \<Rightarrow> SubExecution \<times> OutboxEntry \<Rightarrow> bool" where
  "badChild lease ce \<longleftrightarrow> sx_ChildExecID (fst ce) = '''' \<or> sx_ParentExecID (fst ce) \<noteq> t_ExecutionID (tl_Task lease)
     \<or> sx_ParentNode (fst ce) \<noteq> t_NodeName (tl_Task lease) \<or> oe_ID (snd ce) = ''''"

definition addChild :: "Time \<Rightarrow> TaskLease \<Rightarrow> SubExecution \<times> OutboxEntry \<Rightarrow> memoryState \<Rightarrow> memoryState" where
  "addChild now lease ce s =
     (let key = expansionSubExecutionKey lease; entry = snd ce;
          s1 = s\<lparr>subExecs := fmupd key (mapGet [] (subExecs s) key @ [fst ce]) (subExecs s)\<rparr>
      in snd (putOutboxLocked now (t_ExecutionID (tl_Task lease)) (oe_ID entry) (oe_Task entry) (oe_AvailableAt entry) s1))"

definition parkNode :: "string \<Rightarrow> NodeSnapshot option \<Rightarrow> memoryState \<Rightarrow> memoryState" where
  "parkNode key node s = s\<lparr>nodes := fmupd key ((the node)\<lparr>ns_Status := NodeStatusWaiting\<rparr>) (nodes s)\<rparr>"

definition BeginTaskExpansionWithOutbox :: "Time \<Rightarrow> TaskLease option \<Rightarrow> SubExecution list \<Rightarrow> OutboxEntry list \<Rightarrow> memoryState \<Rightarrow>
    (StoreError + bool) \<times> memoryState" where
  "BeginTaskExpansionWithOutbox now lease children entries s = (case lease of
      None \<Rightarrow> (Inl ErrInvalidLeaseToken, s)
    | Some l \<Rightarrow>
        let key = leaseKey l; node = fmlookup (nodes s) key
        in if length children \<noteq> length entries then (Inl ErrInvalidLeaseToken, s)
           else if \<not> matchesExpansionLease node l NodeStatusCommitting then (Inr False, s)
           else if list_ex (badChild l) (zip children entries) then (Inl ErrInvalidLeaseToken, s)
           else (Inr True, fold (addChild now l) (zip children entries) (parkNode key node s)))"

definition BeginTaskExpansion :: "TaskLease option \<Rightarrow> memoryState \<Rightarrow> (StoreError + bool) \<times> memoryState" where
  "BeginTaskExpansion lease s = (case lease of
      None \<Rightarrow> (Inl ErrInvalidLeaseToken, s)
    | Some l \<Rightarrow>
        let key = leaseKey l; node = fmlookup (nodes s) key
        in if \<not> matchesExpansionLease node l NodeStatusCommitting then (Inr False, s)
           else (Inr True, parkNode key node s))"

definition CreateExpandedSubExecution :: "TaskLease option \<Rightarrow> SubExecution option \<Rightarrow> memoryState \<Rightarrow> (StoreError + bool) \<times> memoryState" where
  "CreateExpandedSubExecution lease sub s = (case (lease, sub) of
      (Some l, Some sb) \<Rightarrow>
        if sx_ChildExecID sb = '''' then (Inl ErrInvalidLeaseToken, s)
        else if \<not> matchesExpansionLease (fmlookup (nodes s) (leaseKey l)) l NodeStatusWaiting then (Inr False, s)
        else
          let key = expansionSubExecutionKey l; subs = mapGet [] (subExecs s) key
          in if sx_ChildExecID sb \<in> set (map sx_ChildExecID subs) then (Inr True, s)
             else (Inr True, s\<lparr>subExecs := fmupd key (subs @ [sb]) (subExecs s)\<rparr>)
    | _ \<Rightarrow> (Inl ErrInvalidLeaseToken, s))"

text \<open>The loop up to its \<open>break\<close>: the first child of that id, changed only when it still
  runs.\<close>

fun completeFirst :: "ExecutionID \<Rightarrow> ExecutionStatus \<Rightarrow> data \<Rightarrow> SubExecution list \<Rightarrow> SubExecution list" where
  "completeFirst child status result [] = []"
| "completeFirst child status result (sub # subs) =
     (if sx_ChildExecID sub \<noteq> child then sub # completeFirst child status result subs
      else (if sx_Status sub = ExecutionStatusRunning then sub\<lparr>sx_Status := status, sx_Result := result\<rparr> else sub) # subs)"

text \<open>The answer says whether the batch is finished, whether the completion was
  accepted, and the results of a finished batch.\<close>

definition CompleteExpandedSubExecution :: "(SubExecution list \<Rightarrow> SubExecution list) \<Rightarrow> TaskLease option \<Rightarrow> ExecutionID \<Rightarrow> ExecutionStatus \<Rightarrow> data \<Rightarrow> memoryState \<Rightarrow>
    (StoreError + bool \<times> bool \<times> data list) \<times> memoryState" where
  "CompleteExpandedSubExecution arrange lease child status result s = (case lease of
      None \<Rightarrow> (Inl ErrInvalidLeaseToken, s)
    | Some l \<Rightarrow>
        if child = '''' then (Inl ErrInvalidLeaseToken, s)
        else if \<not> matchesExpansionLease (fmlookup (nodes s) (leaseKey l)) l NodeStatusWaiting then (Inr (False, False, []), s)
        else
          let key = expansionSubExecutionKey l; subs = mapGet [] (subExecs s) key
          in if child \<notin> set (map sx_ChildExecID subs) then (Inr (False, False, []), s)
             else
               let subs' = completeFirst child status result subs;
                   s1 = s\<lparr>subExecs := fmupd key subs' (subExecs s)\<rparr>
               in if list_all (\<lambda>sub. IsTerminalExecutionStatus (sx_Status sub)) subs'
                  then (Inr (True, True, expansionResults arrange subs'), s1) else (Inr (False, True, []), s1))"

section \<open>Sub-workflows\<close>

definition matchesSubWorkflowLease :: "NodeSnapshot option \<Rightarrow> TaskLease \<Rightarrow> bool" where
  "matchesSubWorkflowLease node lease = (case node of None \<Rightarrow> False
      | Some n \<Rightarrow> (ns_Status n = NodeStatusRunning \<or> ns_Status n = NodeStatusCommitting)
          \<and> ns_LeaseID n = tl_LeaseID lease \<and> ns_LeaseToken n = tl_LeaseToken lease
          \<and> ns_Attempt n = tl_Attempt lease \<and> ns_ActivationID n = t_ActivationID (tl_Task lease))"

definition BeginSubWorkflowWait :: "Time \<Rightarrow> TaskLease option \<Rightarrow> SubWorkflowLink \<Rightarrow> OutboxEntry list \<Rightarrow> memoryState \<Rightarrow>
    (StoreError + bool) \<times> memoryState" where
  "BeginSubWorkflowWait now lease link entries s = (case lease of
      None \<Rightarrow> (Inl ErrInvalidLeaseToken, s)
    | Some l \<Rightarrow>
        if sl_ChildExecutionID link = '''' \<or> sl_ParentNode link \<noteq> t_NodeName (tl_Task l)
           \<or> list_ex (\<lambda>e. oe_ID e = '''') entries then (Inl ErrInvalidLeaseToken, s)
        else
          let key = leaseKey l; node = fmlookup (nodes s) key
          in if \<not> matchesSubWorkflowLease node l then (Inr False, s)
             else (Inr True, putAll now (t_ExecutionID (tl_Task l)) entries
                    (s\<lparr>nodes := fmupd key ((the node)\<lparr>ns_Status := NodeStatusWaiting,
                            ns_ChildExecutionID := sl_ChildExecutionID link\<rparr>) (nodes s),
                       subWorkflowLinks := fmupd key link (subWorkflowLinks s)\<rparr>)))"

definition GetSubWorkflowLink :: "memoryState \<Rightarrow> ExecutionID \<Rightarrow> string \<Rightarrow> SubWorkflowLink option" where
  "GetSubWorkflowLink s eid name = fmlookup (subWorkflowLinks s) (memoryNodeKey eid name)"

definition subWorkflowConclusionKey :: "ExecutionID \<Rightarrow> string \<Rightarrow> ExecutionID \<Rightarrow> string" where
  "subWorkflowConclusionKey parent name child = memoryNodeKey parent name @ ''/'' @ child"

definition RecordSubWorkflowConclusion :: "ExecutionID \<Rightarrow> string \<Rightarrow> SubWorkflowConclusion \<Rightarrow> memoryState \<Rightarrow>
    StoreError option \<times> memoryState" where
  "RecordSubWorkflowConclusion parent name conclusion s =
     (if sc_ChildExecutionID conclusion = '''' \<or> name = '''' then (Some ErrInvalidLeaseToken, s)
      else (None, s\<lparr>subWorkflowConclusions := fmupd (subWorkflowConclusionKey parent name (sc_ChildExecutionID conclusion))
              conclusion (subWorkflowConclusions s)\<rparr>))"

definition GetSubWorkflowConclusion :: "memoryState \<Rightarrow> ExecutionID \<Rightarrow> string \<Rightarrow> ExecutionID \<Rightarrow> SubWorkflowConclusion option" where
  "GetSubWorkflowConclusion s parent name child =
     fmlookup (subWorkflowConclusions s) (subWorkflowConclusionKey parent name child)"

section \<open>What waiting for children keeps\<close>

lemma restatus_kept:
  assumes "fmlookup (nodes s) k = Some n" "nodes s' = fmupd k n' (nodes s)" "privateOutputs s' = privateOutputs s"
    and "ns_StartedAt n' = ns_StartedAt n" "ns_FinishedAt n' = ns_FinishedAt n" "ns_PrivateOutput n' = ns_PrivateOutput n"
      "ns_Output n' = ns_Output n"
  shows "nodesKept s s'"
proof -
  have o: "outputIsPrivateLocked s' j = outputIsPrivateLocked s j" for j
    using assms by (auto simp: outputIsPrivateLocked_def split: option.split)
  show ?thesis
    using assms(1,2,4-7) unfolding nodesKept_def privacyOK_def o by (auto simp: timingKept_def)
qed

lemma addChild_frame [simp]:
  "core (addChild now l ce s) = core s" "nodes (addChild now l ce s) = nodes s"
  "privateOutputs (addChild now l ce s) = privateOutputs s"
  by (simp_all add: addChild_def Let_def putOutboxLocked_def putOutboxEntryLocked_def core_def)

lemma fold_addChild [simp]:
  "core (fold (addChild now l) cs s) = core s" "nodes (fold (addChild now l) cs s) = nodes s"
  "privateOutputs (fold (addChild now l) cs s) = privateOutputs s"
  by (rule fold_same, simp)+

lemma core_nodes: "core (s\<lparr>nodes := m\<rparr>) = core s" "core (s\<lparr>nodes := m, subWorkflowLinks := l\<rparr>) = core s"
  "core (s\<lparr>subExecs := e\<rparr>) = core s" "core (s\<lparr>subWorkflowConclusions := c\<rparr>) = core s"
  by (simp_all add: core_def)

lemma matchesExpansion_some: "matchesExpansionLease node l st \<Longrightarrow> \<exists>n. node = Some n"
  by (auto simp: matchesExpansionLease_def split: option.splits)

lemma parkNode_kept:
  assumes "matchesExpansionLease (fmlookup (nodes s) k) l st"
  shows "nodesKept s (parkNode k (fmlookup (nodes s) k) s)" "core (parkNode k (fmlookup (nodes s) k) s) = core s"
  using matchesExpansion_some [OF assms] by (auto simp: parkNode_def core_nodes intro: restatus_kept)

lemma BeginTaskExpansionWithOutbox_kept:
  "nodesKept s (snd (BeginTaskExpansionWithOutbox now lease cs es s))" "core (snd (BeginTaskExpansionWithOutbox now lease cs es s)) = core s"
proof -
  have "nodesKept s (fold (addChild now l) xs (parkNode k (fmlookup (nodes s) k) s))"
    if "matchesExpansionLease (fmlookup (nodes s) k) l st" for l xs k st
    by (rule nodesKept_trans [OF parkNode_kept(1) [OF that]], rule nodesKept_same) simp_all
  then show "nodesKept s (snd (BeginTaskExpansionWithOutbox now lease cs es s))"
    "core (snd (BeginTaskExpansionWithOutbox now lease cs es s)) = core s"
    by (simp_all add: BeginTaskExpansionWithOutbox_def Let_def parkNode_kept split: option.split)
qed

lemma BeginTaskExpansion_kept: "nodesKept s (snd (BeginTaskExpansion lease s))" "core (snd (BeginTaskExpansion lease s)) = core s"
  by (simp_all add: BeginTaskExpansion_def Let_def parkNode_kept split: option.split)

lemma expanded_same:
  "sameNodes s (snd (CreateExpandedSubExecution lease sub s))" "sameNodes s (snd (CompleteExpandedSubExecution arrange lease c st r s))"
  "sameNodes s (snd (RecordSubWorkflowConclusion p n con s))"
  by (simp_all add: CreateExpandedSubExecution_def CompleteExpandedSubExecution_def RecordSubWorkflowConclusion_def Let_def
      sameNodes_def core_nodes split: option.split prod.split)

lemma BeginSubWorkflowWait_kept:
  "nodesKept s (snd (BeginSubWorkflowWait now lease link es s))" "core (snd (BeginSubWorkflowWait now lease link es s)) = core s"
proof -
  have "nodesKept s (putAll now eid es (s\<lparr>nodes := fmupd k ((the (fmlookup (nodes s) k))\<lparr>ns_Status := NodeStatusWaiting,
     ns_ChildExecutionID := c\<rparr>) (nodes s), subWorkflowLinks := m\<rparr>))"
    if "matchesSubWorkflowLease (fmlookup (nodes s) k) l" for l k eid c m
    using that by (auto simp: matchesSubWorkflowLease_def intro!: restatus_kept split: option.splits)
  then show "nodesKept s (snd (BeginSubWorkflowWait now lease link es s))" "core (snd (BeginSubWorkflowWait now lease link es s)) = core s"
    by (simp_all add: BeginSubWorkflowWait_def Let_def core_nodes split: option.split)
qed

section \<open>The results of a batch\<close>

text \<open>A completion reported for a child; the first one of a child counts.\<close>

type_synonym completion = "ExecutionID \<times> ExecutionStatus \<times> data"

definition completeWith :: "completion list \<Rightarrow> SubExecution \<Rightarrow> SubExecution" where
  "completeWith cs sub = (case map_of cs (sx_ChildExecID sub) of None \<Rightarrow> sub
      | Some (status, result) \<Rightarrow> sub\<lparr>sx_Status := status, sx_Result := result\<rparr>)"

definition expandRun :: "(SubExecution list \<Rightarrow> SubExecution list) \<Rightarrow> TaskLease \<Rightarrow> completion list \<Rightarrow> memoryState \<Rightarrow> memoryState" where
  "expandRun arrange l cs s = fold (\<lambda>(child, status, result) s. snd (CompleteExpandedSubExecution arrange (Some l) child status result s)) cs s"

lemma completeWith_sel [simp]:
  "sx_ChildExecID (completeWith cs sub) = sx_ChildExecID sub" "sx_BatchIndex (completeWith cs sub) = sx_BatchIndex sub"
  by (simp_all add: completeWith_def split: option.split prod.split)

lemma completeFirst_absent: "child \<notin> set (map sx_ChildExecID subs) \<Longrightarrow> completeFirst child st r subs = subs"
  by (induction subs) auto

lemma completeWith_other: "sx_ChildExecID sub \<noteq> child \<Longrightarrow> completeWith (cs @ [(child, st, r)]) sub = completeWith cs sub"
  by (simp add: completeWith_def map_add_def split: option.split)

lemma completeWith_one:
  assumes "sx_Status sub = ExecutionStatusRunning" "\<forall>c\<in>set cs. IsTerminalExecutionStatus (fst (snd c))"
  shows "completeWith (cs @ [(sx_ChildExecID sub, st, r)]) sub =
    (if sx_Status (completeWith cs sub) = ExecutionStatusRunning then (completeWith cs sub)\<lparr>sx_Status := st, sx_Result := r\<rparr>
     else completeWith cs sub)"
proof (cases "map_of cs (sx_ChildExecID sub)")
  case None
  then show ?thesis using assms(1) by (simp add: completeWith_def map_add_def)
next
  case (Some v)
  then have "IsTerminalExecutionStatus (fst v)" using assms(2) by (auto dest!: map_of_SomeD)
  then show ?thesis using Some by (cases v) (auto simp: completeWith_def map_add_def)
qed

lemma completeFirst_with:
  assumes "distinct (map sx_ChildExecID subs)" "\<forall>sub\<in>set subs. sx_Status sub = ExecutionStatusRunning"
    and "\<forall>c\<in>set cs. IsTerminalExecutionStatus (fst (snd c))"
  shows "completeFirst child st r (map (completeWith cs) subs) = map (completeWith (cs @ [(child, st, r)])) subs"
  using assms(1,2)
proof (induction subs)
  case (Cons sub subs)
  show ?case
  proof (cases "sx_ChildExecID sub = child")
    case True
    have "map (completeWith (cs @ [(child, st, r)])) subs = map (completeWith cs) subs"
      using Cons.prems(1) True by (intro map_cong refl completeWith_other) (force simp: image_iff)
    then show ?thesis using completeWith_one [of sub cs st r] Cons.prems(2) assms(3) True by simp
  next
    case False
    then show ?thesis using Cons by (simp add: completeWith_other)
  qed
qed simp

lemma sort_key_map: "(\<And>x. f (g x) = f x) \<Longrightarrow> sort_key f (map g xs) = map g (sort_key f xs)"
proof (induction xs)
  case (Cons x xs)
  have "insort_key f (g x) (map g ys) = map g (insort_key f x ys)" for ys
    by (induction ys) (simp_all add: Cons.prems)
  then show ?case using Cons by simp
qed simp

lemma sort_key_perm:
  assumes "mset ys = mset xs" "distinct (map f xs)"
  shows "sort_key f ys = sort_key f xs"
proof (rule properties_for_sort_key)
  show "mset (sort_key f xs) = mset ys" using assms(1) by simp
  show "sorted (map f (sort_key f xs))" by simp
  fix k
  assume "k \<in> set (sort_key f xs)"
  then have "k \<in> set xs" by simp
  have u: "filter (\<lambda>x. f k = f x) zs = [k]" if "mset zs = mset xs" for zs
  proof -
    have "mset (map f zs) = mset (map f xs)" using that by (simp add: mset_map)
    then have "distinct (map f zs)" "k \<in> set zs" using assms(2) \<open>k \<in> set xs\<close> that by (metis distinct_count_atmost_1 mset_eq_imp_distinct_iff, metis set_mset_mset)
    then show ?thesis
    proof (induction zs)
      case (Cons z zs)
      then show ?case by (cases "k = z") (auto simp: filter_empty_conv image_iff)
    qed simp
  qed
  show "filter (\<lambda>x. f k = f x) (sort_key f xs) = filter (\<lambda>x. f k = f x) ys"
    using u [of ys] u [of "sort_key f xs"] assms(1) by simp
qed

definition batchWaits :: "TaskLease \<Rightarrow> SubExecution list \<Rightarrow> memoryState \<Rightarrow> bool" where
  "batchWaits l subs s \<longleftrightarrow> matchesExpansionLease (fmlookup (nodes s) (leaseKey l)) l NodeStatusWaiting
     \<and> mapGet [] (subExecs s) (expansionSubExecutionKey l) = subs"

lemma completeExpanded_step:
  assumes "batchWaits l (map (completeWith cs) subs) s" "distinct (map sx_ChildExecID subs)"
    and "\<forall>sub\<in>set subs. sx_Status sub = ExecutionStatusRunning" "\<forall>c\<in>set cs. IsTerminalExecutionStatus (fst (snd c))"
    and "child \<in> set (map sx_ChildExecID subs)" "child \<noteq> ''''"
    and subs': "subs' = map (completeWith (cs @ [(child, st, r)])) subs"
  shows "batchWaits l subs' (snd (CompleteExpandedSubExecution arrange (Some l) child st r s))"
    and "fst (CompleteExpandedSubExecution arrange (Some l) child st r s) =
      Inr (if list_all (\<lambda>sub. IsTerminalExecutionStatus (sx_Status sub)) subs' then (True, True, expansionResults arrange subs') else (False, True, []))"
proof -
  have e: "CompleteExpandedSubExecution arrange (Some l) child st r s =
     (Inr (if list_all (\<lambda>sub. IsTerminalExecutionStatus (sx_Status sub)) subs' then (True, True, expansionResults arrange subs') else (False, True, [])),
      s\<lparr>subExecs := fmupd (expansionSubExecutionKey l) subs' (subExecs s)\<rparr>)"
    using assms(1,5,6) completeFirst_with [OF assms(2-4), of child st r]
    by (simp add: CompleteExpandedSubExecution_def batchWaits_def Let_def subs' image_image)
  show "fst (CompleteExpandedSubExecution arrange (Some l) child st r s) =
      Inr (if list_all (\<lambda>sub. IsTerminalExecutionStatus (sx_Status sub)) subs' then (True, True, expansionResults arrange subs') else (False, True, []))"
    "batchWaits l subs' (snd (CompleteExpandedSubExecution arrange (Some l) child st r s))"
    using assms(1) by (simp_all add: e batchWaits_def)
qed

lemma expandRun_batch:
  assumes "batchWaits l subs s" "distinct (map sx_ChildExecID subs)" "\<forall>sub\<in>set subs. sx_Status sub = ExecutionStatusRunning"
    and "\<forall>c\<in>set cs. IsTerminalExecutionStatus (fst (snd c)) \<and> fst c \<in> set (map sx_ChildExecID subs) \<and> fst c \<noteq> ''''"
  shows "batchWaits l (map (completeWith cs) subs) (expandRun arrange l cs s)"
  using assms(4)
proof (induction cs rule: rev_induct)
  case Nil
  have "completeWith [] = (\<lambda>sub. sub)" by (simp add: fun_eq_iff completeWith_def)
  then show ?case using assms(1) by (simp add: expandRun_def)
next
  case (snoc c cs)
  then have IH: "batchWaits l (map (completeWith cs) subs) (expandRun arrange l cs s)" by simp
  obtain child st r where c: "c = (child, st, r)" by (cases c)
  show ?case
    using completeExpanded_step(1) [where arrange = arrange, OF IH assms(2,3) _ _ _ refl, of child st r] snoc.prems by (auto simp: expandRun_def c)
qed

text \<open>C38. A batch's results come out once, complete and in the order of the batch.
  For a batch of a node that waits for it under the given lease, whose children run,
  with identifiers and batch indices all different:
  whatever ends these children report, in whatever order and with whatever
  repetitions, each report is accepted; the batch is finished exactly when every
  child has reported; and its results are then the first result each child
  reported, in the order of the batch index, without those that have none, however
  the unstable sort of the source arranges the records.\<close>

theorem expansion_results:
  assumes "matchesExpansionLease (fmlookup (nodes s) (leaseKey l)) l NodeStatusWaiting"
    and "subs = mapGet [] (subExecs s) (expansionSubExecutionKey l)"
    and "distinct (map sx_ChildExecID subs)" "\<forall>sub\<in>set subs. sx_Status sub = ExecutionStatusRunning"
    and "cs' = cs @ [(child, status, result)]" "\<And>xs. mset (arrange xs) = mset xs" "distinct (map sx_BatchIndex subs)"
    and "\<forall>c\<in>set cs'. IsTerminalExecutionStatus (fst (snd c)) \<and> fst c \<in> set (map sx_ChildExecID subs) \<and> fst c \<noteq> ''''"
  shows "fst (CompleteExpandedSubExecution arrange (Some l) child status result (expandRun arrange l cs s)) =
    Inr (if set (map sx_ChildExecID subs) \<subseteq> set (map fst cs')
         then (True, True, filter (\<lambda>r. r \<noteq> None)
                 (map (\<lambda>sub. snd (the (map_of cs' (sx_ChildExecID sub)))) (sort_key sx_BatchIndex subs)))
         else (False, True, []))"
proof -
  have b: "batchWaits l (map (completeWith cs) subs) (expandRun arrange l cs s)"
    using expandRun_batch [OF _ assms(3,4), of l s cs arrange] assms by (simp add: batchWaits_def)
  have t: "\<forall>c\<in>set cs. IsTerminalExecutionStatus (fst (snd c))" "child \<in> set (map sx_ChildExecID subs)" "child \<noteq> ''''"
    using assms(5,8) by auto
  have m: "sx_Result (completeWith cs' sub) = snd (the (map_of cs' (sx_ChildExecID sub)))"
    "IsTerminalExecutionStatus (sx_Status (completeWith cs' sub))" if "sx_ChildExecID sub \<in> fst ` set cs'" for sub
  proof -
    from that obtain v where v: "map_of cs' (sx_ChildExecID sub) = Some v" by (metis domD dom_map_of_conv_image_fst)
    then have "IsTerminalExecutionStatus (fst v)" using assms(8) by (force dest: map_of_SomeD)
    then show "sx_Result (completeWith cs' sub) = snd (the (map_of cs' (sx_ChildExecID sub)))"
      "IsTerminalExecutionStatus (sx_Status (completeWith cs' sub))"
      using v by (cases v, simp add: completeWith_def)+
  qed
  have n: "\<not> IsTerminalExecutionStatus (sx_Status (completeWith cs' sub))" if "sx_ChildExecID sub \<notin> fst ` set cs'" "sub \<in> set subs" for sub
    using that assms(4) map_of_eq_None_iff [of cs' "sx_ChildExecID sub"] by (auto simp: completeWith_def)
  have all: "list_all (\<lambda>sub. IsTerminalExecutionStatus (sx_Status sub)) (map (completeWith cs') subs)
      \<longleftrightarrow> set (map sx_ChildExecID subs) \<subseteq> set (map fst cs')"
    using m(2) n by (simp add: list_all_iff image_subset_iff) blast
  have "distinct (map sx_BatchIndex (map (completeWith cs') subs))" using assms(7) by (simp add: o_def completeWith_sel(2))
  then have arranged: "sort_key sx_BatchIndex (arrange (map (completeWith cs') subs)) = sort_key sx_BatchIndex (map (completeWith cs') subs)"
    by (rule sort_key_perm [OF assms(6)])
  have "expansionResults arrange (map (completeWith cs') subs) = filter (\<lambda>r. r \<noteq> None)
      (map (\<lambda>sub. snd (the (map_of cs' (sx_ChildExecID sub)))) (sort_key sx_BatchIndex subs))"
    if "set (map sx_ChildExecID subs) \<subseteq> set (map fst cs')"
    unfolding expansionResults_def arranged sort_key_map [where g = "completeWith cs'" and f = sx_BatchIndex, OF completeWith_sel(2)] map_map
    by (rule arg_cong [where f = "filter (\<lambda>r. r \<noteq> None)"], rule map_cong) (use that m(1) in auto)
  then show ?thesis
    using completeExpanded_step(2) [where arrange = arrange, OF b assms(3,4) t refl, of status result] all by (simp add: assms(5) [symmetric])
qed

section \<open>Parking a node on its children\<close>

lemma addChild_intents:
  "hasKey (outboxOf (addChild now l ce s) e) i \<longleftrightarrow>
     hasKey (outboxOf s e) i \<or> e = t_ExecutionID (tl_Task l) \<and> i = oe_ID (snd ce) \<and> i \<noteq> ''''"
proof -
  have "outboxOf (s\<lparr>subExecs := m\<rparr>) = outboxOf s" for m by (simp add: fun_eq_iff outboxOf_def)
  then show ?thesis
    by (auto simp: addChild_def Let_def putOutboxLocked_def putOutboxEntryLocked_lookup hasKey_def mkOutboxEntry_def)
qed

lemma fold_addChild_intents:
  "hasKey (outboxOf s e) i \<Longrightarrow> hasKey (outboxOf (fold (addChild now l) ces s) e) i"
  "ce \<in> set ces \<Longrightarrow> oe_ID (snd ce) \<noteq> '''' \<Longrightarrow> hasKey (outboxOf (fold (addChild now l) ces s) (t_ExecutionID (tl_Task l))) (oe_ID (snd ce))"
proof -
  show k: "hasKey (outboxOf s e) i \<Longrightarrow> hasKey (outboxOf (fold (addChild now l) ces s) e) i" for ces s e i
    by (induction ces arbitrary: s) (simp_all add: addChild_intents)
  show "ce \<in> set ces \<Longrightarrow> oe_ID (snd ce) \<noteq> '''' \<Longrightarrow> hasKey (outboxOf (fold (addChild now l) ces s) (t_ExecutionID (tl_Task l))) (oe_ID (snd ce))"
    by (induction ces arbitrary: s) (auto intro: k simp: addChild_intents)
qed

lemma fold_addChild_subs:
  "mapGet [] (subExecs (fold (addChild now l) ces s)) (expansionSubExecutionKey l) =
     mapGet [] (subExecs s) (expansionSubExecutionKey l) @ map fst ces"
  by (induction ces arbitrary: s) (simp_all add: addChild_def Let_def putOutboxLocked_def putOutboxEntryLocked_def)

text \<open>An accepted expansion parks the node with its lease identity, records its children
  in order and writes one intent for each; a second one with the same lease is
  refused and changes nothing.\<close>

theorem expansion_begins_once:
  assumes "BeginTaskExpansionWithOutbox now (Some l) children entries s = (Inr True, s')"
  shows "matchesExpansionLease (fmlookup (nodes s') (leaseKey l)) l NodeStatusWaiting
    \<and> mapGet [] (subExecs s') (expansionSubExecutionKey l) = mapGet [] (subExecs s) (expansionSubExecutionKey l) @ children
    \<and> (\<forall>en\<in>set entries. hasKey (outboxOf s' (t_ExecutionID (tl_Task l))) (oe_ID en))
    \<and> BeginTaskExpansionWithOutbox now' (Some l) children' entries' s' =
        (if length children' \<noteq> length entries' then Inl ErrInvalidLeaseToken else Inr False, s')"
proof -
  have m: "matchesExpansionLease (fmlookup (nodes s) (leaseKey l)) l NodeStatusCommitting" "length children = length entries"
    "\<not> list_ex (badChild l) (zip children entries)"
    and s': "s' = fold (addChild now l) (zip children entries) (parkNode (leaseKey l) (fmlookup (nodes s) (leaseKey l)) s)"
    using assms by (auto simp: BeginTaskExpansionWithOutbox_def Let_def split: if_splits)
  from m(1) obtain n where n: "fmlookup (nodes s) (leaseKey l) = Some n" by (auto dest: matchesExpansion_some)
  have nd: "fmlookup (nodes s') (leaseKey l) = Some (n\<lparr>ns_Status := NodeStatusWaiting\<rparr>)" by (simp add: s' parkNode_def n)
  have w: "matchesExpansionLease (fmlookup (nodes s') (leaseKey l)) l NodeStatusWaiting"
    using m(1) unfolding nd n by (simp add: matchesExpansionLease_def)
  have c: "\<not> matchesExpansionLease (fmlookup (nodes s') (leaseKey l)) l NodeStatusCommitting"
    unfolding nd by (simp add: matchesExpansionLease_def)
  have "hasKey (outboxOf s' (t_ExecutionID (tl_Task l))) (oe_ID en)" if en: "en \<in> set entries" for en
  proof -
    obtain ch where z: "(ch, en) \<in> set (zip children entries)" by (rule in_set_impl_in_set_zip2 [OF m(2) en])
    then have "oe_ID en \<noteq> ''''" using m(3) by (force simp: list_ex_iff badChild_def)
    then show ?thesis using fold_addChild_intents(2) [OF z, of now l] by (simp add: s')
  qed
  moreover have "mapGet [] (subExecs s') (expansionSubExecutionKey l) = mapGet [] (subExecs s) (expansionSubExecutionKey l) @ children"
    using m(2) by (simp add: s' fold_addChild_subs parkNode_def)
  moreover have "BeginTaskExpansionWithOutbox now' (Some l) children' entries' s' =
        (if length children' \<noteq> length entries' then Inl ErrInvalidLeaseToken else Inr False, s')"
    using c by (simp add: BeginTaskExpansionWithOutbox_def Let_def)
  ultimately show ?thesis using w by blast
qed

text \<open>A conclusion is read back for exactly the child it was recorded for.\<close>

lemma conclusion_roundtrip:
  assumes "RecordSubWorkflowConclusion parent name con s = (None, s')"
  shows "GetSubWorkflowConclusion s' parent name child =
    (if child = sc_ChildExecutionID con then Some con else GetSubWorkflowConclusion s parent name child)"
  using assms by (auto simp: RecordSubWorkflowConclusion_def GetSubWorkflowConclusion_def subWorkflowConclusionKey_def split: if_splits)

lemma subworkflow_wait_once:
  assumes "BeginSubWorkflowWait now (Some l) link entries s = (Inr True, s')"
  shows "GetSubWorkflowLink s' (t_ExecutionID (tl_Task l)) (t_NodeName (tl_Task l)) = Some link"
    "\<forall>en\<in>set entries. hasKey (outboxOf s' (t_ExecutionID (tl_Task l))) (oe_ID en)"
    "fst (BeginSubWorkflowWait now' (Some l) link entries s') = Inr False"
    "snd (BeginSubWorkflowWait now' (Some l) link entries s') = s'"
proof -
  have m: "matchesSubWorkflowLease (fmlookup (nodes s) (leaseKey l)) l" "\<not> list_ex (\<lambda>e. oe_ID e = '''') entries"
    "\<not> (sl_ChildExecutionID link = '''' \<or> sl_ParentNode link \<noteq> t_NodeName (tl_Task l))"
    and s': "s' = putAll now (t_ExecutionID (tl_Task l)) entries
        (s\<lparr>nodes := fmupd (leaseKey l) ((the (fmlookup (nodes s) (leaseKey l)))\<lparr>ns_Status := NodeStatusWaiting,
                ns_ChildExecutionID := sl_ChildExecutionID link\<rparr>) (nodes s),
           subWorkflowLinks := fmupd (leaseKey l) link (subWorkflowLinks s)\<rparr>)"
    using assms by (auto simp: BeginSubWorkflowWait_def Let_def split: if_splits)
  have "subWorkflowLinks (putAll now eid es s) = subWorkflowLinks s" for eid es s
    unfolding putAll_def by (rule fold_same) (simp add: putOutboxLocked_def putOutboxEntryLocked_def)
  then show "GetSubWorkflowLink s' (t_ExecutionID (tl_Task l)) (t_NodeName (tl_Task l)) = Some link"
    by (simp add: s' GetSubWorkflowLink_def leaseKey_def)
  show "\<forall>en\<in>set entries. hasKey (outboxOf s' (t_ExecutionID (tl_Task l))) (oe_ID en)"
    using m(2) by (auto simp: s' list_ex_iff intro!: putAll_written)
  have "\<not> matchesSubWorkflowLease (fmlookup (nodes s') (leaseKey l)) l" by (simp add: s' matchesSubWorkflowLease_def)
  then show "fst (BeginSubWorkflowWait now' (Some l) link entries s') = Inr False" "snd (BeginSubWorkflowWait now' (Some l) link entries s') = s'"
    using m(2,3) by (auto simp: BeginSubWorkflowWait_def Let_def)
qed

section \<open>Examples\<close>

definition sampleChild :: "string \<Rightarrow> int \<Rightarrow> SubExecution" where
  "sampleChild child i = \<lparr>sx_ParentExecID = ''ex'', sx_ParentNode = ''a'', sx_ChildExecID = child, sx_BatchIndex = i,
     sx_Status = ExecutionStatusRunning, sx_Result = None\<rparr>"

definition sampleExpanded :: memoryState where
  "sampleExpanded = snd (BeginTaskExpansionWithOutbox 120 (Some (sampleLease ''t1'' 100)) [sampleChild ''c1'' 1, sampleChild ''c0'' 0]
     [mkOutboxEntry ''i1'' emptyTask zeroTime, mkOutboxEntry ''i0'' emptyTask zeroTime] sampleClaimed)"

definition sampleResult :: "string \<Rightarrow> data" where
  "sampleResult k = Some (fmap_of_list [(k, AStr k)])"

theorem expansion_results_witness:
  "fst (CompleteExpandedSubExecution rev (Some (sampleLease ''t1'' 100)) ''c0'' ExecutionStatusSuccess (sampleResult ''r0'')
      (expandRun rev (sampleLease ''t1'' 100) [(''c1'', ExecutionStatusSuccess, sampleResult ''r1''), (''c1'', ExecutionStatusFailed, None)] sampleExpanded))
    = Inr (True, True, [sampleResult ''r0'', sampleResult ''r1''])"
proof -
  let ?l = "sampleLease ''t1'' 100"
  have m: "matchesExpansionLease (fmlookup (nodes sampleExpanded) (leaseKey ?l)) ?l NodeStatusWaiting" by code_simp
  have e: "mapGet [] (subExecs sampleExpanded) (expansionSubExecutionKey ?l) = [sampleChild ''c1'' 1, sampleChild ''c0'' 0]" by code_simp
  show ?thesis
    using expansion_results [OF m e [symmetric], of _ "[(''c1'', ExecutionStatusSuccess, sampleResult ''r1''), (''c1'', ExecutionStatusFailed, None)]"
        "''c0''" ExecutionStatusSuccess "sampleResult ''r0''" rev]
    by (simp add: sampleChild_def sampleResult_def)
qed

end
