(* ===== verification/StoreSteps.thy ===== *)
theory StoreSteps
  imports Expansion
begin

text \<open>
  What the critical sections of the local store keep.  Three facts hold of each of
  them: the consistency of the execution tables (no run-time panic, slots within the
  limits and held by live executions only, done channels closed exactly at the end),
  the privacy of private outputs, and that no execution is forgotten or changes its
  status once it has ended.  The rollback of a failed create keeps the first two, and
  the third for every other execution.
\<close>

section \<open>The remaining entry points\<close>

definition PublishExecutionEvent :: "ExecutionEvent \<Rightarrow> memoryState \<Rightarrow> memoryState" where
  "PublishExecutionEvent event s = publishLocked event s"

definition SeedExecutionFromEntry :: "Time \<Rightarrow> bool \<Rightarrow> string \<Rightarrow> InsertOutcome \<Rightarrow> SeedExecutionFromEntryRequest \<Rightarrow> memoryState \<Rightarrow>
    (StoreError + SeedExecutionFromEntryResponse) \<times> memoryState" where
  "SeedExecutionFromEntry now hint nsCtx ins req s = seedExecutionFromEntry now hint nsCtx ins req None s"

definition SeedExecutionFromEntryWithConcurrency :: "Time \<Rightarrow> bool \<Rightarrow> string \<Rightarrow> InsertOutcome \<Rightarrow> SeedExecutionFromEntryRequest \<Rightarrow>
    ConcurrencyAdmission \<Rightarrow> memoryState \<Rightarrow> (StoreError + SeedExecutionFromEntryResponse) \<times> memoryState" where
  "SeedExecutionFromEntryWithConcurrency now hint nsCtx ins req admission s =
     seedExecutionFromEntry now hint nsCtx ins req (Some admission) s"

section \<open>What every operation keeps\<close>

definition opKeeps :: "Limits \<Rightarrow> memoryState \<Rightarrow> memoryState \<Rightarrow> bool" where
  "opKeeps lim s s' \<longleftrightarrow> (storeInv lim s \<longrightarrow> storeInv lim s') \<and> (privacyOK s \<longrightarrow> privacyOK s') \<and> terminalKept s s'"

lemma opKeeps_refl [simp]: "opKeeps lim s s"
  by (simp add: opKeeps_def)

lemma opKeeps_trans: "opKeeps lim s s1 \<Longrightarrow> opKeeps lim s1 s2 \<Longrightarrow> opKeeps lim s s2"
  unfolding opKeeps_def by (meson terminalKept_trans)

lemma opKeeps_kept: "core s' = core s \<Longrightarrow> nodesKept s s' \<Longrightarrow> opKeeps lim s s'"
  unfolding opKeeps_def nodesKept_def using storeInv_core [of s' s lim] terminalKept_core [of s' s] by blast

lemma opKeeps_evolves: "core s' = core s \<Longrightarrow> nodesEvolve s s' \<Longrightarrow> opKeeps lim s s'"
  by (rule opKeeps_kept [OF _ nodesKept_evolves])

lemma opKeeps_same: "sameNodes s s' \<Longrightarrow> opKeeps lim s s'"
  by (rule opKeeps_evolves [OF _ sameNodes_evolves]) (simp add: sameNodes_def)

lemma opKeeps_frame: "core s' = core s \<Longrightarrow> nodes s' = nodes s \<Longrightarrow> privateOutputs s' = privateOutputs s \<Longrightarrow> opKeeps lim s s'"
  by (rule opKeeps_evolves [OF _ nodesEvolve_same])

section \<open>Status writes\<close>

lemma privacy_frame: "nodes s' = nodes s \<Longrightarrow> privateOutputs s' = privateOutputs s \<Longrightarrow> privacyOK s \<longrightarrow> privacyOK s'"
  using nodesEvolve_same [of s' s] by (simp add: nodesEvolve_def)

lemma finish_keeps:
  assumes "\<And>k. 0 < fst (lim k)" "isTerminalStatus st"
  shows "opKeeps lim s (finishExecutionLocked now eid st e s)"
  using finishExecutionLocked_inv [OF _ assms] privacy_frame terminalKept_finish [OF assms(2)] by (simp add: opKeeps_def)

lemma status_sel [simp]:
  "nodes (snd (updateExecutionStatusLocked now eid st e s)) = nodes s"
  "privateOutputs (snd (updateExecutionStatusLocked now eid st e s)) = privateOutputs s"
  by (simp_all add: updateExecutionStatusLocked_def Let_def eraseEvents_D [OF publishLocked_frame] withdrawDeadlineLocked_def setExecSnap_def
      split: option.split)

lemma status_keeps:
  assumes "\<And>k. 0 < fst (lim k)"
  shows "opKeeps lim s (snd (updateExecutionStatusLocked now eid st e s))"
  using updateExecutionStatusLocked_inv [OF _ assms] privacy_frame terminalKept_status by (simp add: opKeeps_def)

lemma mirror_keeps: "opKeeps lim s (mirrorExecutionStatus eid s)"
  by (rule opKeeps_frame) (simp_all add: mirrorExecutionStatus_def beginMirrorMode_def pruneTransientSkipAfterTerminal_def
      pruneMirrorStateLocked_def split: prod.split bool.split)

lemma UpdateExecutionStatus_keeps: "(\<And>k. 0 < fst (lim k)) \<Longrightarrow> opKeeps lim s (UpdateExecutionStatus now eid st e s)"
  using opKeeps_trans [OF status_keeps mirror_keeps] status_keeps
  by (simp add: UpdateExecutionStatus_def case_prod_beta)

lemma opKeeps_fold: "(\<And>x s. opKeeps lim s (f x s)) \<Longrightarrow> opKeeps lim s (fold f xs s)"
  by (induction xs arbitrary: s) (simp, simp, metis opKeeps_trans)

lemma ExpireQueuedExecutions_keeps:
  assumes "\<And>k. 0 < fst (lim k)"
  shows "opKeeps lim s (fst (ExpireQueuedExecutions now limit order s))"
proof -
  have "opKeeps lim s (fst (fold (expireOne now) xs (s, ps)))" for xs ps
  proof (induction xs arbitrary: s ps)
    case (Cons x xs)
    have "opKeeps lim s (fst (expireOne now x (s, ps)))"
      using status_keeps [OF assms] by (simp add: expireOne_def case_prod_beta)
    then show ?case using Cons [of "fst (expireOne now x (s, ps))" "snd (expireOne now x (s, ps))"] opKeeps_trans by simp
  qed simp
  moreover have "opKeeps lim s' (fold mirrorExecutionStatus xs s')" for s' xs by (rule opKeeps_fold) (rule mirror_keeps)
  ultimately show ?thesis
    unfolding ExpireQueuedExecutions_def Let_def case_prod_beta fst_conv using opKeeps_trans by blast
qed

lemma setSnap_keeps:
  assumes "fmlookup (executions s) eid = Some e" "\<not> isTerminalStatus (es_Status (snap e))" "\<not> isTerminalStatus (es_Status sn)"
  shows "opKeeps lim s (setExecSnap eid e sn s)"
proof -
  have "terminalKept s (setExecSnap eid e sn s)"
    using assms(1,2) by (auto simp: terminalKept_def) (simp add: statusOf_def)
  moreover have "privacyOK s \<longrightarrow> privacyOK (setExecSnap eid e sn s)" by (rule privacy_frame) (simp_all add: setExecSnap_def)
  ultimately show ?thesis using setExecSnap_inv [OF _ assms] by (simp add: opKeeps_def)
qed

lemma Pause_keeps: "opKeeps lim s (fst (PauseExecution now eid s))" "opKeeps lim s (fst (ResumeExecution now eid s))"
proof -
  have k: "opKeeps lim s (mirrorExecutionStatus eid (setExecSnap eid e sn s))"
    if "fmlookup (executions s) eid = Some e" "\<not> isTerminalStatus (es_Status (snap e))" "\<not> isTerminalStatus (es_Status sn)" for e sn
    using opKeeps_trans [OF setSnap_keeps [OF that] mirror_keeps] .
  show "opKeeps lim s (fst (PauseExecution now eid s))"
    by (auto simp: PauseExecution_def mirror_keeps isTerminalStatus_def intro!: k split: option.split ExecutionStatus.split)
  show "opKeeps lim s (fst (ResumeExecution now eid s))"
    by (auto simp: ResumeExecution_def isTerminalStatus_def intro!: k split: option.split)
qed

section \<open>Creation\<close>

lemma privacy_drop:
  assumes "\<And>k. fmlookup (nodes s') k = None \<or> fmlookup (nodes s') k = fmlookup (nodes s) k"
    and "\<And>k. mapGet False (privateOutputs s') k \<Longrightarrow> mapGet False (privateOutputs s) k"
  shows "privacyOK s \<longrightarrow> privacyOK s'"
  unfolding privacyOK_def outputIsPrivateLocked_def
  using assms by (metis option.distinct(1) option.simps(5))

lemma rollback_privacy: "privacyOK s \<longrightarrow> privacyOK (rollbackCreatedExecution now eid s)"
proof (rule privacy_drop)
  define s1 where "s1 = releaseWorkflowSlotLocked now eid s"
  define s3 where "s3 = (let s2 = dropDone eid (fmlookup (executions s1) eid) (s1\<lparr>executions := fmdrop eid (executions s1)\<rparr>)
     in fold closeChan (mapGet [] (eventWatchers s2) eid) s2)"
  have c: "nodes (fold closeChan cs t) = nodes t" "privateOutputs (fold closeChan cs t) = privateOutputs t" for cs t
    by (rule fold_same, simp add: closeChan_def split: option.split)+
  have "nodes s3 = nodes s" "privateOutputs s3 = privateOutputs s"
    by (simp_all add: s3_def Let_def c dropDone_def closeDone_def s1_def split: option.split bool.split)
  moreover have "nodes (rollbackCreatedExecution now eid s) = dropPrefix (nodes s3) (eid @ ''/'')"
    "privateOutputs (rollbackCreatedExecution now eid s) = dropPrefix (privateOutputs s3) (eid @ ''/'')"
    by (simp_all add: rollbackCreatedExecution_def Let_def s3_def s1_def)
  ultimately show "fmlookup (nodes (rollbackCreatedExecution now eid s)) k = None
      \<or> fmlookup (nodes (rollbackCreatedExecution now eid s)) k = fmlookup (nodes s) k"
    "mapGet False (privateOutputs (rollbackCreatedExecution now eid s)) k \<Longrightarrow> mapGet False (privateOutputs s) k" for k
    by (auto simp: dropPrefix_def mapGet_def split: option.splits if_splits)
qed

lemma rollback_status: "x \<noteq> eid \<Longrightarrow> statusOf (rollbackCreatedExecution now eid s) x = statusOf (releaseWorkflowSlotLocked now eid s) x"
proof -
  assume "x \<noteq> eid"
  have "executions (fold closeChan cs t) = executions t" for cs t
    by (rule fold_same) (simp add: closeChan_def split: option.split)
  then show ?thesis
    using \<open>x \<noteq> eid\<close> by (simp add: rollbackCreatedExecution_def Let_def statusOf_def dropDone_def closeDone_def split: option.split bool.split)
qed

lemma rollback_others: "x \<noteq> eid \<Longrightarrow> maybeStarted s (rollbackCreatedExecution now eid s) x"
  using maybeStarted_release [of s now eid x] by (simp add: maybeStarted_def rollback_status)

lemma mirrorHold_sel:
  "nodes (releaseInitialMirrorHold eid s) = nodes s" "privateOutputs (releaseInitialMirrorHold eid s) = privateOutputs s"
  by (simp_all add: releaseInitialMirrorHold_def clearMirrorCreatePending_def dropHeldOutboxLocked_def updEntries_def Let_def
      split: option.split)

lemma releaseHold_keeps: "opKeeps lim s (releaseInitialMirrorHold eid s)"
  by (rule opKeeps_frame) (simp_all add: mirrorHold_sel)

lemma createExec_sel [simp]:
  "nodes (createExecutionLocked now e s) = nodes s" "privateOutputs (createExecutionLocked now e s) = privateOutputs s"
  by (simp_all add: createExecutionLocked_def Let_def split: option.split)

lemma createExec_terminal:
  "statusOf s (es_ID e) = None \<Longrightarrow> terminalKept s (createExecutionLocked now e s)"
  by (auto simp: terminalKept_def statusOf_def createExecutionLocked_def Let_def split: option.split)

lemma mirrorMark_sel [simp]:
  "nodes (snd (markMirrorCreatePendingLocked eid s)) = nodes s" "privateOutputs (snd (markMirrorCreatePendingLocked eid s)) = privateOutputs s"
  "nodes (noteMirrorModeLocked h e s) = nodes s" "privateOutputs (noteMirrorModeLocked h e s) = privateOutputs s"
  by (simp_all add: markMirrorCreatePendingLocked_def noteMirrorModeLocked_def)

lemma createLocked_keeps:
  assumes "statusOf s (es_ID e) = None"
  shows "nodes (createLocked now hint e s) = nodes s" "privateOutputs (createLocked now hint e s) = privateOutputs s"
    "terminalKept s (createLocked now hint e s)"
proof -
  define s1 where "s1 = snd (markMirrorCreatePendingLocked (es_ID e) (noteMirrorModeLocked hint e s))"
  have c: "core s1 = core s" by (simp add: s1_def)
  then have "terminalKept s1 (createExecutionLocked now e s1)"
    using createExec_terminal [of s1 e now] statusOf_core [OF c, of "es_ID e"] assms by simp
  from terminalKept_pre [OF c this] show "terminalKept s (createLocked now hint e s)" by (simp add: createLocked_def s1_def)
  show "nodes (createLocked now hint e s) = nodes s" "privateOutputs (createLocked now hint e s) = privateOutputs s"
    by (simp_all add: createLocked_def)
qed

lemma writeIntents_private: "privateOutputs (writeInitialIntentsLocked now eid es at s) = privateOutputs s"
  unfolding writeInitialIntentsLocked_def by (rule fold_same) (simp add: writeIntent_def Let_def putOutboxEntryLocked_def)

lemma writeIntents_keeps: "opKeeps lim s (writeInitialIntentsLocked now eid es at s)"
  by (rule opKeeps_frame) (simp_all add: writeIntents_sel writeIntents_private)

lemma create_keeps:
  assumes "fmlookup (executions s) (es_ID e) = None" "\<not> isTerminalStatus (es_Status e)"
  shows "opKeeps lim s (createLocked now hint e s)" "opKeeps lim s (snd (createWithOutboxLocked now hint e entries s))"
proof -
  have n: "statusOf s (es_ID e) = None" using assms(1) by (simp add: statusOf_def)
  have "storeInv lim s \<longrightarrow> storeInv lim (createLocked now hint e s)"
    unfolding createLocked_def by (intro impI createLocked_inv [OF _ assms]) simp_all
  then show c: "opKeeps lim s (createLocked now hint e s)"
    using createLocked_keeps [OF n, of now hint] privacy_frame [of "createLocked now hint e s" s] by (simp add: opKeeps_def)
  have "snd (createWithOutboxLocked now hint e entries s) = writeInitialIntentsLocked now (es_ID e) entries
      (if fst (markMirrorCreatePendingLocked (es_ID e) (noteMirrorModeLocked hint e s)) then queuedOutboxHold else zeroTime)
      (createLocked now hint e s)"
    by (simp add: createWithOutboxLocked_def createLocked_def case_prod_beta)
  then show "opKeeps lim s (snd (createWithOutboxLocked now hint e entries s))"
    using opKeeps_trans [OF c writeIntents_keeps] by simp
qed

lemma decideSlot_sel:
  assumes "decideSlot now eid admission s = (s0, r)"
  shows "executions s0 = executions s" "nodes s0 = nodes s" "privateOutputs s0 = privateOutputs s"
  using assms
  by (auto simp: decideSlot_def chargeOrParkLocked_def parkOrChargeLocked_def chargeSlotLocked_def putSlot_def slotForLocked_def Let_def
      split: option.splits if_splits prod.splits)

lemma admitted_keeps:
  assumes "\<And>k. 0 < fst (lim k)" and fresh: "fmlookup (executions s) (es_ID e) = None"
    and adm: "\<And>adm. admission = Some adm \<Longrightarrow> withinLimits lim adm"
    and d: "decideSlot now (es_ID e) admission s = (s0, r)"
  shows "case r of Inl err \<Rightarrow> opKeeps lim s s0 | Inr pending \<Rightarrow> opKeeps lim s (createLocked now hint (admitted pending e) s0)"
proof -
  note eq = decideSlot_sel [OF d]
  have t: "terminalKept s s0" and p: "privacyOK s \<longrightarrow> privacyOK s0"
    using eq by (simp_all add: terminalKept_def statusOf_def privacy_frame)
  have "statusOf s0 (es_ID (admitted pending e)) = None" for pending using fresh eq by (simp add: statusOf_def admitted_def)
  then have "terminalKept s (createLocked now hint (admitted pending e) s0)"
    "privacyOK s \<longrightarrow> privacyOK (createLocked now hint (admitted pending e) s0)" for pending
    using createLocked_keeps terminalKept_trans [OF t] p privacy_frame eq by blast+
  then show ?thesis
    using admitted_create_inv [OF _ assms(1) fresh adm d, of hint] t p by (cases r) (simp_all add: opKeeps_def)
qed

lemma createWithConcurrency_keeps:
  assumes "\<And>k. 0 < fst (lim k)" and fresh: "fmlookup (executions s) (es_ID e) = None" and "withinLimits lim adm"
  shows "opKeeps lim s (fst (createWithConcurrencyLocked now hint e entries adm s))"
proof -
  obtain s0 r where c: "chargeOrParkLocked now (es_ID e) adm s = (s0, r)" by fastforce
  then have d: "decideSlot now (es_ID e) (Some adm) s = (s0, r)" by (simp add: decideSlot_def)
  have k: "case r of Inl err \<Rightarrow> opKeeps lim s s0 | Inr pending \<Rightarrow> opKeeps lim s (createLocked now hint (admitted pending e) s0)"
    by (rule admitted_keeps [where lim = lim, OF assms(1) fresh _ d]) (simp add: assms(3))
  show ?thesis
  proof (cases r)
    case (Inr pending)
    then have "\<exists>at. fst (createWithConcurrencyLocked now hint e entries adm s) =
        writeInitialIntentsLocked now (es_ID e) entries at (createLocked now hint (admitted pending e) s0)"
      by (simp add: createWithConcurrencyLocked_def c createLocked_def admitted_def case_prod_beta Let_def) blast
    then show ?thesis using k Inr opKeeps_trans [OF _ writeIntents_keeps] by auto
  qed (use k c in \<open>simp add: createWithConcurrencyLocked_def\<close>)
qed

section \<open>Commits\<close>

lemma commitNodeLocked_keeps:
  assumes "\<And>k. 0 < fst (lim k)" "cn_CyclicComplete req \<longrightarrow> isTerminalStatus (cn_CyclicFinalStatus req)"
  shows "opKeeps lim s (snd (commitNodeLocked now req s))"
proof -
  have l: "\<forall>k. 0 < fst (lim k)" using assms(1) by blast
  have "terminalKept s (snd (commitNodeLocked now req s))"
  proof (cases "commitVerdict s req")
    case None
    have "terminalKept (writeCommitted now req s) (snd (commitNodeLocked now req s))"
      using commit_accepted_stage [OF None l assms(2), of now] by (simp add: commitStage_def)
    then show ?thesis by (rule terminalKept_pre [OF writeCommitted_rewrites(2)])
  qed (simp add: commitNodeLocked_def)
  then show ?thesis
    using commitNodeLocked_inv [OF _ l assms(2)] commitNodeLocked_evolves [OF assms(2)] by (simp add: opKeeps_def nodesEvolve_def)
qed

lemma mirrorNode_keeps: "opKeeps lim s (mirrorNode eid s)"
  by (rule opKeeps_frame) simp_all

lemma CommitNode_keeps:
  assumes "\<And>k. 0 < fst (lim k)" "cn_CyclicComplete req \<longrightarrow> isTerminalStatus (cn_CyclicFinalStatus req)"
  shows "opKeeps lim s (snd (CommitNode now req s))"
proof -
  note c = commitNodeLocked_keeps [where lim = lim and s = s and now = now, OF assms]
  note m = opKeeps_trans [OF c mirrorNode_keeps]
  show ?thesis
    using c m opKeeps_trans [OF c mirror_keeps] opKeeps_trans [OF m mirror_keeps]
    by (simp add: CommitNode_def case_prod_beta Let_def split: option.split)
qed

lemma eraseSched_keeps: "eraseSched s' = eraseSched s \<Longrightarrow> opKeeps lim s s'"
  by (rule opKeeps_frame) (rule eraseSched_D, assumption)+

lemma AdvanceNode_keeps: "opKeeps lim s (snd (AdvanceNode now req s))"
proof -
  have "opKeeps lim s (s\<lparr>advanced := m\<rparr>)" for m by (rule opKeeps_frame) (simp_all add: core_def)
  then have "opKeeps lim s (snd (applyArrivalsLocked now eid act auto as (s\<lparr>advanced := m\<rparr>)))" for eid act auto as m
    using opKeeps_trans eraseSched_keeps [OF applyArrivals_frame] by blast
  then show ?thesis by (auto simp: AdvanceNode_def Let_def case_prod_beta split: option.split)
qed

lemma countUnit_keeps:
  assumes "\<And>k. 0 < fst (lim k)"
  shows "opKeeps lim s (snd (countUnit now eid f fatal err s))"
proof -
  define s2 where "s2 = (let s1 = s\<lparr>remaining := fmupd eid (mapGet 0 (remaining s) eid - 1) (remaining s)\<rparr>
     in if f then s1\<lparr>failed := fmupd eid (mapGet 0 (failed s1) eid + 1) (failed s1)\<rparr> else s1)"
  have k: "opKeeps lim s s2" by (rule opKeeps_frame) (simp_all add: s2_def Let_def)
  then have "opKeeps lim s (finishExecutionLocked now eid st e s2)" if "isTerminalStatus st" for st e
    using opKeeps_trans finish_keeps [where lim = lim, OF assms that] by blast
  then show ?thesis using k
    unfolding countUnit_def Let_def s2_def [unfolded Let_def, symmetric] by (simp add: isTerminalStatus_def)
qed

lemma writeExits_keeps: "opKeeps lim s (fold (writeExit eid) exits s)"
  by (rule opKeeps_fold, rule opKeeps_kept) (rule writeExit_kept)+

lemma setGroups_keeps: "opKeeps lim s (s\<lparr>groupUnits := g\<rparr>)"
  by (rule opKeeps_frame) simp_all

lemma downstream_keeps: "opKeeps lim s (snd (applyGroupDownstreamLocked now eid as s))"
  by (rule eraseSched_keeps [OF groupDownstream_frame])

lemma CommitGroup_keeps:
  assumes "\<And>k. 0 < fst (lim k)"
  shows "opKeeps lim s (snd (CommitGroup now req s))"
proof -
  obtain r s' where c: "commitGroupLocked now req s = (r, s')" by fastforce
  then have "opKeeps lim s s'"
  proof (cases rule: commitGroupLocked_cases)
    case (applied st s1 s2 s3)
    have "opKeeps lim s s2"
      unfolding applied(7,8) by (rule opKeeps_trans [OF writeExits_keeps setGroups_keeps])
    then have "opKeeps lim s s3" unfolding applied(9) by (rule opKeeps_trans [OF _ countUnit_keeps [where lim = lim, OF assms]])
    then show ?thesis unfolding applied(10) by (rule opKeeps_trans [OF _ downstream_keeps])
  qed simp
  then show ?thesis using opKeeps_trans [OF _ mirror_keeps] by (simp add: CommitGroup_def c)
qed

section \<open>Seeding\<close>

lemma hold_keeps: "opKeeps lim s (holdOutboxLocked eid s)" "opKeeps lim s (holdWhilePending eid s)"
proof -
  show h: "opKeeps lim s (holdOutboxLocked eid s)" for s
    by (rule opKeeps_frame) (simp_all add: holdOutboxLocked_def updEntries_def split: option.split)
  then show "opKeeps lim s (holdWhilePending eid s)" by (simp add: holdWhilePending_def)
qed

lemma countEntry_keeps: "(\<And>k. 0 < fst (lim k)) \<Longrightarrow> opKeeps lim s (countEntry now eid req s)"
  by (simp add: countEntry_def countUnit_keeps)

lemma skipRoot_keeps: "opKeeps lim s (skipRoot now eid t s)"
  by (rule eraseSched_keeps) (simp add: skipRoot_def Let_def)

lemma rewritesNode_privacy: "rewritesNode key n' s s' \<Longrightarrow> privacyOK s \<longrightarrow> privacyOK s'"
  by (auto simp: privacyOK_def rewritesNode_def split: if_splits)

lemma markSeeded_keeps: "opKeeps lim s (markSeeded eid u s)"
proof -
  let ?key = "memoryNodeKey eid (sv_NodeName u)"
  define cp where "cp = (seedNode eid u (sv_PrivateOutput u))\<lparr>ns_Output := sv_Output u\<rparr>"
  have "setPrivacy p cp = seedNode eid u p" "ns_PrivateOutput cp = sv_PrivateOutput u" for p
    by (simp_all add: setPrivacy_def cp_def seedNode_def)
  then have "nodes (markSeeded eid u s) = nodes (storeNode ?key cp s)" "privateOutputs (markSeeded eid u s) = privateOutputs (storeNode ?key cp s)"
    by (simp_all add: markSeeded_def storeNode_def Let_def case_prod_beta)
  from privacy_frame [OF this] have "privacyOK s \<longrightarrow> privacyOK (markSeeded eid u s)"
    using rewritesNode_privacy [OF storeNode_rewrites, of s ?key cp] by blast
  then show ?thesis
    unfolding opKeeps_def using storeInv_core [OF markSeeded_core] terminalKept_core [OF markSeeded_core] by blast
qed

lemma seedArrivals_keeps: "opKeeps lim (snd r) (snd (fold (seedArrivals now eid) us r))"
proof (induction us arbitrary: r)
  case (Cons u us)
  have "opKeeps lim (snd r) (snd (seedArrivals now eid u r))"
    using downstream_keeps [of lim "snd r" now eid "sv_Downstream u"] by (simp add: seedArrivals_def case_prod_beta)
  then show ?case using Cons opKeeps_trans by fastforce
qed simp

lemma seedMarked_keeps:
  assumes "opKeeps lim s (createLocked now hint (admitted pending e) s0)"
  shows "opKeeps lim s (seedMarked now hint req e pending s0)"
proof -
  have "opKeeps lim s (fold (markSeeded (es_ID e)) (sq_Units req) (createLocked now hint (admitted pending e) s0))"
    by (rule opKeeps_trans [OF assms opKeeps_fold]) (rule markSeeded_keeps)
  moreover have "opKeeps lim t (t\<lparr>remaining := m\<rparr>)" for t m by (rule opKeeps_frame) simp_all
  ultimately show ?thesis unfolding seedMarked_def Let_def using opKeeps_trans by fastforce
qed

lemma seedExecution_keeps:
  assumes l: "\<And>k. 0 < fst (lim k)"
    and fresh: "\<And>e. sq_Execution req = Some e \<Longrightarrow> fmlookup (executions s) (es_ID e) = None"
    and adm: "\<And>adm. sq_Admission req = Some adm \<Longrightarrow> withinLimits lim adm"
  shows "opKeeps lim s (snd (seedExecution now hint req s))"
proof (cases "sq_Execution req")
  case (Some e)
  obtain s0 r where d: "decideSlot now (es_ID e) (sq_Admission req) s = (s0, r)" by fastforce
  note c = admitted_keeps [where lim = lim, OF l fresh [OF Some] adm d, of hint]
  show ?thesis
  proof (cases "list_ex badSeedUnit (sq_Units req)")
    case good: False
    show ?thesis
    proof (cases r)
      case (Inl err)
      then show ?thesis using c good Some d by (simp add: seedExecution_def decideSlot_def [symmetric])
    next
      case (Inr pending)
      define s3 where "s3 = writeInitialIntentsLocked now (es_ID e) (sq_Entries req) zeroTime
         (snd (fold (seedArrivals now (es_ID e)) (sq_Units req) ([], seedMarked now hint req e pending s0)))"
      define s4 where "s4 = (if acyclicGraph (es_Graph e) then completeSeed now (es_ID e) s3 else s3)"
      have "opKeeps lim s (seedMarked now hint req e pending s0)" using c Inr by (simp add: seedMarked_keeps)
      then have "opKeeps lim s s3"
        using seedArrivals_keeps [of lim "([], seedMarked now hint req e pending s0)" now "es_ID e" "sq_Units req"]
          writeIntents_keeps opKeeps_trans unfolding s3_def snd_conv by blast
      then have "opKeeps lim s s4"
        using opKeeps_trans [OF _ finish_keeps [where lim = lim, OF l]] by (simp add: s4_def completeSeed_def isTerminalStatus_def)
      then have "opKeeps lim s (holdWhilePending (es_ID e) (if b then holdOutboxLocked (es_ID e) s4 else s4))" for b
        using opKeeps_trans [OF _ hold_keeps(1)] opKeeps_trans [OF _ hold_keeps(2)] by simp
      then show ?thesis
        using good d Inr
        by (simp only: seedExecution_def decideSlot_def [symmetric] Some option.case prod.case sum.case Let_def if_False snd_conv
          admitted_def [symmetric] seedMarked_def [unfolded Let_def, symmetric] s3_def [symmetric] s4_def [symmetric])
    qed
  qed (simp add: seedExecution_def Some)
qed (simp add: seedExecution_def)

text \<open>An accepted entry goes on from the creation of its execution.\<close>

lemma seedEntry_created:
  assumes l: "\<And>k. 0 < fst (lim k)" and "fmlookup (admissions s) (sf_AdmissionKey req) = None"
    and "decideSlot now (DeterministicExecutionID (sf_AdmissionKey req)) admission s = (s0, Inr pending)"
  shows "opKeeps lim (createLocked now hint (entrySnapshot now nsCtx req pending) s0)
    (snd (seedExecutionFromEntryLocked now hint nsCtx req admission s))"
proof -
  let ?id = "DeterministicExecutionID (sf_AdmissionKey req)"
  define c where "c = createLocked now hint (entrySnapshot now nsCtx req pending) s0"
  have k: "opKeeps lim c (snd (applyGroupDownstreamLocked now ?id as (countEntry now ?id req (fold (writeExit ?id) xs (c\<lparr>groupUnits := g\<rparr>)))))"
    "opKeeps lim c (countEntry now ?id req (fold (writeExit ?id) xs (c\<lparr>groupUnits := g\<rparr>)))" for g xs as
    using setGroups_keeps opKeeps_trans [OF _ writeExits_keeps] opKeeps_trans [OF _ countEntry_keeps [where lim = lim, OF l]]
      opKeeps_trans [OF _ downstream_keeps] by blast+
  have a: "opKeeps lim c s'" if "opKeeps lim c t" "s' = (holdWhilePending ?id (if b then holdOutboxLocked ?id u else u))
      \<lparr>admissions := m\<rparr>" "u = (if b' then fold (skipRoot now ?id) ts t else t)" for s' t b b' ts m u
  proof -
    have "opKeeps lim t u" using opKeeps_fold [of lim "skipRoot now ?id"] skipRoot_keeps by (simp add: that(3))
    moreover have "opKeeps lim u (if b then holdOutboxLocked ?id u else u)" by (simp add: hold_keeps)
    moreover have "opKeeps lim w (w\<lparr>admissions := m\<rparr>)" for w by (rule opKeeps_frame) simp_all
    ultimately show ?thesis unfolding that(2) using that(1) hold_keeps(2) opKeeps_trans by metis
  qed
  show ?thesis
    unfolding c_def [symmetric] seedExecutionFromEntryLocked_def decideSlot_def [symmetric] Let_def assms(2,3)
    by (simp only: option.case prod.case sum.case snd_conv c_def [symmetric]) (rule a [OF _ refl refl], simp add: k)
qed

lemma seedExecutionFromEntry_keeps:
  assumes l: "\<And>k. 0 < fst (lim k)"
    and fresh: "fmlookup (admissions s) (sf_AdmissionKey req) = None \<Longrightarrow>
      fmlookup (executions s) (DeterministicExecutionID (sf_AdmissionKey req)) = None"
    and adm: "\<And>adm. admission = Some adm \<Longrightarrow> withinLimits lim adm"
  shows "opKeeps lim s (snd (seedExecutionFromEntryLocked now hint nsCtx req admission s))"
proof -
  let ?id = "DeterministicExecutionID (sf_AdmissionKey req)"
  define e where "e = entrySnapshot now nsCtx req False"
  have id: "es_ID e = ?id" and e': "entrySnapshot now nsCtx req pending = admitted pending e" for pending
    by (simp_all add: e_def entrySnapshot_def admitted_def)
  obtain s0 r where d: "decideSlot now ?id admission s = (s0, r)" by fastforce
  show ?thesis
  proof (cases "fmlookup (admissions s) (sf_AdmissionKey req)")
    case None
    note c = admitted_keeps [where lim = lim and e = e, unfolded id, OF l fresh [OF None] adm d, of hint]
    show ?thesis
    proof (cases r)
      case (Inr pending)
      then show ?thesis
        using c opKeeps_trans [OF _ seedEntry_created [where lim = lim, OF l None d [unfolded Inr], of hint nsCtx]] by (simp add: e')
    qed (use None d c in \<open>simp add: seedExecutionFromEntryLocked_def decideSlot_def [symmetric] Let_def\<close>)
  qed (simp add: seedExecutionFromEntryLocked_def Let_def)
qed

lemma seedEntry_exists:
  assumes "seedExecutionFromEntryLocked now hint nsCtx req admission s = ((r, True), s1)"
  shows "statusOf s1 (DeterministicExecutionID (sf_AdmissionKey req)) \<noteq> None"
proof -
  let ?id = "DeterministicExecutionID (sf_AdmissionKey req)"
  obtain s0 r0 where d: "decideSlot now ?id admission s = (s0, r0)" by fastforce
  have n: "fmlookup (admissions s) (sf_AdmissionKey req) = None"
    using assms by (auto simp: seedExecutionFromEntryLocked_def Let_def split: option.splits)
  obtain pending where r0: "r0 = Inr pending"
    using assms n d by (cases r0) (simp_all add: seedExecutionFromEntryLocked_def decideSlot_def [symmetric] Let_def)
  have id: "es_ID (entrySnapshot now nsCtx req pending) = ?id" by (simp add: entrySnapshot_def)
  have "opKeeps (\<lambda>_. (1, 1)) (createLocked now hint (entrySnapshot now nsCtx req pending) s0) s1"
    using seedEntry_created [OF _ n d [unfolded r0], of "\<lambda>_. (1, 1)" hint nsCtx] assms by simp
  moreover have "statusOf (createLocked now hint (entrySnapshot now nsCtx req pending) s0) ?id \<noteq> None"
    by (simp add: createLocked_def createExecutionLocked_def Let_def statusOf_def id split: option.split)
  ultimately show ?thesis by (simp add: opKeeps_def terminalKept_def)
qed

section \<open>The outbox, the listings and the watchers\<close>

lemma setOutbox_keeps:
  "opKeeps lim s (s\<lparr>outbox := ob\<rparr>)" "opKeeps lim s (s\<lparr>outbox := ob, deadOutbox := dl, replayEntryIdx := ix\<rparr>)"
  "opKeeps lim s (s\<lparr>replayReceipts := rc\<rparr>)" "opKeeps lim s (s\<lparr>outbox := ob, deadOutbox := dl, replayReceipts := rc, replayEntryIdx := ix\<rparr>)"
  "opKeeps lim s (s\<lparr>cancelingSince := cs\<rparr>)" "opKeeps lim s (s\<lparr>deadlines := ds\<rparr>)" "opKeeps lim s (s\<lparr>idempotency := im\<rparr>)"
  by (rule opKeeps_frame; simp add: core_def)+

lemma leases_keep: "opKeeps lim s (fst (LeaseOutbox s eid now limit))" "opKeeps lim s (fst (RenewOutbox s eid renew now))"
proof -
  have f: "opKeeps lim (fst r) (fst (fold f xs r))" if "\<And>x r. opKeeps lim (fst r) (fst (f x r))"
    for f :: "'a \<Rightarrow> memoryState \<times> OutboxEntry list \<Rightarrow> memoryState \<times> OutboxEntry list" and xs r
  proof (induction xs arbitrary: r)
    case (Cons x xs)
    show ?case using opKeeps_trans [OF that Cons] by simp
  qed simp
  have "opKeeps lim (fst r) (fst (leaseOne now eid i r))" for i r
    by (simp add: leaseOne_def case_prod_beta Let_def setOutbox_keeps split: option.split)
  from f [of "leaseOne now eid", OF this, of "(s, [])"] show "opKeeps lim s (fst (LeaseOutbox s eid now limit))"
    by (simp add: LeaseOutbox_def)
  have "opKeeps lim (fst r) (fst (renewOne now eid i r))" for i r
    by (simp add: renewOne_def case_prod_beta Let_def setOutbox_keeps split: option.split)
  from f [of "renewOne now eid", OF this, of "(s, [])"] show "opKeeps lim s (fst (RenewOutbox s eid renew now))"
    by (simp add: RenewOutbox_def)
qed

lemma outbox_keep:
  "opKeeps lim s (AckOutbox eid i s)" "opKeeps lim s (ReleaseOutbox eid entry s)"
  "opKeeps lim s (fst (RecordOutboxFailure eid entry m s))"
  by (simp_all add: AckOutbox_def ReleaseOutbox_def RecordOutboxFailure_def Let_def setOutbox_keeps split: option.split)

lemma ReplayDeadLetter_keeps: "opKeeps lim s (fst (ReplayDeadLetter now req s))"
  by (simp add: ReplayDeadLetter_def Let_def writeReplayReceiptLocked_def moveDeadToReady_def setOutbox_keeps split: option.split)

lemma listings_keep:
  "opKeeps lim s (fst (ListCancelingExecutions t n s))" "opKeeps lim s (fst (ListDeadlineExceededExecutions t n s))"
  "opKeeps lim s (AckDeadlineExpired eid s)"
  by (simp_all add: ListCancelingExecutions_def ListDeadlineExceededExecutions_def AckDeadlineExpired_def Let_def setOutbox_keeps)

lemma idempotency_keep:
  "opKeeps lim s (snd (ClaimIdempotency now req s))" "opKeeps lim s (ConfirmIdempotency eid tok s)"
  "opKeeps lim s (ReleaseIdempotency eid tok s)"
proof -
  have "opKeeps lim s (dropExpiredClaim now eid s)" for eid by (simp add: dropExpiredClaim_def setOutbox_keeps split: option.split)
  then have "opKeeps lim s (dropExpiredClaim now eid s)" "opKeeps lim s (putIdempotencyClaimLocked req now (dropExpiredClaim now eid s))" for eid
    using opKeeps_trans [OF _ setOutbox_keeps(7)] by (simp_all add: putIdempotencyClaimLocked_def)
  then show "opKeeps lim s (snd (ClaimIdempotency now req s))"
    by (simp add: ClaimIdempotency_def Let_def split: option.split)
qed (simp_all add: ConfirmIdempotency_def ReleaseIdempotency_def setOutbox_keeps split: option.split)

lemma watch_inv:
  assumes "storeInv lim s"
  shows "storeInv lim (snd (WatchExecution x s))" "storeInv lim (removeWatcherLocked x c s)" "storeInv lim (waitDone x s)"
proof -
  have "chanOK s" using assms by (simp add: storeInv_def)
  then have ch: "chanOK (snd (WatchExecution x s))" "chanOK (removeWatcherLocked x c s)" "chanOK (waitDone x s)"
    using WatchExecution_chanOK [of s x "fst (WatchExecution x s)" "snd (WatchExecution x s)"] removeWatcherLocked_chanOK chanOK_cong [of s]
    by (simp_all add: waitDone_def)
  show "storeInv lim (snd (WatchExecution x s))"
    using assms ch(1) by (simp add: storeInv_def slotPolicy_def slotsOK_def refs_def WatchExecution_def)
  have "executions (removeWatcherLocked x c s) = executions s" "doneCh (removeWatcherLocked x c s) = doneCh s"
    "workflowSlots (removeWatcherLocked x c s) = workflowSlots s" "slotHolders (removeWatcherLocked x c s) = slotHolders s"
    "queued (removeWatcherLocked x c s) = queued s"
    by (simp_all add: removeWatcherLocked_def closeChan_def Let_def split: option.split)
  then show "storeInv lim (removeWatcherLocked x c s)"
    using assms ch(2) by (simp add: storeInv_def slotPolicy_def slotsOK_def refs_def)
  have "doneOK {} (executions s) (doneCh (waitDone x s))"
    using assms by (auto simp: storeInv_def doneOK_def waitDone_def hasKey_def split: option.splits) (metis option.distinct(1))
  then show "storeInv lim (waitDone x s)"
    using assms ch(3) by (simp add: storeInv_def slotPolicy_def slotsOK_def refs_def waitDone_def split: if_splits)
qed

lemma watch_sel:
  "executions (snd (WatchExecution x s)) = executions s" "nodes (snd (WatchExecution x s)) = nodes s"
  "privateOutputs (snd (WatchExecution x s)) = privateOutputs s"
  "executions (removeWatcherLocked x c s) = executions s" "nodes (removeWatcherLocked x c s) = nodes s"
  "privateOutputs (removeWatcherLocked x c s) = privateOutputs s"
  "executions (waitDone x s) = executions s" "nodes (waitDone x s) = nodes s" "privateOutputs (waitDone x s) = privateOutputs s"
  by (simp_all add: WatchExecution_def removeWatcherLocked_def closeChan_def waitDone_def Let_def split: option.split)

lemma watch_keep:
  "opKeeps lim s (snd (WatchExecution x s))" "opKeeps lim s (removeWatcherLocked x c s)" "opKeeps lim s (waitDone x s)"
  using watch_inv [of lim s x] privacy_frame [of _ s] by (simp_all add: opKeeps_def terminalKept_def statusOf_def watch_sel)

lemma PublishExecutionEvent_keeps: "opKeeps lim s (PublishExecutionEvent event s)"
  using publishLocked_inv [of lim s event] privacy_frame
  by (simp add: opKeeps_def PublishExecutionEvent_def terminalKept_def statusOf_def eraseEvents_D [OF publishLocked_frame])

lemma node_keep:
  "opKeeps lim s (UpsertNode now n s)" "opKeeps lim s (snd (CancelSuspendedNode now eid name s))"
  "opKeeps lim s (snd (AcquireTaskLease lease s))" "opKeeps lim s (snd (AcquireTaskLeaseChecked ac lease s))"
  "opKeeps lim s (snd (ResetNodeForRetryWithOutbox now eid name tok entry s))" "opKeeps lim s (snd (RevokeLease eid name tok s))"
  "opKeeps lim s (snd (RevokeLeaseWithOutbox now eid name tok entry s))" "opKeeps lim s (snd (ClaimTaskLease lease s))"
  "opKeeps lim s (snd (RenewTaskLease now eid name tok deadline s))"
  by (rule opKeeps_evolves; simp add: UpsertNode_evolves CancelSuspendedNode_evolves AcquireTaskLease_evolves AcquireTaskLeaseChecked_evolves
      resetWithOutbox_evolves RevokeLease_def revokeLeaseLocked_evolves ClaimTaskLease_evolves RenewTaskLease_evolves)+

lemma DecrementInDegree_keeps: "opKeeps lim s (snd (DecrementInDegree eid u a s))"
  by (rule opKeeps_frame) (simp_all add: DecrementInDegree_def Let_def core_def)

lemma signal_keep:
  "opKeeps lim s (snd (SuspendOrConsume eid name spec s))" "opKeeps lim s (snd (DeliverSignal order eid sig d s))"
  "opKeeps lim s (snd (RevokeSignal eid sig s))" "opKeeps lim s (snd (ResuspendAtomic eid name sig spec s))"
  "opKeeps lim s (snd (AcquireResumeLock eid name s))" "opKeeps lim s (CreateSubExecution sub s)"
  "opKeeps lim s (snd (CompleteSubExecution parent pn child status result s))"
  by (rule opKeeps_same; rule SuspendOrConsume_same DeliverSignal_same RevokeSignal_same ResuspendAtomic_same AcquireResumeLock_same
      SubExecution_same)+

lemma suspend_keep:
  "opKeeps lim s (snd (DeliverSignalWithOutbox now order eid sig d i s))" "opKeeps lim s (PutOutput eid name d s)"
  "opKeeps lim s (snd (SuspendTaskLease now now' lease out st pr spec old s))"
  by (rule opKeeps_frame; simp add: DeliverSignalWithOutbox_frame)
    (rule opKeeps_evolves; simp add: PutOutput_evolves SuspendTaskLease_evolves)+

lemma group_keep:
  "opKeeps lim s (snd (AcquireGroupLease lease s))" "opKeeps lim s (snd (RenewGroupLease eid u t d s))"
  "opKeeps lim s (snd (ExpireGroupLease eid u t s))" "opKeeps lim s (snd (RevokeGroupLeaseWithOutbox now eid u t entry s))"
proof -
  show "opKeeps lim s (snd (AcquireGroupLease lease s))" "opKeeps lim s (snd (RenewGroupLease eid u t d s))"
    by (rule opKeeps_same [OF group_same(1)], rule opKeeps_same [OF group_same(2)])
  have e: "opKeeps lim s (snd (expireGroupLeaseLocked eid u t s))" by (rule opKeeps_same [OF group_same(3)])
  then show "opKeeps lim s (snd (ExpireGroupLease eid u t s))" by (simp add: ExpireGroupLease_def)
  have "opKeeps lim r (snd (putOutboxLocked now eid i tk v r))" for i tk v r by (rule opKeeps_frame) simp_all
  then have "opKeeps lim s (snd (putOutboxLocked now eid i tk v (snd (expireGroupLeaseLocked eid u t s))))" for i tk v
    using opKeeps_trans [OF e] by blast
  then show "opKeeps lim s (snd (RevokeGroupLeaseWithOutbox now eid u t entry s))"
    using e by (simp add: RevokeGroupLeaseWithOutbox_def case_prod_beta split: bool.split)
qed

lemma children_keep:
  "opKeeps lim s (snd (BeginTaskExpansionWithOutbox now lease cs es s))" "opKeeps lim s (snd (BeginTaskExpansion lease s))"
  "opKeeps lim s (snd (CreateExpandedSubExecution lease sub s))" "opKeeps lim s (snd (CompleteExpandedSubExecution arrange lease c st r s))"
  "opKeeps lim s (snd (BeginSubWorkflowWait now lease link es s))" "opKeeps lim s (snd (RecordSubWorkflowConclusion p n con s))"
proof -
  show "opKeeps lim s (snd (BeginTaskExpansionWithOutbox now lease cs es s))" "opKeeps lim s (snd (BeginTaskExpansion lease s))"
    "opKeeps lim s (snd (BeginSubWorkflowWait now lease link es s))"
    by (rule opKeeps_kept; simp add: BeginTaskExpansionWithOutbox_kept BeginTaskExpansion_kept BeginSubWorkflowWait_kept)+
  show "opKeeps lim s (snd (CreateExpandedSubExecution lease sub s))" "opKeeps lim s (snd (CompleteExpandedSubExecution arrange lease c st r s))"
    "opKeeps lim s (snd (RecordSubWorkflowConclusion p n con s))"
    by (rule opKeeps_same; rule expanded_same)+
qed

end
