(* ===== verification/Ledgers.thy ===== *)
theory Ledgers
  imports StoreSteps
begin

text \<open>
  The store's records of what was decided once and for all: the admission keys of
  entry units, and the receipts of dead-letter replays with the index from entries to
  them.  No operation touches them but the seeding of an entry unit, the replay, the
  dead-lettering of the entry itself, and the rollback of a failed create.
\<close>

section \<open>The records\<close>

definition ledgers :: "memoryState \<Rightarrow> (string, admissionEntry) fmap \<times> (ExecutionID, (string, memoryReplayReceipt) fmap) fmap
    \<times> (ExecutionID, (string, string) fmap) fmap" where
  "ledgers s = (admissions s, replayReceipts s, replayEntryIdx s)"

named_theorems ledger \<open>what leaves the records alone\<close>

lemma ledgers_upd [ledger]:
  "ledgers (s\<lparr>executions := x0\<rparr>) = ledgers s"
  "ledgers (s\<lparr>nodes := x1\<rparr>) = ledgers s"
  "ledgers (s\<lparr>inDegrees := x2\<rparr>) = ledgers s"
  "ledgers (s\<lparr>activeIns := x3\<rparr>) = ledgers s"
  "ledgers (s\<lparr>remaining := x4\<rparr>) = ledgers s"
  "ledgers (s\<lparr>failed := x5\<rparr>) = ledgers s"
  "ledgers (s\<lparr>advanced := x6\<rparr>) = ledgers s"
  "ledgers (s\<lparr>scheduled := x7\<rparr>) = ledgers s"
  "ledgers (s\<lparr>outbox := x8\<rparr>) = ledgers s"
  "ledgers (s\<lparr>deadOutbox := x9\<rparr>) = ledgers s"
  "ledgers (s\<lparr>outputs := x10\<rparr>) = ledgers s"
  "ledgers (s\<lparr>privateOutputs := x11\<rparr>) = ledgers s"
  "ledgers (s\<lparr>suspended := x12\<rparr>) = ledgers s"
  "ledgers (s\<lparr>signals := x13\<rparr>) = ledgers s"
  "ledgers (s\<lparr>signalSets := x14\<rparr>) = ledgers s"
  "ledgers (s\<lparr>resumed := x15\<rparr>) = ledgers s"
  "ledgers (s\<lparr>subExecs := x16\<rparr>) = ledgers s"
  "ledgers (s\<lparr>subWorkflowLinks := x17\<rparr>) = ledgers s"
  "ledgers (s\<lparr>subWorkflowConclusions := x18\<rparr>) = ledgers s"
  "ledgers (s\<lparr>groupUnits := x19\<rparr>) = ledgers s"
  "ledgers (s\<lparr>idempotency := x20\<rparr>) = ledgers s"
  "ledgers (s\<lparr>workflowSlots := x21\<rparr>) = ledgers s"
  "ledgers (s\<lparr>slotHolders := x22\<rparr>) = ledgers s"
  "ledgers (s\<lparr>queued := x23\<rparr>) = ledgers s"
  "ledgers (s\<lparr>doneCh := x24\<rparr>) = ledgers s"
  "ledgers (s\<lparr>eventWatchers := x25\<rparr>) = ledgers s"
  "ledgers (s\<lparr>cancelingSince := x26\<rparr>) = ledgers s"
  "ledgers (s\<lparr>mirrorLocks := x27\<rparr>) = ledgers s"
  "ledgers (s\<lparr>mirrorSkip := x28\<rparr>) = ledgers s"
  "ledgers (s\<lparr>mirrorCreatePending := x29\<rparr>) = ledgers s"
  "ledgers (s\<lparr>mirrorConflict := x30\<rparr>) = ledgers s"
  "ledgers (s\<lparr>rolledBack := x31\<rparr>) = ledgers s"
  "ledgers (s\<lparr>deadlines := x32\<rparr>) = ledgers s"
  "ledgers (s\<lparr>chans := x33\<rparr>) = ledgers s"
  "ledgers (s\<lparr>nextChan := x34\<rparr>) = ledgers s"
  "ledgers (s\<lparr>panicked := x35\<rparr>) = ledgers s"
  by (simp_all add: ledgers_def)

lemma ledgers_fold: "(\<And>x s. ledgers (f x s) = ledgers s) \<Longrightarrow> ledgers (fold f xs s) = ledgers s"
  by (rule fold_same)

lemma ledgers_fold_pair:
  "(\<And>x r. ledgers (fst (f x r)) = ledgers (fst r)) \<Longrightarrow> ledgers (fst (fold f xs r)) = ledgers (fst r)"
  by (induction xs arbitrary: r) simp_all

lemma ledgers_case [ledger]:
  "ledgers (if b then s else t) = (if b then ledgers s else ledgers t)"
  "ledgers (snd (if b then p else q)) = (if b then ledgers (snd p) else ledgers (snd q))"
  "ledgers (fst (if b then p' else q')) = (if b then ledgers (fst p') else ledgers (fst q'))"
  by simp_all

section \<open>Primitives\<close>

lemma ledgers_events [ledger]: "ledgers (publishLocked ev s) = ledgers s" "ledgers (closeChan c s) = ledgers s"
  "ledgers (closeDone eid s) = ledgers s" "ledgers (closeEntry eid s) = ledgers s"
proof -
  show "ledgers (publishLocked ev s) = ledgers s" by (simp add: ledgers_def eraseEvents_D [OF publishLocked_frame])
  show "ledgers (closeChan c s) = ledgers s" by (simp add: closeChan_def ledger split: option.split)
  show d: "ledgers (closeDone eid s) = ledgers s" for s by (simp add: closeDone_def ledger split: option.split bool.split)
  show "ledgers (closeEntry eid s) = ledgers s" by (simp add: closeEntry_def d ledger split: option.split)
qed

lemma ledgers_release [ledger]: "ledgers (releaseWorkflowSlotLocked now eid s) = ledgers s"
  using erasePromotion_D [OF releaseWorkflowSlotLocked_frame] by (simp add: ledgers_def)

lemma ledgers_entries [ledger]:
  "ledgers (updEntries f eid s) = ledgers s" "ledgers (holdOutboxLocked eid s) = ledgers s" "ledgers (dropHeldOutboxLocked eid s) = ledgers s"
  "ledgers (snd (putOutboxEntryLocked now eid en s)) = ledgers s" "ledgers (snd (putOutboxLocked now eid i t v s)) = ledgers s"
  "ledgers (writeIntent now eid at en s) = ledgers s" "ledgers (writeInitialIntentsLocked now eid es at s) = ledgers s"
  "ledgers (putAll now eid es s) = ledgers s"
proof -
  show u: "ledgers (updEntries f eid s) = ledgers s" for f eid s by (simp add: updEntries_def ledger split: option.split)
  show "ledgers (holdOutboxLocked eid s) = ledgers s" by (simp add: holdOutboxLocked_def u)
  show "ledgers (dropHeldOutboxLocked eid s) = ledgers s" by (simp add: dropHeldOutboxLocked_def ledger)
  show p: "ledgers (snd (putOutboxEntryLocked now eid en s)) = ledgers s" for now eid en s by (simp add: putOutboxEntryLocked_def ledger)
  then show q: "ledgers (snd (putOutboxLocked now eid i t v s)) = ledgers s" for now eid i t v s by (simp add: putOutboxLocked_def)
  show w: "ledgers (writeIntent now eid at en s) = ledgers s" for en s by (simp add: writeIntent_def Let_def p ledger)
  show "ledgers (writeInitialIntentsLocked now eid es at s) = ledgers s" unfolding writeInitialIntentsLocked_def by (rule ledgers_fold) (rule w)
  show "ledgers (putAll now eid es s) = ledgers s" unfolding putAll_def by (rule ledgers_fold) (rule q)
qed

lemma ledgers_mirror [ledger]:
  "ledgers (snd (beginMirrorMode eid b s)) = ledgers s" "ledgers (finishMirror eid s) = ledgers s"
  "ledgers (pruneTransientSkipAfterTerminal eid s) = ledgers s" "ledgers (mirrorExecutionStatus eid s) = ledgers s"
  "ledgers (mirrorNode eid s) = ledgers s" "ledgers (noteMirrorModeLocked h e s) = ledgers s"
  "ledgers (snd (markMirrorCreatePendingLocked eid s)) = ledgers s"
proof -
  show b: "ledgers (snd (beginMirrorMode eid b s)) = ledgers s" for b by (simp add: beginMirrorMode_def ledger)
  have p: "ledgers (pruneMirrorStateLocked eid s) = ledgers s" for s by (simp add: pruneMirrorStateLocked_def ledger)
  then show q: "ledgers (pruneTransientSkipAfterTerminal eid s) = ledgers s" for s by (simp add: pruneTransientSkipAfterTerminal_def)
  show f: "ledgers (finishMirror eid s) = ledgers s" for s by (simp add: finishMirror_def Let_def p ledger)
  show "ledgers (mirrorExecutionStatus eid s) = ledgers s" "ledgers (mirrorNode eid s) = ledgers s"
    using b [of False] by (cases "beginMirrorMode eid False s"; simp add: mirrorExecutionStatus_def mirrorNode_def f q split: bool.split)+
  show "ledgers (noteMirrorModeLocked h e s) = ledgers s" "ledgers (snd (markMirrorCreatePendingLocked eid s)) = ledgers s"
    by (simp_all add: noteMirrorModeLocked_def markMirrorCreatePendingLocked_def ledger)
qed

lemma ledgers_status [ledger]:
  "ledgers (withdrawDeadlineLocked eid st s) = ledgers s" "ledgers (setExecSnap eid e sn s) = ledgers s"
  "ledgers (finishExecutionLocked now eid st err s) = ledgers s" "ledgers (snd (updateExecutionStatusLocked now eid st err s)) = ledgers s"
proof -
  show w: "ledgers (withdrawDeadlineLocked eid st s) = ledgers s" for st s by (simp add: withdrawDeadlineLocked_def ledger)
  show x: "ledgers (setExecSnap eid e sn s) = ledgers s" for e sn s by (simp add: setExecSnap_def ledger)
  show "ledgers (finishExecutionLocked now eid st err s) = ledgers s" by (simp add: finishExecutionLocked_def Let_def w x ledger split: option.split)
  show "ledgers (snd (updateExecutionStatusLocked now eid st err s)) = ledgers s"
    by (simp add: updateExecutionStatusLocked_def Let_def w x ledger split: option.split)
qed

section \<open>Operations\<close>

lemma ledgers_lifecycle [ledger]:
  "ledgers (UpdateExecutionStatus now eid st err s) = ledgers s" "ledgers (fst (ExpireQueuedExecutions now limit order s)) = ledgers s"
  "ledgers (fst (PauseExecution now eid s)) = ledgers s" "ledgers (fst (ResumeExecution now eid s)) = ledgers s"
  "ledgers (fst (ListCancelingExecutions now limit s)) = ledgers s" "ledgers (fst (ListDeadlineExceededExecutions now limit s)) = ledgers s"
  "ledgers (AckDeadlineExpired eid s) = ledgers s"
proof -
  show "ledgers (UpdateExecutionStatus now eid st err s) = ledgers s" by (simp add: UpdateExecutionStatus_def case_prod_beta ledger)
  have "ledgers (fst (expireOne now i r)) = ledgers (fst r)" for i r by (simp add: expireOne_def case_prod_beta Let_def ledger)
  then have "ledgers (fst (fold (expireOne now) xs (s, ps))) = ledgers s" for xs ps
    using ledgers_fold_pair [of "expireOne now" xs "(s, ps)"] by simp
  moreover have "ledgers (fold mirrorExecutionStatus xs t) = ledgers t" for xs t by (rule ledgers_fold) (rule ledgers_mirror)
  ultimately show "ledgers (fst (ExpireQueuedExecutions now limit order s)) = ledgers s"
    by (simp add: ExpireQueuedExecutions_def Let_def case_prod_beta)
  show "ledgers (fst (PauseExecution now eid s)) = ledgers s" "ledgers (fst (ResumeExecution now eid s)) = ledgers s"
    by (simp_all add: PauseExecution_def ResumeExecution_def Let_def ledger split: option.split ExecutionStatus.split)
  show "ledgers (fst (ListCancelingExecutions now limit s)) = ledgers s" "ledgers (fst (ListDeadlineExceededExecutions now limit s)) = ledgers s"
    "ledgers (AckDeadlineExpired eid s) = ledgers s"
    by (simp_all add: ListCancelingExecutions_def ListDeadlineExceededExecutions_def AckDeadlineExpired_def Let_def ledger)
qed

lemma ledgers_watch [ledger]:
  "ledgers (snd (WatchExecution eid s)) = ledgers s" "ledgers (PublishExecutionEvent ev s) = ledgers s"
  "ledgers (removeWatcherLocked eid c s) = ledgers s" "ledgers (waitDone eid s) = ledgers s"
  by (simp_all add: WatchExecution_def PublishExecutionEvent_def removeWatcherLocked_def waitDone_def Let_def ledger)

lemma ledgers_outbox [ledger]:
  "ledgers (fst (LeaseOutbox s eid now limit)) = ledgers s" "ledgers (fst (RenewOutbox s eid es now)) = ledgers s"
  "ledgers (AckOutbox eid i s) = ledgers s" "ledgers (ReleaseOutbox eid en s) = ledgers s"
proof -
  have "ledgers (fst (leaseOne now eid i r)) = ledgers (fst r)" for i r
    by (simp add: leaseOne_def case_prod_beta Let_def ledger split: option.split)
  from ledgers_fold_pair [of "leaseOne now eid", OF this] show "ledgers (fst (LeaseOutbox s eid now limit)) = ledgers s"
    by (simp add: LeaseOutbox_def)
  have "ledgers (fst (renewOne now eid i r)) = ledgers (fst r)" for i r
    by (simp add: renewOne_def case_prod_beta Let_def ledger split: option.split)
  from ledgers_fold_pair [of "renewOne now eid", OF this] show "ledgers (fst (RenewOutbox s eid es now)) = ledgers s"
    by (simp add: RenewOutbox_def)
  show "ledgers (AckOutbox eid i s) = ledgers s" "ledgers (ReleaseOutbox eid en s) = ledgers s"
    by (simp_all add: AckOutbox_def ReleaseOutbox_def ledger split: option.split)
qed

lemma ledgers_nodes [ledger]:
  "ledgers (snd (preserveOutputPrivacyLocked key p s)) = ledgers s" "ledgers (storeNode key n s) = ledgers s"
  "ledgers (UpsertNode now n s) = ledgers s" "ledgers (snd (CancelSuspendedNode now eid name s)) = ledgers s"
  "ledgers (snd (AcquireTaskLease lease s)) = ledgers s" "ledgers (snd (AcquireTaskLeaseChecked b lease s)) = ledgers s"
  "ledgers (snd (ClaimTaskLease lease s)) = ledgers s" "ledgers (snd (RenewTaskLease now eid name tok deadline s)) = ledgers s"
  "ledgers (snd (RevokeLease eid name tok s)) = ledgers s" "ledgers (snd (RevokeLeaseWithOutbox now eid name tok en s)) = ledgers s"
  "ledgers (snd (ResetNodeForRetryWithOutbox now eid name tok en s)) = ledgers s" "ledgers (snd (DecrementInDegree eid u b s)) = ledgers s"
proof -
  show p: "ledgers (snd (preserveOutputPrivacyLocked key p s)) = ledgers s" for key p s
    by (simp add: preserveOutputPrivacyLocked_def Let_def ledger split: option.split)
  show n: "ledgers (storeNode key n s) = ledgers s" for key n s
    using p [of key "ns_PrivateOutput n" s] by (simp add: storeNode_def case_prod_beta Let_def ledger)
  have u: "ledgers (snd (upsertNodeLocked now n s)) = ledgers s" for n s by (simp add: upsertNodeLocked_def case_prod_beta Let_def p n ledger split: option.split)
  show "ledgers (UpsertNode now n s) = ledgers s" by (simp add: UpsertNode_def case_prod_beta u ledger)
  show "ledgers (snd (CancelSuspendedNode now eid name s)) = ledgers s"
    by (simp add: CancelSuspendedNode_def case_prod_beta Let_def p n ledger split: option.split)
  have a: "ledgers (snd (acquireTaskLeaseLocked lease s)) = ledgers s" by (simp add: acquireTaskLeaseLocked_def case_prod_beta Let_def p n ledger split: option.split)
  then show "ledgers (snd (AcquireTaskLease lease s)) = ledgers s" "ledgers (snd (AcquireTaskLeaseChecked b lease s)) = ledgers s"
    by (simp_all add: AcquireTaskLease_def AcquireTaskLeaseChecked_def case_prod_beta Let_def ledger split: option.split)
  show "ledgers (snd (ClaimTaskLease lease s)) = ledgers s" "ledgers (snd (RenewTaskLease now eid name tok deadline s)) = ledgers s"
    by (simp_all add: ClaimTaskLease_def RenewTaskLease_def case_prod_beta Let_def p n ledger split: option.split)
  have r: "ledgers (snd (revokeLeaseLocked eid name tok s)) = ledgers s" "ledgers (snd (resetNodeForRetryLocked eid name t s)) = ledgers s" for t
    by (simp_all add: revokeLeaseLocked_def resetNodeForRetryLocked_def case_prod_beta Let_def p n ledger split: option.split)
  then show "ledgers (snd (RevokeLease eid name tok s)) = ledgers s" "ledgers (snd (RevokeLeaseWithOutbox now eid name tok en s)) = ledgers s"
    "ledgers (snd (ResetNodeForRetryWithOutbox now eid name tok en s)) = ledgers s"
    by (simp_all add: RevokeLease_def RevokeLeaseWithOutbox_def ResetNodeForRetryWithOutbox_def case_prod_beta ledger split: bool.split)
  show "ledgers (snd (DecrementInDegree eid u b s)) = ledgers s" by (simp add: DecrementInDegree_def Let_def ledger)
qed

lemma ledgers_arrivals [ledger]:
  "ledgers (snd (applyArrivalsLocked now eid act auto as s)) = ledgers s" "ledgers (snd (applyGroupDownstreamLocked now eid as s)) = ledgers s"
proof -
  have e: "ledgers (eraseSched s) = ledgers s" for s by (simp add: eraseSched_def ledger)
  show "ledgers (snd (applyArrivalsLocked now eid act auto as s)) = ledgers s" "ledgers (snd (applyGroupDownstreamLocked now eid as s)) = ledgers s"
    using arg_cong [OF applyArrivals_frame, of ledgers] arg_cong [OF groupDownstream_frame, of ledgers] by (simp_all only: e)
qed

lemma ledgers_commit [ledger]:
  "ledgers (snd (CommitNode now req s)) = ledgers s" "ledgers (snd (AdvanceNode now areq s)) = ledgers s"
proof -
  have w: "ledgers (writeCommitted now req s) = ledgers s" by (simp add: writeCommitted_def case_prod_beta Let_def ledger)
  have n: "ledgers (snd (putNoted now eid i t rs)) = ledgers (snd rs)" for eid i t rs
    using ledgers_entries(5) [of now eid i t zeroTime "snd rs"]
    by (cases "putOutboxLocked now eid i t zeroTime (snd rs)") (simp add: putNoted_def split: bool.split)
  have c: "ledgers (snd (countCommitted now req rs)) = ledgers (snd rs)" for rs by (simp add: countCommitted_def Let_def ledger)
  have f: "ledgers (snd (foldArrivals now req rs)) = ledgers (snd rs)" for rs by (simp add: foldArrivals_def case_prod_beta ledger)
  have y: "ledgers (snd (cyclicCommitted now req rs)) = ledgers (snd rs)" for rs
  proof -
    define g where "g = (\<lambda>oe (rs :: CommitNodeResult \<times> memoryState). case putOutboxEntryLocked now (cn_ExecutionID req) oe (snd rs) of
        (True, s1) \<Rightarrow> ((fst rs)\<lparr>cr_OutboxIDs := cr_OutboxIDs (fst rs) @ [oe_ID oe]\<rparr>, s1) | (False, s1) \<Rightarrow> (fst rs, s1))"
    have "ledgers (snd (g oe rs)) = ledgers (snd rs)" for oe rs
      using ledgers_entries(4) [of now "cn_ExecutionID req" oe "snd rs"]
      by (cases "putOutboxEntryLocked now (cn_ExecutionID req) oe (snd rs)") (simp add: g_def split: bool.split)
    then have "ledgers (snd (fold g es rs)) = ledgers (snd rs)" for es by (induction es arbitrary: rs) simp_all
    then show ?thesis by (simp add: cyclicCommitted_def g_def Let_def ledger)
  qed
  define P where "P rs \<longleftrightarrow> ledgers (snd rs) = ledgers s" for rs :: "CommitNodeResult \<times> memoryState"
  have 1: "P (if b then rs else countCommitted now req rs)" if "P rs" for b rs using that by (simp add: P_def c)
  have 2: "P (case o' of Some t \<Rightarrow> if b then putNoted now eid i t rs else rs | None \<Rightarrow> rs)" if "P rs" for o' b eid i rs
    using that by (simp add: P_def n split: option.split)
  have 3: "P (if b then foldArrivals now req rs else rs)" if "P rs" for b rs using that by (simp add: P_def f)
  have 4: "P (if b then (r, snd rs) else rs)" if "P rs" for b r rs using that by (simp add: P_def)
  have 5: "P (if b then cyclicCommitted now req rs else rs)" if "P rs" for b rs using that by (simp add: P_def y)
  have 0: "P (accepted, writeCommitted now req s)" by (simp add: P_def w)
  have "P (commitNodeLocked now req s)"
    unfolding commitNodeLocked_def Let_def
    by (cases "commitVerdict s req") (simp_all only: option.case, rule 5, rule 4, rule 3, rule 2, rule 2, rule 1, rule 0, simp add: P_def)
  then have "ledgers (snd (commitNodeLocked now req s)) = ledgers s" by (simp add: P_def)
  then show "ledgers (snd (CommitNode now req s)) = ledgers s" by (simp add: CommitNode_def case_prod_beta Let_def ledger split: option.split)
  show "ledgers (snd (AdvanceNode now areq s)) = ledgers s" by (simp add: AdvanceNode_def case_prod_beta Let_def ledger split: option.split)
qed

lemma ledgers_take [ledger]:
  "ledgers (dropSignal k s) = ledgers s" "ledgers (snd (addMultiSignalLocked eid n sig d spec s)) = ledgers s"
  "ledgers (snd (takeSignal eid sigs s)) = ledgers s" "ledgers (snd (takeSignals eid n spec sigs s)) = ledgers s"
  "ledgers (park k spec s) = ledgers s" "ledgers (storeSignal eid sig d s) = ledgers s" "ledgers (wake k s) = ledgers s"
  "ledgers (scheduleResumeOutbox now eid n i p s) = ledgers s"
proof -
  show d: "ledgers (dropSignal k s) = ledgers s" for k s by (simp add: dropSignal_def ledger)
  show a: "ledgers (snd (addMultiSignalLocked eid n sig d spec s)) = ledgers s" for sig d s
    by (simp add: addMultiSignalLocked_def Let_def ledger)
  show "ledgers (snd (takeSignal eid sigs s)) = ledgers s" by (induction sigs) (simp_all add: d split: option.split)
  show "ledgers (snd (takeSignals eid n spec sigs s)) = ledgers s"
  proof (induction sigs arbitrary: s)
    case (Cons sig sigs)
    show ?case
    proof (cases "fmlookup (signals s) (memoryNodeKey eid sig)")
      case (Some v)
      then show ?thesis using Cons.IH a [of sig v "dropSignal (memoryNodeKey eid sig) s"]
        by (cases "addMultiSignalLocked eid n sig v spec (dropSignal (memoryNodeKey eid sig) s)") (simp add: d ledger split: option.split)
    qed (simp add: Cons.IH)
  qed simp
  show "ledgers (park k spec s) = ledgers s" "ledgers (storeSignal eid sig d s) = ledgers s" "ledgers (wake k s) = ledgers s"
    "ledgers (scheduleResumeOutbox now eid n i p s) = ledgers s"
    by (simp_all add: park_def storeSignal_def wake_def scheduleResumeOutbox_def Let_def ledger)
qed

lemma ledgers_signals [ledger]:
  "ledgers (snd (SuspendOrConsume eid name spec s)) = ledgers s" "ledgers (snd (DeliverSignal order eid sig d s)) = ledgers s"
  "ledgers (snd (DeliverSignalWithOutbox now order eid sig d i s)) = ledgers s" "ledgers (snd (RevokeSignal eid sig s)) = ledgers s"
  "ledgers (snd (ResuspendAtomic eid name sig spec s)) = ledgers s" "ledgers (snd (AcquireResumeLock eid name s)) = ledgers s"
  "ledgers (PutOutput eid name d s) = ledgers s" "ledgers (CreateSubExecution sub s) = ledgers s"
  "ledgers (snd (CompleteSubExecution eid name child cst d s)) = ledgers s"
proof -
  have c: "ledgers (snd (case r of (None, t) \<Rightarrow> (a, f t) | (Some p, t) \<Rightarrow> (b p, g p t))) = ledgers (snd r)"
    if "\<And>t. ledgers (f t) = ledgers t" "\<And>p t. ledgers (g p t) = ledgers t" for r a b f g
    using that by (cases r) (simp split: option.split)
  have c': "ledgers (snd (case r of (Some p, t) \<Rightarrow> (b p, g p t) | (None, t) \<Rightarrow> (a, f t))) = ledgers (snd r)"
    if "\<And>t. ledgers (f t) = ledgers t" "\<And>p t. ledgers (g p t) = ledgers t" for r a b f g
    using that by (cases r) (simp split: option.split)
  show "ledgers (snd (SuspendOrConsume eid name spec s)) = ledgers s"
    by (simp add: SuspendOrConsume_def suspendOrConsumeMultiLocked_def c' ledger)
  show "ledgers (snd (DeliverSignal order eid sig d s)) = ledgers s" "ledgers (snd (DeliverSignalWithOutbox now order eid sig d i s)) = ledgers s"
    by (simp_all add: DeliverSignal_def DeliverSignalWithOutbox_def Let_def c ledger split: option.split)
qed (simp_all add: RevokeSignal_def ResuspendAtomic_def AcquireResumeLock_def PutOutput_def CreateSubExecution_def
    CompleteSubExecution_def Let_def ledger split: option.split)

lemma ledgers_suspend [ledger]: "ledgers (snd (SuspendTaskLease now now' lease out st pr spec old s)) = ledgers s"
  by (simp add: SuspendTaskLease_def case_prod_beta Let_def ledger split: option.split)

lemma ledgers_groups [ledger]:
  "ledgers (snd (AcquireGroupLease glease s)) = ledgers s" "ledgers (snd (RenewGroupLease eid u tok deadline s)) = ledgers s"
  "ledgers (snd (ExpireGroupLease eid u tok s)) = ledgers s" "ledgers (snd (RevokeGroupLeaseWithOutbox now eid u tok en s)) = ledgers s"
  "ledgers (fold (writeExit eid) exits s) = ledgers s" "ledgers (snd (countUnit now eid f fatal err s)) = ledgers s"
  "ledgers (snd (CommitGroup now greq s)) = ledgers s"
proof -
  have e: "ledgers (snd (expireGroupLeaseLocked eid u tok s)) = ledgers s"
    by (simp add: expireGroupLeaseLocked_def Let_def ledger split: option.split)
  show "ledgers (snd (AcquireGroupLease glease s)) = ledgers s" "ledgers (snd (RenewGroupLease eid u tok deadline s)) = ledgers s"
    by (simp_all add: AcquireGroupLease_def RenewGroupLease_def Let_def ledger split: option.split)
  show "ledgers (snd (ExpireGroupLease eid u tok s)) = ledgers s" "ledgers (snd (RevokeGroupLeaseWithOutbox now eid u tok en s)) = ledgers s"
    using e by (simp_all add: ExpireGroupLease_def RevokeGroupLeaseWithOutbox_def case_prod_beta ledger split: bool.split)
  have "ledgers (writeExit eid x s) = ledgers s" for eid x s by (simp add: writeExit_def case_prod_beta Let_def ledger)
  then show x: "ledgers (fold (writeExit eid) exits s) = ledgers s" for eid exits s by (intro ledgers_fold)
  show c: "ledgers (snd (countUnit now eid f fatal err s)) = ledgers s" for eid f fatal err s by (simp add: countUnit_def Let_def ledger)
  have "ledgers (snd (commitGroupLocked now greq s)) = ledgers s"
    by (simp add: commitGroupLocked_def case_prod_beta Let_def x c ledger split: option.split)
  then show "ledgers (snd (CommitGroup now greq s)) = ledgers s" by (simp add: CommitGroup_def case_prod_beta ledger)
qed

lemma ledgers_idempotency [ledger]:
  "ledgers (snd (ClaimIdempotency now ireq s)) = ledgers s" "ledgers (ConfirmIdempotency eid tok s) = ledgers s"
  "ledgers (ReleaseIdempotency eid tok s) = ledgers s"
  by (simp_all add: ClaimIdempotency_def ConfirmIdempotency_def ReleaseIdempotency_def dropExpiredClaim_def putIdempotencyClaimLocked_def
      Let_def ledger split: option.split)

lemma ledgers_children [ledger]:
  "ledgers (snd (BeginTaskExpansionWithOutbox now lease subs es s)) = ledgers s" "ledgers (snd (BeginTaskExpansion lease s)) = ledgers s"
  "ledgers (snd (CreateExpandedSubExecution lease sub s)) = ledgers s" "ledgers (snd (CompleteExpandedSubExecution arrange lease child cst d s)) = ledgers s"
  "ledgers (snd (BeginSubWorkflowWait now lease link es s)) = ledgers s" "ledgers (snd (RecordSubWorkflowConclusion eid name con s)) = ledgers s"
proof -
  have "ledgers (addChild now l ce s) = ledgers s" for l ce s by (simp add: addChild_def Let_def ledger)
  then have "ledgers (fold (addChild now l) ces s) = ledgers s" for l ces s by (intro ledgers_fold)
  then show "ledgers (snd (BeginTaskExpansionWithOutbox now lease subs es s)) = ledgers s"
    by (simp add: BeginTaskExpansionWithOutbox_def parkNode_def Let_def ledger split: option.split)
qed (simp_all add: BeginTaskExpansion_def CreateExpandedSubExecution_def CompleteExpandedSubExecution_def BeginSubWorkflowWait_def
    RecordSubWorkflowConclusion_def parkNode_def Let_def ledger split: option.split)

section \<open>Creation\<close>

lemma ledgers_create [ledger]:
  "ledgers (createLocked now hint e s) = ledgers s" "ledgers (snd (createWithOutboxLocked now hint e entries s)) = ledgers s"
  "ledgers (fst (decideSlot now eid admission s)) = ledgers s"
  "ledgers (fst (createWithConcurrencyLocked now hint e entries adm s)) = ledgers s"
  "ledgers (releaseInitialMirrorHold eid s) = ledgers s"
proof -
  have k: "ledgers (createExecutionLocked now e s) = ledgers s" for e s
    by (simp add: createExecutionLocked_def Let_def ledger split: option.split)
  then show "ledgers (createLocked now hint e s) = ledgers s" "ledgers (snd (createWithOutboxLocked now hint e entries s)) = ledgers s"
    by (simp_all add: createLocked_def createWithOutboxLocked_def case_prod_beta ledger)
  have c: "ledgers (fst (chargeOrParkLocked now eid adm s)) = ledgers s" for eid adm
    by (simp add: chargeOrParkLocked_def parkOrChargeLocked_def chargeSlotLocked_def putSlot_def slotForLocked_def Let_def ledger
        split: option.split)
  then show "ledgers (fst (decideSlot now eid admission s)) = ledgers s" by (simp add: decideSlot_def split: option.split)
  show "ledgers (fst (createWithConcurrencyLocked now hint e entries adm s)) = ledgers s"
    using c [of "es_ID e" adm]
    by (cases "chargeOrParkLocked now (es_ID e) adm s")
      (simp add: createWithConcurrencyLocked_def case_prod_beta Let_def k ledger split: sum.split)
  show "ledgers (releaseInitialMirrorHold eid s) = ledgers s"
    by (simp add: releaseInitialMirrorHold_def clearMirrorCreatePending_def Let_def ledger split: option.split)
qed

lemma ledgers_hold [ledger]: "ledgers (holdWhilePending eid s) = ledgers s"
  by (simp add: holdWhilePending_def ledger)

lemma ledgers_seed [ledger]: "ledgers (snd (seedExecution now hint req s)) = ledgers s"
proof (cases "sq_Execution req")
  case (Some e)
  obtain s0 r where d: "decideSlot now (es_ID e) (sq_Admission req) s = (s0, r)" by fastforce
  then have s0: "ledgers s0 = ledgers s" using ledgers_create(3) [of now "es_ID e" "sq_Admission req" s] by simp
  have "ledgers (markSeeded eid u s) = ledgers s" for eid u s by (simp add: markSeeded_def case_prod_beta Let_def ledger)
  then have m: "ledgers (fold (markSeeded eid) us s) = ledgers s" for eid us s by (intro ledgers_fold)
  have "ledgers (snd (seedArrivals now eid u r)) = ledgers (snd r)" for eid u r by (simp add: seedArrivals_def case_prod_beta ledger)
  then have a: "ledgers (snd (fold (seedArrivals now eid) us r)) = ledgers (snd r)" for eid us r
    by (induction us arbitrary: r) simp_all
  show ?thesis
    using d s0 by (simp add: seedExecution_def decideSlot_def [symmetric] Some completeSeed_def Let_def m a ledger split: sum.split)
qed (simp add: seedExecution_def)

lemma admissions_ledgers: "ledgers s' = ledgers s \<Longrightarrow> admissions s' = admissions s"
  by (simp add: ledgers_def)

text \<open>Seeding an entry adds one admission key, if it was not there, and nothing else.\<close>

lemma seedEntry_ledgers:
  assumes "seedExecutionFromEntryLocked now hint nsCtx req admission s = ((r, created), s')"
  shows "replayReceipts s' = replayReceipts s" "replayEntryIdx s' = replayEntryIdx s"
    "fmlookup (admissions s) key = Some a \<Longrightarrow> fmlookup (admissions s') key = Some a"
proof -
  let ?id = "DeterministicExecutionID (sf_AdmissionKey req)"
  obtain s0 r0 where d: "decideSlot now ?id admission s = (s0, r0)" by fastforce
  have s0: "ledgers s0 = ledgers s" using ledgers_create(3) [of now ?id admission s] d by simp
  have sk: "ledgers (fold (skipRoot now eid) ts s) = ledgers s" for eid ts s
    by (rule ledgers_fold) (simp add: skipRoot_def Let_def ledger)
  have ce: "ledgers (countEntry now eid req s) = ledgers s" for eid s by (simp add: countEntry_def ledger)
  consider (old) "s' = s" | (refused) "s' = s0" | (new) t v where "s' = t\<lparr>admissions := fmupd (sf_AdmissionKey req) v (admissions t)\<rparr>"
      "ledgers t = ledgers s" "fmlookup (admissions s) (sf_AdmissionKey req) = None"
  proof (cases "fmlookup (admissions s) (sf_AdmissionKey req)")
    case None
    show thesis
    proof (cases r0)
      case (Inl err)
      then show thesis using assms None d that(2) by (simp add: seedExecutionFromEntryLocked_def decideSlot_def [symmetric] Let_def)
    next
      case (Inr pending)
      show thesis
        using assms None d Inr
        unfolding seedExecutionFromEntryLocked_def decideSlot_def [symmetric] Let_def
        by (simp only: option.case prod.case sum.case prod.inject)
          (elim conjE, rule that(3) [OF sym _ None], assumption, simp add: s0 sk ce ledger)
    qed
  next
    case (Some v)
    then have "s' = s" using assms by (simp add: seedExecutionFromEntryLocked_def Let_def)
    then show thesis by (rule that(1))
  qed
  then have "replayReceipts s' = replayReceipts s \<and> replayEntryIdx s' = replayEntryIdx s
    \<and> (fmlookup (admissions s) key = Some a \<longrightarrow> fmlookup (admissions s') key = Some a)"
  proof cases
    case (new t v)
    then show ?thesis by (auto simp: ledgers_def)
  qed (use s0 in \<open>simp_all add: ledgers_def\<close>)
  then show "replayReceipts s' = replayReceipts s" "replayEntryIdx s' = replayEntryIdx s"
    "fmlookup (admissions s) key = Some a \<Longrightarrow> fmlookup (admissions s') key = Some a" by simp_all
qed

text \<open>A rollback takes the records of its own execution, and only those.\<close>

lemma rollback_ledgers:
  assumes "x \<noteq> eid"
  shows "receiptsOf (rollbackCreatedExecution now eid s) x = receiptsOf s x"
    "entryIdxOf (rollbackCreatedExecution now eid s) x = entryIdxOf s x"
    "fmlookup (admissions s) key = Some a \<Longrightarrow> ae_executionID a = x \<Longrightarrow>
      fmlookup (admissions (rollbackCreatedExecution now eid s)) key = Some a"
proof -
  have c: "ledgers (fold closeChan cs t) = ledgers t" for cs t by (rule ledgers_fold) (simp add: ledger)
  define s3 where "s3 = (let s1 = releaseWorkflowSlotLocked now eid s;
      s2 = dropDone eid (fmlookup (executions s1) eid) (s1\<lparr>executions := fmdrop eid (executions s1)\<rparr>)
      in fold closeChan (mapGet [] (eventWatchers s2) eid) s2)"
  have l: "ledgers s3 = ledgers s" by (simp add: s3_def Let_def c dropDone_def ledger)
  have "replayReceipts (rollbackCreatedExecution now eid s) = fmdrop eid (replayReceipts s3)"
    "replayEntryIdx (rollbackCreatedExecution now eid s) = fmdrop eid (replayEntryIdx s3)"
    "admissions (rollbackCreatedExecution now eid s) = mapFilter (\<lambda>_ a. ae_executionID a \<noteq> eid) (admissions s3)"
    by (simp_all add: rollbackCreatedExecution_def s3_def Let_def)
  then show "receiptsOf (rollbackCreatedExecution now eid s) x = receiptsOf s x"
    "entryIdxOf (rollbackCreatedExecution now eid s) x = entryIdxOf s x"
    "fmlookup (admissions s) key = Some a \<Longrightarrow> ae_executionID a = x \<Longrightarrow>
      fmlookup (admissions (rollbackCreatedExecution now eid s)) key = Some a"
    using l assms by (auto simp: ledgers_def receiptsOf_def entryIdxOf_def mapGet_def)
qed

section \<open>Receipts\<close>

text \<open>The receipt of a successful replay, found from its entry.\<close>

definition replayedAs :: "ExecutionID \<Rightarrow> string \<Rightarrow> string \<Rightarrow> memoryReplayReceipt \<Rightarrow> memoryState \<Rightarrow> bool" where
  "replayedAs eid i rid rc s \<longleftrightarrow> fmlookup (receiptsOf s eid) rid = Some rc \<and> mapGet '''' (entryIdxOf s eid) i = rid"

lemma replayedAs_ledgers: "replayReceipts s' = replayReceipts s \<Longrightarrow> replayEntryIdx s' = replayEntryIdx s \<Longrightarrow>
    replayedAs eid i rid rc s \<Longrightarrow> replayedAs eid i rid rc s'"
  by (simp add: replayedAs_def receiptsOf_def entryIdxOf_def)

lemma failure_admissions: "admissions (fst (RecordOutboxFailure eid e m s)) = admissions s"
  by (simp add: RecordOutboxFailure_def Let_def split: option.split)

lemma replay_admissions: "admissions (fst (ReplayDeadLetter now req s)) = admissions s"
  by (simp add: ReplayDeadLetter_def writeReplayReceiptLocked_def moveDeadToReady_def Let_def split: option.split)

text \<open>Only the dead-lettering of the entry itself clears the way for another replay of it.\<close>

lemma failure_replayedAs:
  assumes "replayedAs eid i rid rc s" "rid \<noteq> ''''" "fmlookup (deadOf (fst (RecordOutboxFailure x e m s)) eid) i = None"
  shows "replayedAs eid i rid rc (fst (RecordOutboxFailure x e m s))"
proof -
  have "receiptsOf (fst (RecordOutboxFailure x e m s)) eid = receiptsOf s eid"
    by (simp add: RecordOutboxFailure_def Let_def receiptsOf_def split: option.split)
  moreover have "mapGet '''' (entryIdxOf (fst (RecordOutboxFailure x e m s)) eid) i = mapGet '''' (entryIdxOf s eid) i"
    using assms(3)
    by (auto simp: RecordOutboxFailure_def Let_def entryIdxOf_def deadOf_def mapGet_def split: option.splits if_splits)
  ultimately show ?thesis using assms(1) by (simp add: replayedAs_def)
qed

lemma replay_replayedAs:
  assumes "replayedAs eid i rid rc s" "rid \<noteq> ''''" "i \<noteq> ''''"
  shows "replayedAs eid i rid rc (fst (ReplayDeadLetter now req s))"
proof (cases "rq_EntryID req = '''' \<or> priorReceipt s req \<noteq> None \<or> fmlookup (deadOf s (rq_ExecutionID req)) (rq_EntryID req) = None")
  case True
  then have "fst (ReplayDeadLetter now req s) = s" by (auto simp: ReplayDeadLetter_def Let_def split: option.split)
  then show ?thesis using assms(1) by simp
next
  case False
  then have n: "fmlookup (receiptsOf s (rq_ExecutionID req)) (effectiveRequestID req) = None"
    "rq_ExecutionID req = eid \<Longrightarrow> rq_EntryID req \<noteq> i"
    using assms by (auto simp: priorReceipt_def replayedAs_def Let_def split: option.splits if_splits)
  then have r: "rq_ExecutionID req = eid \<Longrightarrow> effectiveRequestID req \<noteq> rid" using assms(1) by (auto simp: replayedAs_def)
  show ?thesis
    using False assms(1) n(2) r
    by (auto simp: ReplayDeadLetter_def writeReplayReceiptLocked_def moveDeadToReady_def replayedAs_def receiptsOf_def entryIdxOf_def
        Let_def split: option.split)
qed

end
