(* ===== verification/StoreRuns.thy ===== *)
theory StoreRuns
  imports Ledgers
begin

text \<open>
  The local store as a state machine.  A step is one critical section of the store's
  mutex, with any arguments, at any time and in any order; an operation that lets go
  of the mutex in between, as the creation of an execution does around the insert of
  its durable row, is several steps, and other operations run between them.  The
  state is the store together with the creations in flight.
\<close>

section \<open>Runs of a step system\<close>

text \<open>A step system whose steps all keep a reflexive and transitive relation: so
  does every run.\<close>

locale kept_steps =
  fixes step :: "'s \<Rightarrow> 's \<Rightarrow> bool" and keeps :: "'s \<Rightarrow> 's \<Rightarrow> bool"
  assumes keeps_refl: "keeps s s"
    and keeps_trans: "keeps s s1 \<Longrightarrow> keeps s1 s2 \<Longrightarrow> keeps s s2"
    and step_keeps: "step s s' \<Longrightarrow> keeps s s'"
begin

lemma run_keeps: "step\<^sup>*\<^sup>* s s' \<Longrightarrow> keeps s s'"
  by (induction rule: rtranclp_induct) (blast intro: keeps_refl keeps_trans step_keeps)+

lemma run_invariant: "step\<^sup>*\<^sup>* s s' \<Longrightarrow> (\<And>a b. keeps a b \<Longrightarrow> P a \<Longrightarrow> P b) \<Longrightarrow> P s \<Longrightarrow> P s'"
  using run_keeps by blast

end

section \<open>Critical sections\<close>

text \<open>The operations that finish in one critical section.  The one guard is what the
  engine ensures of its calls: a cyclic completion names an end.  Some operations are
  followed by the projection of their result to the durable store, which takes the
  mutex twice more and changes the bookkeeping of the mirror only; the definitions
  have it at the end.  The last rule changes that bookkeeping at any time and in any
  way, so that every moment at which the source may run those two sections is
  covered.\<close>

inductive opStep :: "memoryState \<Rightarrow> memoryState \<Rightarrow> bool" where
  status: "opStep s (UpdateExecutionStatus now eid st err s)"
| expireQueued: "opStep s (fst (ExpireQueuedExecutions now limit order s))"
| pause: "opStep s (fst (PauseExecution now eid s))"
| resume: "opStep s (fst (ResumeExecution now eid s))"
| listCanceling: "opStep s (fst (ListCancelingExecutions now limit s))"
| listDeadlines: "opStep s (fst (ListDeadlineExceededExecutions now limit s))"
| ackDeadline: "opStep s (AckDeadlineExpired eid s)"
| watch: "opStep s (snd (WatchExecution eid s))"
| publish: "opStep s (PublishExecutionEvent event s)"
| unwatch: "opStep s (removeWatcherLocked eid c s)"
| awaitDone: "opStep s (waitDone eid s)"
| leaseOutbox: "opStep s (fst (LeaseOutbox s eid now limit))"
| renewOutbox: "opStep s (fst (RenewOutbox s eid entries now))"
| ackOutbox: "opStep s (AckOutbox eid i s)"
| releaseOutbox: "opStep s (ReleaseOutbox eid entry s)"
| recordFailure: "opStep s (fst (RecordOutboxFailure eid entry limit s))"
| replay: "opStep s (fst (ReplayDeadLetter now rreq s))"
| upsert: "opStep s (UpsertNode now n s)"
| cancelSuspended: "opStep s (snd (CancelSuspendedNode now eid name s))"
| acquire: "opStep s (snd (AcquireTaskLease lease s))"
| acquireChecked: "opStep s (snd (AcquireTaskLeaseChecked b lease s))"
| claimLease: "opStep s (snd (ClaimTaskLease lease s))"
| renewLease: "opStep s (snd (RenewTaskLease now eid name tok deadline s))"
| revokeLease: "opStep s (snd (RevokeLease eid name tok s))"
| revokeWithOutbox: "opStep s (snd (RevokeLeaseWithOutbox now eid name tok entry s))"
| resetWithOutbox: "opStep s (snd (ResetNodeForRetryWithOutbox now eid name tok entry s))"
| decrement: "opStep s (snd (DecrementInDegree eid u b s))"
| commit: "(cn_CyclicComplete creq \<longrightarrow> isTerminalStatus (cn_CyclicFinalStatus creq)) \<Longrightarrow> opStep s (snd (CommitNode now creq s))"
| advance: "opStep s (snd (AdvanceNode now areq s))"
| suspendOrConsume: "opStep s (snd (SuspendOrConsume eid name spec s))"
| suspendLease: "opStep s (snd (SuspendTaskLease now now' leaseP out st pr specP old s))"
| deliver: "opStep s (snd (DeliverSignal order eid sig d s))"
| deliverWithOutbox: "opStep s (snd (DeliverSignalWithOutbox now order eid sig d i s))"
| revokeSignal: "opStep s (snd (RevokeSignal eid sig s))"
| resuspend: "opStep s (snd (ResuspendAtomic eid name sig spec s))"
| resumeLock: "opStep s (snd (AcquireResumeLock eid name s))"
| putOutput: "opStep s (PutOutput eid name d s)"
| createSub: "opStep s (CreateSubExecution sub s)"
| completeSub: "opStep s (snd (CompleteSubExecution eid name child st' d s))"
| acquireGroup: "opStep s (snd (AcquireGroupLease glease s))"
| renewGroup: "opStep s (snd (RenewGroupLease eid u tok deadline s))"
| expireGroup: "opStep s (snd (ExpireGroupLease eid u tok s))"
| revokeGroup: "opStep s (snd (RevokeGroupLeaseWithOutbox now eid u tok entry s))"
| commitGroup: "opStep s (snd (CommitGroup now greq s))"
| claimKey: "opStep s (snd (ClaimIdempotency now ireq s))"
| confirmKey: "opStep s (ConfirmIdempotency eid tok s)"
| releaseKey: "opStep s (ReleaseIdempotency eid tok s)"
| expandWithOutbox: "opStep s (snd (BeginTaskExpansionWithOutbox now leaseP subs entries s))"
| expand: "opStep s (snd (BeginTaskExpansion leaseP s))"
| createExpanded: "opStep s (snd (CreateExpandedSubExecution leaseP subP s))"
| completeExpanded: "opStep s (snd (CompleteExpandedSubExecution arrange leaseP child st' d s))"
| waitSubWorkflow: "opStep s (snd (BeginSubWorkflowWait now leaseP link entries s))"
| concludeSubWorkflow: "opStep s (snd (RecordSubWorkflowConclusion eid name con s))"
| projection: "opStep s (s\<lparr>mirrorLocks := ml, mirrorSkip := ms, mirrorCreatePending := mp, mirrorConflict := mc\<rparr>)"

lemmas free_operations_keep = listings_keep watch_keep leases_keep outbox_keep ReplayDeadLetter_keeps node_keep DecrementInDegree_keeps
  AdvanceNode_keeps PublishExecutionEvent_keeps signal_keep suspend_keep group_keep idempotency_keep children_keep Pause_keeps

lemma projection_keeps: "opKeeps lim s (s\<lparr>mirrorLocks := ml, mirrorSkip := ms, mirrorCreatePending := mp, mirrorConflict := mc\<rparr>)"
  by (rule opKeeps_frame) (simp_all add: core_def)

lemma opStep_keeps:
  assumes "opStep s s'" "\<And>k. 0 < fst (lim k)"
  shows "opKeeps lim s s'"
  using assms(1)
  by (cases rule: opStep.cases)
    (simp_all only: not_False_eq_True free_operations_keep projection_keeps UpdateExecutionStatus_keeps [where lim = lim, OF assms(2)]
      ExpireQueuedExecutions_keeps [where lim = lim, OF assms(2)] CommitNode_keeps [where lim = lim, OF assms(2)]
      CommitGroup_keeps [where lim = lim, OF assms(2)])

text \<open>Only two of them touch the records of replays.\<close>

lemma opStep_ledgers:
  assumes "opStep s s'"
  shows "ledgers s' = ledgers s \<or> (\<exists>x e m. s' = fst (RecordOutboxFailure x e m s)) \<or> (\<exists>now req. s' = fst (ReplayDeadLetter now req s))"
  using assms by (cases rule: opStep.cases) (simp_all only: ledger simp_thms, blast+)

section \<open>Creations in flight\<close>

text \<open>A creation of an execution holds the mutex for its critical section, then inserts
  the durable row without it, and takes it again to release the intents that the
  insert held back, or, when the row is required and the insert failed, to roll the
  execution back.  A seed's row is not required.\<close>

datatype Flight = InCreate | InSeed

type_synonym Store = "memoryState \<times> (ExecutionID, Flight) fmap"

text \<open>The guards are what the engine ensures of its calls: a created execution has a
  fresh identifier and a status that is not an end, and an admission declares a limit
  within the bounds of its workflow.\<close>

inductive storeStep :: "Limits \<Rightarrow> Store \<Rightarrow> Store \<Rightarrow> bool" for lim :: Limits where
  op: "opStep s s' \<Longrightarrow> storeStep lim (s, fl) (s', fl)"
| create: "fmlookup (executions s) (es_ID e) = None \<Longrightarrow> \<not> isTerminalStatus (es_Status e) \<Longrightarrow>
    storeStep lim (s, fl) (createLocked now hint e s, fmupd (es_ID e) InCreate fl)"
| createWithOutbox: "fmlookup (executions s) (es_ID e) = None \<Longrightarrow> \<not> isTerminalStatus (es_Status e) \<Longrightarrow>
    storeStep lim (s, fl) (snd (createWithOutboxLocked now hint e entries s), fmupd (es_ID e) InCreate fl)"
| createWithConcurrency: "fmlookup (executions s) (es_ID e) = None \<Longrightarrow> withinLimits lim adm \<Longrightarrow>
    createWithConcurrencyLocked now hint e entries adm s = (s', r) \<Longrightarrow>
    storeStep lim (s, fl) (s', case r of Inl err \<Rightarrow> fl | Inr hr \<Rightarrow> fmupd (es_ID e) InCreate fl)"
| seedEntry: "(fmlookup (admissions s) (sf_AdmissionKey req) = None \<Longrightarrow>
      fmlookup (executions s) (DeterministicExecutionID (sf_AdmissionKey req)) = None) \<Longrightarrow>
    (\<And>adm. admission = Some adm \<Longrightarrow> withinLimits lim adm) \<Longrightarrow>
    seedExecutionFromEntryLocked now hint nsCtx req admission s = ((resp, created), s') \<Longrightarrow>
    storeStep lim (s, fl) (s', if created then fmupd (DeterministicExecutionID (sf_AdmissionKey req)) InSeed fl else fl)"
| seed: "(\<And>e. sq_Execution sreq = Some e \<Longrightarrow> fmlookup (executions s) (es_ID e) = None) \<Longrightarrow>
    (\<And>adm. sq_Admission sreq = Some adm \<Longrightarrow> withinLimits lim adm) \<Longrightarrow>
    seedExecution now hint sreq s = (sr, s') \<Longrightarrow>
    storeStep lim (s, fl) (s', case sr of Inl err \<Rightarrow> fl | Inr sp \<Rightarrow> fmupd (es_ID (the (sq_Execution sreq))) InSeed fl)"
| releaseHold: "fmlookup fl eid \<noteq> None \<Longrightarrow> storeStep lim (s, fl) (releaseInitialMirrorHold eid s, fl)"
| rollback: "fmlookup fl eid = Some InCreate \<Longrightarrow> storeStep lim (s, fl) (rollbackCreatedExecution now eid s, fmdrop eid fl)"
| return: "storeStep lim (s, fl) (s, fmdrop eid fl)"

text \<open>An execution exists for good when its own creation can no longer roll it back.\<close>

definition settled :: "Store \<Rightarrow> ExecutionID \<Rightarrow> bool" where
  "settled st x \<longleftrightarrow> statusOf (fst st) x \<noteq> None \<and> fmlookup (snd st) x \<noteq> Some InCreate"

definition storeKeeps :: "Limits \<Rightarrow> Store \<Rightarrow> Store \<Rightarrow> bool" where
  "storeKeeps lim a b \<longleftrightarrow> (storeInv lim (fst a) \<longrightarrow> storeInv lim (fst b)) \<and> (privacyOK (fst a) \<longrightarrow> privacyOK (fst b))
     \<and> (\<forall>x. settled a x \<longrightarrow> settled b x
         \<and> (\<forall>c. statusOf (fst a) x = Some c \<longrightarrow> isTerminalStatus c \<longrightarrow> statusOf (fst b) x = Some c))"

lemma storeKeeps_refl: "storeKeeps lim a a"
  by (simp add: storeKeeps_def)

lemma storeKeeps_trans: "storeKeeps lim a b \<Longrightarrow> storeKeeps lim b c \<Longrightarrow> storeKeeps lim a c"
  unfolding storeKeeps_def by metis

lemma opKeeps_store:
  assumes "opKeeps lim s s'" "\<And>x. statusOf s x \<noteq> None \<Longrightarrow> fmlookup fl' x = Some InCreate \<Longrightarrow> fmlookup fl x = Some InCreate"
  shows "storeKeeps lim (s, fl) (s', fl')"
  using assms unfolding opKeeps_def terminalKept_def storeKeeps_def settled_def fst_conv snd_conv by metis

lemma rollback_keeps:
  assumes "\<And>k. 0 < fst (lim k)" "fmlookup fl eid = Some InCreate"
  shows "storeKeeps lim (s, fl) (rollbackCreatedExecution now eid s, fmdrop eid fl)"
proof -
  have "maybeStarted s (rollbackCreatedExecution now eid s) x" if "settled (s, fl) x" for x
    using that assms(2) by (intro rollback_others) (auto simp: settled_def)
  then have "settled (rollbackCreatedExecution now eid s, fmdrop eid fl) x
      \<and> (\<forall>c. statusOf s x = Some c \<longrightarrow> isTerminalStatus c \<longrightarrow> statusOf (rollbackCreatedExecution now eid s) x = Some c)"
    if "settled (s, fl) x" for x
    using that assms(2) by (fastforce simp: settled_def maybeStarted_def isTerminalStatus_def)
  then show ?thesis
    using rollbackCreatedExecution_inv [where lim = lim and now = now and eid = eid, OF _ assms(1)] rollback_privacy [of s now eid] by (simp add: storeKeeps_def)
qed

lemma storeStep_keeps:
  assumes "storeStep lim a b" "\<And>k. 0 < fst (lim k)"
  shows "storeKeeps lim a b"
  using assms(1)
proof (cases rule: storeStep.cases)
  case (op s s' fl)
  show ?thesis unfolding op(1,2) by (rule opKeeps_store [OF opStep_keeps [where lim = lim, OF op(3) assms(2)]])
next
  case (create s e fl now hint)
  show ?thesis
    unfolding create(1,2) by (rule opKeeps_store [OF create_keeps(1) [OF create(3,4)]]) (use create(3) in \<open>auto simp: statusOf_def split: if_splits\<close>)
next
  case (createWithOutbox s e fl now hint entries)
  show ?thesis
    unfolding createWithOutbox(1,2)
    by (rule opKeeps_store [OF create_keeps(2) [OF createWithOutbox(3,4)]]) (use createWithOutbox(3) in \<open>auto simp: statusOf_def split: if_splits\<close>)
next
  case (createWithConcurrency s e adm now hint entries s' r fl)
  have "opKeeps lim s s'"
    using createWithConcurrency_keeps [where lim = lim, OF assms(2) createWithConcurrency(3,4), of now hint entries] createWithConcurrency(5) by simp
  then show ?thesis
    unfolding createWithConcurrency(1,2) by (rule opKeeps_store) (use createWithConcurrency(3) in \<open>auto simp: statusOf_def split: if_splits sum.splits\<close>)
next
  case (seedEntry s req admission now hint nsCtx resp created s' fl)
  have "opKeeps lim s s'"
    using seedExecutionFromEntry_keeps [where lim = lim and now = now and hint = hint and nsCtx = nsCtx and admission = admission, OF assms(2) seedEntry(3,4)] seedEntry(5) by simp
  then show ?thesis unfolding seedEntry(1,2) by (rule opKeeps_store) (auto split: if_splits)
next
  case (seed sreq s now hint sr s' fl)
  have "opKeeps lim s s'"
    using seedExecution_keeps [where lim = lim and now = now and hint = hint and req = sreq, OF assms(2) seed(3,4)] seed(5) by simp
  then show ?thesis unfolding seed(1,2) by (rule opKeeps_store) (auto split: if_splits sum.splits)
next
  case (releaseHold fl eid s)
  show ?thesis unfolding releaseHold(1,2) by (rule opKeeps_store [OF releaseHold_keeps])
next
  case (rollback fl eid s now)
  show ?thesis unfolding rollback(1,2) by (rule rollback_keeps [where lim = lim, OF assms(2) rollback(3)])
next
  case (return s fl eid)
  show ?thesis unfolding return(1,2) by (rule opKeeps_store) (auto split: if_splits)
qed

interpretation store: kept_steps "storeStep lim" "\<lambda>a b. (\<forall>k. 0 < fst (lim k)) \<longrightarrow> storeKeeps lim a b" for lim
  by unfold_locales (auto intro: storeKeeps_refl storeKeeps_trans storeStep_keeps)

section \<open>Whole operations as runs\<close>

text \<open>A creation that nothing interrupts is a run, so the facts about runs are facts about
  the operations.\<close>

definition mirrorOnly :: "memoryState \<Rightarrow> memoryState \<Rightarrow> bool" where
  "mirrorOnly s s' \<longleftrightarrow> s' = s\<lparr>mirrorLocks := mirrorLocks s', mirrorSkip := mirrorSkip s',
     mirrorCreatePending := mirrorCreatePending s', mirrorConflict := mirrorConflict s'\<rparr>"

lemma mirrorOnly_upd:
  "mirrorOnly s (s\<lparr>mirrorLocks := ml\<rparr>)" "mirrorOnly s (s\<lparr>mirrorSkip := ms\<rparr>)"
  "mirrorOnly s (s\<lparr>mirrorCreatePending := mp\<rparr>)" "mirrorOnly s (s\<lparr>mirrorSkip := ms, mirrorConflict := mc\<rparr>)" "mirrorOnly s s"
  by (simp_all add: mirrorOnly_def)

lemma mirrorOnly_trans:
  assumes "mirrorOnly s s1" "mirrorOnly s1 s2"
  shows "mirrorOnly s s2"
proof -
  have "s1\<lparr>mirrorLocks := ml, mirrorSkip := ms, mirrorCreatePending := mp, mirrorConflict := mc\<rparr>
      = s\<lparr>mirrorLocks := ml, mirrorSkip := ms, mirrorCreatePending := mp, mirrorConflict := mc\<rparr>" for ml ms mp mc
    by (subst assms(1) [unfolded mirrorOnly_def]) simp
  then show ?thesis using assms(2) by (simp only: mirrorOnly_def)
qed

lemma mirrorOnly_sections:
  "mirrorOnly s (snd (beginMirrorMode eid b s))" "mirrorOnly s (finishMirror eid s)" "mirrorOnly s (pruneTransientSkipAfterTerminal eid s)"
  "mirrorOnly s (fst (mirrorCreateExecution ins eid s))" "mirrorOnly s (mirrorSeededExecution ins eid s)"
proof -
  have p: "mirrorOnly s (pruneMirrorStateLocked eid s)" for s by (simp add: pruneMirrorStateLocked_def mirrorOnly_upd)
  then show "mirrorOnly s (pruneTransientSkipAfterTerminal eid s)" by (simp add: pruneTransientSkipAfterTerminal_def mirrorOnly_upd)
  show b: "mirrorOnly s (snd (beginMirrorMode eid b s))" for b by (simp add: beginMirrorMode_def mirrorOnly_upd)
  show f: "mirrorOnly s (finishMirror eid s)" for s
    unfolding finishMirror_def Let_def by (auto intro!: mirrorOnly_upd mirrorOnly_trans [OF _ p] mirrorOnly_trans [OF mirrorOnly_upd(1) mirrorOnly_upd(1)])
  have c: "mirrorOnly s (clearMirrorCreatePending eid s)" "mirrorOnly s (markMirrorConflict eid s)" for s
    by (simp_all add: clearMirrorCreatePending_def markMirrorConflict_def mirrorOnly_upd)
  obtain b1 s1 where m: "beginMirrorMode eid True s = (b1, s1)" by fastforce
  then have s1: "mirrorOnly s s1" using b [of True] by simp
  have k: "mirrorOnly s (finishMirror eid s1)" "mirrorOnly s (finishMirror eid (clearMirrorCreatePending eid s1))"
    "mirrorOnly s (finishMirror eid (markMirrorConflict eid s1))"
    using mirrorOnly_trans [OF s1 f] mirrorOnly_trans [OF s1 mirrorOnly_trans [OF c(1) f]] mirrorOnly_trans [OF s1 mirrorOnly_trans [OF c(2) f]] .
  then show "mirrorOnly s (fst (mirrorCreateExecution ins eid s))" "mirrorOnly s (mirrorSeededExecution ins eid s)"
    using s1 by (simp_all add: mirrorCreateExecution_def mirrorSeededExecution_def projectSeededRow_def m split: bool.split InsertOutcome.split)
qed

lemma mirror_step: "mirrorOnly s s' \<Longrightarrow> storeStep lim (s, fl) (s', fl)"
  unfolding mirrorOnly_def by (metis storeStep.op opStep.projection)

lemmas run_step = converse_rtranclp_into_rtranclp [of "storeStep lim" for lim]

lemma settleCreate_run:
  assumes "fmlookup fl eid = Some InCreate"
  shows "(storeStep lim)\<^sup>*\<^sup>* (s, fl) (fst (settleCreate now hold eid (mirrorCreateExecution ins eid s)), fmdrop eid fl)"
proof -
  obtain s1 err where m: "mirrorCreateExecution ins eid s = (s1, err)" by fastforce
  then have s1: "mirrorOnly s s1" using mirrorOnly_sections(4) [of s ins eid] by simp
  define s2 where "s2 = (if hold then releaseInitialMirrorHold eid s1 else s1)"
  have "(storeStep lim)\<^sup>*\<^sup>* (s1, fl) (s2, fl)"
    using storeStep.releaseHold [of fl eid lim s1] assms by (auto simp: s2_def)
  moreover have "(storeStep lim)\<^sup>*\<^sup>* (s2, fl) (pruneTransientSkipAfterTerminal eid s2, fmdrop eid fl)"
    by (rule run_step, rule mirror_step [OF mirrorOnly_sections(3)], rule r_into_rtranclp, rule storeStep.return)
  ultimately have "(storeStep lim)\<^sup>*\<^sup>* (s1, fl) (pruneTransientSkipAfterTerminal eid s2, fmdrop eid fl)" by simp
  moreover have "(storeStep lim)\<^sup>*\<^sup>* (s1, fl) (rollbackCreatedExecution now eid s1, fmdrop eid fl)"
    by (rule r_into_rtranclp) (rule storeStep.rollback [OF assms])
  ultimately have "(storeStep lim)\<^sup>*\<^sup>* (s1, fl) (fst (settleCreate now hold eid (s1, err)), fmdrop eid fl)"
    by (cases err) (simp_all add: settleCreate_def s2_def)
  then show ?thesis using run_step [OF mirror_step [OF s1]] by (simp add: m)
qed

lemma create_runs:
  assumes "fmlookup (executions s) (es_ID e) = None" "\<not> isTerminalStatus (es_Status e)"
  shows "(storeStep lim)\<^sup>*\<^sup>* (s, fl) (fst (CreateExecution now hint ins e s), fmdrop (es_ID e) fl)"
    "(storeStep lim)\<^sup>*\<^sup>* (s, fl) (fst (CreateExecutionWithOutbox now hint ins e entries s), fmdrop (es_ID e) fl)"
proof -
  have f: "fmdrop (es_ID e) (fmupd (es_ID e) v fl) = fmdrop (es_ID e) fl" for v by (rule fmap_ext) simp
  note r = settleCreate_run [of "fmupd (es_ID e) InCreate fl" "es_ID e" lim, unfolded f, simplified]
  show "(storeStep lim)\<^sup>*\<^sup>* (s, fl) (fst (CreateExecution now hint ins e s), fmdrop (es_ID e) fl)"
    unfolding CreateExecution_def by (rule run_step [OF storeStep.create [OF assms]]) (rule r)
  show "(storeStep lim)\<^sup>*\<^sup>* (s, fl) (fst (CreateExecutionWithOutbox now hint ins e entries s), fmdrop (es_ID e) fl)"
    unfolding CreateExecutionWithOutbox_def case_prod_beta by (rule run_step [OF storeStep.createWithOutbox [OF assms]]) (rule r)
qed

lemma createWithConcurrency_run:
  assumes "fmlookup (executions s) (es_ID e) = None" "withinLimits lim adm" "fmlookup fl (es_ID e) = None"
  shows "(storeStep lim)\<^sup>*\<^sup>* (s, fl) (fst (CreateExecutionWithConcurrency now hint ins e entries adm s), fl)"
proof -
  have f: "fmdrop (es_ID e) (fmupd (es_ID e) v fl) = fl" for v by (rule fmap_ext) (simp add: assms(3))
  note r = settleCreate_run [of "fmupd (es_ID e) InCreate fl" "es_ID e" lim, unfolded f, simplified]
  obtain s1 q where c: "createWithConcurrencyLocked now hint e entries adm s = (s1, q)" by fastforce
  note step = storeStep.createWithConcurrency [OF assms(1,2) c, of fl]
  show ?thesis
  proof (cases q)
    case (Inl err)
    then show ?thesis using step by (auto simp: CreateExecutionWithConcurrency_def c)
  next
    case (Inr hr)
    obtain hold res where hr: "hr = (hold, res)" by fastforce
    have "fst (CreateExecutionWithConcurrency now hint ins e entries adm s)
        = fst (settleCreate now hold (es_ID e) (mirrorCreateExecution ins (es_ID e) s1))"
      by (simp add: CreateExecutionWithConcurrency_def c Inr hr split: prod.split option.split)
    then show ?thesis using run_step [OF step] r Inr by simp
  qed
qed

lemma settleSeed_run:
  assumes "fmlookup fl eid \<noteq> None"
  shows "(storeStep lim)\<^sup>*\<^sup>* (s, fl) (settleSeed ins eid s, fmdrop eid fl)"
  unfolding settleSeed_def
  by (rule run_step [OF mirror_step [OF mirrorOnly_sections(5)]], rule run_step [OF storeStep.releaseHold [OF assms]],
      rule run_step [OF mirror_step [OF mirrorOnly_sections(3)]], rule r_into_rtranclp, rule storeStep.return)

lemma seed_runs:
  assumes "fmlookup (executions s) eid = None" "fmlookup fl eid = None"
  shows "eid = DeterministicExecutionID (sf_AdmissionKey req) \<Longrightarrow> (\<And>adm. admission = Some adm \<Longrightarrow> withinLimits lim adm) \<Longrightarrow>
      (storeStep lim)\<^sup>*\<^sup>* (s, fl) (snd (seedExecutionFromEntry now hint nsCtx ins req admission s), fl)"
    "sq_Execution sreq = Some e \<Longrightarrow> eid = es_ID e \<Longrightarrow> (\<And>adm. sq_Admission sreq = Some adm \<Longrightarrow> withinLimits lim adm) \<Longrightarrow>
      (storeStep lim)\<^sup>*\<^sup>* (s, fl) (snd (SeedExecution now hint ins sreq s), fl)"
proof -
  have f: "fmdrop eid (fmupd eid v fl) = fl" for v by (rule fmap_ext) (simp add: assms(2))
  note r = settleSeed_run [of "fmupd eid InSeed fl" eid lim, unfolded f, simplified]
  {
    assume eid: "eid = DeterministicExecutionID (sf_AdmissionKey req)" and adm: "\<And>adm. admission = Some adm \<Longrightarrow> withinLimits lim adm"
    obtain resp created s1 where c: "seedExecutionFromEntryLocked now hint nsCtx req admission s = ((resp, created), s1)" by (metis surj_pair)
    note step = storeStep.seedEntry [where lim = lim and fl = fl, OF _ adm c, OF assms(1) [unfolded eid], folded eid]
    show "(storeStep lim)\<^sup>*\<^sup>* (s, fl) (snd (seedExecutionFromEntry now hint nsCtx ins req admission s), fl)"
      using step run_step [OF step] r by (cases created) (auto simp: seedExecutionFromEntry_def c eid)
  }
  assume e: "sq_Execution sreq = Some e" "eid = es_ID e" and adm: "\<And>adm. sq_Admission sreq = Some adm \<Longrightarrow> withinLimits lim adm"
  obtain sr s1 where c: "seedExecution now hint sreq s = (sr, s1)" by fastforce
  have "fmlookup (executions s) (es_ID e') = None" if "sq_Execution sreq = Some e'" for e' using that e assms(1) by simp
  note step = storeStep.seed [where lim = lim and fl = fl, OF this adm c]
  show "(storeStep lim)\<^sup>*\<^sup>* (s, fl) (snd (SeedExecution now hint ins sreq s), fl)"
    using step run_step [OF step] r by (cases sr) (auto simp: SeedExecution_def c e)
qed

section \<open>Every reachable store\<close>

lemma privacyOK_new: "privacyOK (newMemoryState b)"
  by (simp add: privacyOK_def newMemoryState_def)

lemma reachable_inv:
  assumes "\<forall>k. 0 < fst (lim k)" "(storeStep lim)\<^sup>*\<^sup>* (newMemoryState b, fmempty) (s, fl)"
  shows "storeInv lim s" "privacyOK s"
  using store.run_keeps [OF assms(2)] assms(1) storeInv_new [of lim b] privacyOK_new [of b] by (simp_all add: storeKeeps_def)

lemma storeInv_facts:
  assumes "storeInv lim s"
  shows "\<not> panicked s"
    and "fmlookup (workflowSlots s) k = Some sl \<Longrightarrow>
      holderCount sl \<le> snd (lim k) \<and> (ws_queued sl \<noteq> [] \<longrightarrow> fst (lim k) \<le> holderCount sl)"
    and "fmlookup (workflowSlots s) k = Some sl \<Longrightarrow> x |\<in>| ws_holders sl \<or> x \<in> set (ws_queued sl) \<Longrightarrow>
      \<exists>c. statusOf s x = Some c \<and> \<not> isTerminalStatus c"
    and "statusOf s x = Some c \<Longrightarrow> fmlookup (doneCh s) x = Some (isTerminalStatus c)"
proof -
  have ok: "slots_ok (workflowSlots s) (slotHolders s) (queued s)" using assms by (simp add: storeInv_def slotPolicy_def slotsOK_def)
  show "\<not> panicked s" using assms by (simp add: storeInv_def chanOK_def)
  show "fmlookup (workflowSlots s) k = Some sl \<Longrightarrow>
      holderCount sl \<le> snd (lim k) \<and> (ws_queued sl \<noteq> [] \<longrightarrow> fst (lim k) \<le> holderCount sl)"
    using assms by (simp add: storeInv_def slotPolicy_def policy_def)
  show "fmlookup (workflowSlots s) k = Some sl \<Longrightarrow> x |\<in>| ws_holders sl \<or> x \<in> set (ws_queued sl) \<Longrightarrow>
      \<exists>c. statusOf s x = Some c \<and> \<not> isTerminalStatus c"
  proof -
    assume sl: "fmlookup (workflowSlots s) k = Some sl" "x |\<in>| ws_holders sl \<or> x \<in> set (ws_queued sl)"
    then have "x \<in> refs s" using slots_okD(3,4) [OF ok sl(1), of x] by (auto simp: refs_def)
    then have "live (executions s) x" using assms by (simp add: storeInv_def)
    then show ?thesis by (auto simp: live_def statusOf_def split: option.splits)
  qed
  show "statusOf s x = Some c \<Longrightarrow> fmlookup (doneCh s) x = Some (isTerminalStatus c)"
    using assms by (force simp: storeInv_def doneOK_def statusOf_def split: option.splits)
qed

text \<open>C3. Whatever critical sections a fresh store runs, in whatever order and at whatever
  times, creations that other operations interrupt and failed inserts included: no
  channel is closed twice or sent to after its close (the run-time panics of the
  source); no workflow has more executions in its slots than the greatest limit its
  submissions declared, and an execution waits for a slot only while at least as many
  are taken as the least limit they declared (with one limit per workflow, only while
  all of them are); every execution that holds a slot or waits for one exists and has
  not ended; the done channel of an execution is closed exactly when the execution has
  ended; and the record of a node whose output is private shows no output.  The
  conditions on the calls: limits are positive and within the bounds \<open>lim\<close>, executions
  are created under identifiers the store does not have and not in an end status, and a
  cyclic completion names an end status.\<close>

theorem reachable_consistent:
  assumes "\<forall>k. 0 < fst (lim k)" "(storeStep lim)\<^sup>*\<^sup>* (newMemoryState b, fmempty) (s, fl)"
  shows "\<not> panicked s
    \<and> (\<forall>k sl. fmlookup (workflowSlots s) k = Some sl \<longrightarrow> holderCount sl \<le> snd (lim k)
      \<and> (ws_queued sl \<noteq> [] \<longrightarrow> fst (lim k) \<le> holderCount sl)
      \<and> (\<forall>x. x |\<in>| ws_holders sl \<or> x \<in> set (ws_queued sl) \<longrightarrow> (\<exists>c. statusOf s x = Some c \<and> \<not> isTerminalStatus c)))
    \<and> (\<forall>x c. statusOf s x = Some c \<longrightarrow> fmlookup (doneCh s) x = Some (isTerminalStatus c))
    \<and> (\<forall>k n. fmlookup (nodes s) k = Some n \<longrightarrow> outputIsPrivateLocked s k \<longrightarrow> ns_Output n = None)"
  using storeInv_facts [OF reachable_inv(1) [OF assms]] reachable_inv(2) [OF assms] by (auto simp: privacyOK_def)

text \<open>C4. An end is final.  Once the creation of an execution can no longer roll it back
  (its create returned, or it was seeded), no run of the store forgets the execution;
  and once it has succeeded, failed, timed out or was canceled, no run gives it another
  status.  The conditions on the calls are those of C3.\<close>

theorem ended_forever:
  assumes "\<forall>k. 0 < fst (lim k)" "(storeStep lim)\<^sup>*\<^sup>* (s, fl) (s', fl')"
    and "statusOf s eid = Some c" "fmlookup fl eid \<noteq> Some InCreate"
  shows "statusOf s' eid \<noteq> None \<and> fmlookup fl' eid \<noteq> Some InCreate \<and> (isTerminalStatus c \<longrightarrow> statusOf s' eid = Some c)"
  using store.run_keeps [OF assms(2)] assms(1,3,4) by (simp add: storeKeeps_def settled_def)

section \<open>What was decided once\<close>

text \<open>An admission key and the execution it names stay together.\<close>

definition admittedAs :: "string \<Rightarrow> admissionEntry \<Rightarrow> Store \<Rightarrow> bool" where
  "admittedAs key a st \<longleftrightarrow> settled st (ae_executionID a) \<and> fmlookup (admissions (fst st)) key = Some a"

lemma storeStep_admitted:
  assumes "storeStep lim a b" "\<And>k. 0 < fst (lim k)" "admittedAs key adm a"
  shows "admittedAs key adm b"
proof -
  have k: "settled b (ae_executionID adm)"
    using storeStep_keeps [where lim = lim, OF assms(1,2)] assms(3) by (simp add: storeKeeps_def admittedAs_def)
  have r: "fmlookup (admissions (fst a)) key = Some adm" "settled a (ae_executionID adm)" using assms(3) by (simp_all add: admittedAs_def)
  from assms(1) have "fmlookup (admissions (fst b)) key = Some adm"
  proof (cases rule: storeStep.cases)
    case (op s s' fl)
    then show ?thesis
      using opStep_ledgers [OF op(3)] r(1) by (auto simp: failure_admissions replay_admissions dest!: admissions_ledgers)
  next
    case (createWithConcurrency s e adm' now hint entries s' r fl)
    then show ?thesis
      using r admissions_ledgers [OF ledgers_create(4) [of now hint e entries adm' s]] by simp
  next
    case (seedEntry s req admission now hint nsCtx resp created s' fl)
    then show ?thesis using r(1) seedEntry_ledgers(3) [OF seedEntry(5)] by simp
  next
    case (seed sreq s now hint sr s' fl)
    then show ?thesis using r(1) admissions_ledgers [OF ledgers_seed [of now hint sreq s]] by simp
  next
    case (rollback fl eid s now)
    then have "ae_executionID adm \<noteq> eid" using r(2) by (auto simp: settled_def)
    then show ?thesis using rollback r(1) rollback_ledgers(3) [of "ae_executionID adm" eid s key adm now] by simp
  qed (use r(1) in \<open>simp_all add: admissions_ledgers [OF ledgers_create(1)] admissions_ledgers [OF ledgers_create(2)]
      admissions_ledgers [OF ledgers_create(5)]\<close>)
  then show ?thesis using k by (simp add: admittedAs_def)
qed

interpretation admissions: kept_steps "storeStep lim" "\<lambda>a b. (\<forall>k. 0 < fst (lim k)) \<longrightarrow> (\<forall>key adm. admittedAs key adm a \<longrightarrow> admittedAs key adm b)" for lim
  by unfold_locales (auto intro: storeStep_admitted)

text \<open>C35. The first writer of an admission key wins.  Once an entry unit's result was
  admitted, then after any run of the store every further admission under the same key,
  whatever its content, clock and concurrency policy, names the execution of the first
  one and changes nothing in the store; it is answered as a duplicate when its result
  hash is the admitted one, and as a conflict otherwise.  The conditions are those of
  C3, and that no create of an execution with the admitted one's identifier is under way
  (its rollback would remove the record).\<close>

theorem admission_first_writer:
  assumes "\<forall>k. 0 < fst (lim k)" "seedExecutionFromEntryLocked now hint nsCtx req admission s = ((r, True), s1)"
    and "fmlookup fl (DeterministicExecutionID (sf_AdmissionKey req)) \<noteq> Some InCreate"
    and "(storeStep lim)\<^sup>*\<^sup>* (s1, fl) (s2, fl2)" "sf_AdmissionKey req' = sf_AdmissionKey req"
  shows "\<exists>resp. seedExecutionFromEntry now' hint' nsCtx' ins req' admission' s2 = (Inr resp, s2)
    \<and> sr_ExecutionID resp = DeterministicExecutionID (sf_AdmissionKey req)
    \<and> sr_Duplicate resp = (sf_ResultHash req' = sf_ResultHash req)
    \<and> sr_State resp = (if sf_ResultHash req' = sf_ResultHash req then AdmissionStateAccepted else AdmissionStateConflict)"
proof -
  define a where "a = \<lparr>ae_executionID = DeterministicExecutionID (sf_AdmissionKey req), ae_resultHash = sf_ResultHash req\<rparr>"
  have "admittedAs (sf_AdmissionKey req) a (s1, fl)"
    using seeded_admission [OF assms(2)] seedEntry_exists [OF assms(2)] assms(3) by (simp add: admittedAs_def settled_def a_def)
  then have "admittedAs (sf_AdmissionKey req) a (s2, fl2)" using admissions.run_keeps [OF assms(4)] assms(1) by blast
  then have "fmlookup (admissions s2) (sf_AdmissionKey req') = Some a" by (simp add: admittedAs_def assms(5))
  from admission_recovered [OF this] show ?thesis by (simp add: admittedBefore_def a_def emptySeedResponse_def Let_def)
qed

text \<open>A step after which the entry is not among the dead letters.\<close>

definition quietStep :: "Limits \<Rightarrow> ExecutionID \<Rightarrow> string \<Rightarrow> Store \<Rightarrow> Store \<Rightarrow> bool" where
  "quietStep lim eid i a b \<longleftrightarrow> storeStep lim a b \<and> fmlookup (deadOf (fst b) eid) i = None"

lemma quietStep_replayed:
  assumes "quietStep lim eid i a b" "\<And>k. 0 < fst (lim k)" "i \<noteq> ''''" "rid \<noteq> ''''"
    and "settled a eid \<and> replayedAs eid i rid rc (fst a)"
  shows "settled b eid \<and> replayedAs eid i rid rc (fst b)"
proof -
  have st: "storeStep lim a b" and dead: "fmlookup (deadOf (fst b) eid) i = None" using assms(1) by (simp_all add: quietStep_def)
  have k: "settled b eid" using storeStep_keeps [where lim = lim, OF st assms(2)] assms(5) by (simp add: storeKeeps_def)
  have r: "replayedAs eid i rid rc (fst a)" "settled a eid" using assms(5) by simp_all
  have l: "replayedAs eid i rid rc s'" if "ledgers s' = ledgers s" "replayedAs eid i rid rc s" for s s'
    using that replayedAs_ledgers [of s' s] by (simp add: ledgers_def)
  from st have "replayedAs eid i rid rc (fst b)"
  proof (cases rule: storeStep.cases)
    case (op s s' fl)
    then show ?thesis
      using opStep_ledgers [OF op(3)] r(1) l [of s' s] dead failure_replayedAs [of eid i rid rc s] replay_replayedAs [of eid i rid rc s] assms(3,4)
      by auto
  next
    case (createWithConcurrency s e adm' now hint entries s' q fl)
    then show ?thesis using r(1) l [OF ledgers_create(4) [of now hint e entries adm' s]] by simp
  next
    case (seedEntry s req admission now hint nsCtx resp created s' fl)
    then show ?thesis using r(1) replayedAs_ledgers [OF seedEntry_ledgers(1,2) [OF seedEntry(5)]] by simp
  next
    case (seed sreq s now hint sr s' fl)
    then show ?thesis using r(1) l [OF ledgers_seed [of now hint sreq s]] by simp
  next
    case (rollback fl x s now)
    then have "eid \<noteq> x" using r(2) by (auto simp: settled_def)
    then show ?thesis using rollback r(1) rollback_ledgers(1,2) [of eid x now s] by (simp add: replayedAs_def)
  qed (use r(1) in \<open>simp_all add: l [OF ledgers_create(1)] l [OF ledgers_create(2)] l [OF ledgers_create(5)]\<close>)
  then show ?thesis using k by simp
qed

interpretation receipts: kept_steps "quietStep lim eid i" "\<lambda>a b. (\<forall>k. 0 < fst (lim k)) \<and> i \<noteq> '''' \<longrightarrow>
    (\<forall>rid rc. rid \<noteq> '''' \<and> settled a eid \<and> replayedAs eid i rid rc (fst a) \<longrightarrow> settled b eid \<and> replayedAs eid i rid rc (fst b))" for lim eid i
  by unfold_locales (blast, blast, use quietStep_replayed in blast)

text \<open>C20. Replaying a dead letter happens once per time it dies.  A request answered
  \<open>replayed\<close> moved the entry from the dead letters to the ready set with its attempts
  reset and no lease.  After any run of the store in which the entry does not become a
  dead letter again, a request for the entry answers \<open>already_replayed\<close>, with the audit
  identifier of that replay, and changes nothing; this holds for a repetition of the
  same request and for a request under an identifier that has no answer of its own yet.
  The conditions are those of C3, and that the create of the execution is over.\<close>

theorem replay_once:
  assumes "\<forall>k. 0 < fst (lim k)" "ReplayDeadLetter now req s = (s1, r)" "rp_Outcome r = ReplayReplayed"
    and "eid = rq_ExecutionID req" "i = rq_EntryID req" "fmlookup fl eid \<noteq> Some InCreate"
    and "(quietStep lim eid i)\<^sup>*\<^sup>* (s1, fl) (s2, fl2)"
    and "rq_ExecutionID req2 = eid" "rq_EntryID req2 = i"
    and "effectiveRequestID req2 = effectiveRequestID req \<or> fmlookup (receiptsOf s2 eid) (effectiveRequestID req2) = None"
  shows "fmlookup (deadOf s1 eid) i = None
    \<and> (\<exists>h. fmlookup (deadOf s eid) i = Some h \<and> fmlookup (outboxOf s1 eid) i = Some (revive h))
    \<and> (\<exists>r2. ReplayDeadLetter now2 req2 s2 = (s2, r2)
          \<and> rp_Outcome r2 = ReplayAlreadyReplayed \<and> rp_AuditID r2 = rp_AuditID r)"
proof -
  obtain h meta where R: "i \<noteq> ''''" "fmlookup (deadOf s eid) i = Some h" "replayGuard s eid meta = None"
      "outbox s1 = fmupd eid (fmupd i (revive h) (outboxOf s eid)) (outbox s)"
      "deadOutbox s1 = storeEntries eid (fmdrop i (deadOf s eid)) (deadOutbox s)"
      "receiptsOf s1 eid = fmupd (effectiveRequestID req) (mkReceipt now req (rp_AuditID r) meta ReplayReplayed) (receiptsOf s eid)"
      "mapGet '''' (entryIdxOf s1 eid) i = effectiveRequestID req"
    using ReplayDeadLetter_replayed [OF assms(2,3)] assms(4,5) by metis
  define rid rc where rid: "rid = effectiveRequestID req" and rc: "rc = mkReceipt now req (rp_AuditID r) meta ReplayReplayed"
  have n: "rid \<noteq> ''''" using effectiveRequestID_nonempty R(1) assms(5) by (simp add: rid)
  have "executions s1 = executions s" using assms(2)
    by (auto simp: ReplayDeadLetter_def writeReplayReceiptLocked_def moveDeadToReady_def Let_def split: if_splits option.splits)
  then have "statusOf s1 eid \<noteq> None" using R(3) by (auto simp: replayGuard_def statusOf_def Let_def split: if_splits option.splits)
  then have "settled (s1, fl) eid \<and> replayedAs eid i rid rc s1" using assms(6) R(6,7) by (simp add: settled_def replayedAs_def rid rc)
  then have "replayedAs eid i rid rc s2" using receipts.run_keeps [OF assms(7)] assms(1) R(1) n by auto
  then have "priorReceipt s2 req2 = Some rc"
    using assms(8,9,10) n by (auto simp: priorReceipt_def replayedAs_def rid Let_def split: option.split)
  then have "ReplayDeadLetter now2 req2 s2 = (s2, receiptResult rc eid)"
    using prior_replay_recovered [of s2 req2] R(1) assms(8,9) by simp
  then show ?thesis
    using R(2,4,5) by (auto simp: receiptResult_def rc mkReceipt_def deadOf_def outboxOf_def)
qed

section \<open>Examples\<close>

definition sampleCreated :: "ExecutionID \<Rightarrow> memoryState \<Rightarrow> memoryState" where
  "sampleCreated eid s = fst (CreateExecution 100 True InsertOK (zeroExecution\<lparr>es_ID := eid, es_Status := ExecutionStatusRunning\<rparr>) s)"

definition sampleEnded :: memoryState where
  "sampleEnded = UpdateExecutionStatus 200 ''a'' ExecutionStatusSuccess ''''
     (snd (WatchExecution ''a'' (sampleCreated ''a'' (newMemoryState True))))"

lemma sampleCreated_run: "fmlookup (executions s) eid = None \<Longrightarrow> (storeStep lim)\<^sup>*\<^sup>* (s, fmempty) (sampleCreated eid s, fmempty)"
  using create_runs(1) [of s "zeroExecution\<lparr>es_ID := eid, es_Status := ExecutionStatusRunning\<rparr>" lim fmempty 100 True InsertOK]
  by (simp add: sampleCreated_def isTerminalStatus_def)

lemma sampleEnded_run: "(storeStep lim)\<^sup>*\<^sup>* (newMemoryState True, fmempty) (sampleEnded, fmempty)"
proof -
  have "fmlookup (executions (newMemoryState True)) ''a'' = None" by code_simp
  note c = sampleCreated_run [OF this, of lim]
  have "(storeStep lim)\<^sup>*\<^sup>* (sampleCreated ''a'' (newMemoryState True), fmempty) (sampleEnded, fmempty)"
    unfolding sampleEnded_def
    by (rule run_step, rule storeStep.op, rule opStep.watch, rule r_into_rtranclp, rule storeStep.op, rule opStep.status)
  then show ?thesis using c by (rule rtranclp_trans [rotated])
qed

theorem reachable_consistent_witness:
  "(\<forall>k::string. 0 < fst ((1::int), (1::int))) \<and> (storeStep (\<lambda>_. (1, 1)))\<^sup>*\<^sup>* (newMemoryState True, fmempty) (sampleEnded, fmempty)
   \<and> statusOf sampleEnded ''a'' = Some ExecutionStatusSuccess
   \<and> fmlookup (doneCh sampleEnded) ''a'' = Some (isTerminalStatus ExecutionStatusSuccess) \<and> \<not> panicked sampleEnded"
proof -
  have "statusOf sampleEnded ''a'' = Some ExecutionStatusSuccess" by code_simp
  then show ?thesis
    using reachable_consistent [of "\<lambda>_. (1, 1)" True sampleEnded fmempty] sampleEnded_run by simp
qed

theorem ended_forever_witness:
  "statusOf sampleEnded ''a'' = Some ExecutionStatusSuccess \<and> isTerminalStatus ExecutionStatusSuccess
   \<and> statusOf (UpdateExecutionStatus 300 ''a'' ExecutionStatusFailed ''late'' (sampleCreated ''c'' sampleEnded)) ''a''
       = Some ExecutionStatusSuccess"
proof -
  have s: "statusOf sampleEnded ''a'' = Some ExecutionStatusSuccess" "fmlookup (executions sampleEnded) ''c'' = None" by code_simp+
  have "(storeStep (\<lambda>_. (1, 1)))\<^sup>*\<^sup>* (sampleEnded, fmempty)
      (UpdateExecutionStatus 300 ''a'' ExecutionStatusFailed ''late'' (sampleCreated ''c'' sampleEnded), fmempty)"
    by (rule rtranclp.rtrancl_into_rtrancl [OF sampleCreated_run [OF s(2)]]) (rule storeStep.op, rule opStep.status)
  from ended_forever [OF _ this s(1)] s show ?thesis by (simp add: isTerminalStatus_def)
qed

text \<open>The condition on the create matters: an execution may run to its end while the
  insert of its row is under way, and the rollback of the failed create then removes
  it.\<close>

lemma ended_rolled_back:
  "\<exists>s fl s' fl'. (storeStep (\<lambda>_. (1, 1)))\<^sup>*\<^sup>* (newMemoryState True, fmempty) (s, fl) \<and> statusOf s ''a'' = Some ExecutionStatusSuccess
     \<and> storeStep (\<lambda>_. (1, 1)) (s, fl) (s', fl') \<and> statusOf s' ''a'' = None"
proof -
  let ?e = "zeroExecution\<lparr>es_ID := ''a'', es_Status := ExecutionStatusRunning\<rparr>"
  let ?c = "createLocked 100 False ?e (newMemoryState True)"
  let ?s = "UpdateExecutionStatus 200 ''a'' ExecutionStatusSuccess '''' ?c"
  have f: "fmlookup (executions (newMemoryState True)) (es_ID ?e) = None" "\<not> isTerminalStatus (es_Status ?e)" by code_simp+
  have "(storeStep (\<lambda>_. (1, 1)))\<^sup>*\<^sup>* (newMemoryState True, fmempty) (?s, fmupd (es_ID ?e) InCreate fmempty)"
    by (rule run_step [OF storeStep.create [OF f]], rule r_into_rtranclp, rule storeStep.op, rule opStep.status)
  moreover have "storeStep (\<lambda>_. (1, 1)) (?s, fmupd (es_ID ?e) InCreate fmempty)
      (rollbackCreatedExecution 300 ''a'' ?s, fmdrop ''a'' (fmupd (es_ID ?e) InCreate fmempty))"
    by (rule storeStep.rollback) simp
  moreover have "statusOf ?s ''a'' = Some ExecutionStatusSuccess" "statusOf (rollbackCreatedExecution 300 ''a'' ?s) ''a'' = None"
    by code_simp+
  ultimately show ?thesis by blast
qed

theorem admission_first_writer_witness:
  "\<exists>resp. seedExecutionFromEntry 200 False '''' InsertOK (sampleEntry\<lparr>sf_ResultHash := ''h2''\<rparr>) None
      (AckDeadlineExpired ''x'' (snd (seedExecutionFromEntryLocked 100 False '''' sampleEntry None (newMemoryState False))))
    = (Inr resp, AckDeadlineExpired ''x'' (snd (seedExecutionFromEntryLocked 100 False '''' sampleEntry None (newMemoryState False))))
    \<and> sr_State resp = AdmissionStateConflict"
proof -
  let ?r = "seedExecutionFromEntryLocked 100 False '''' sampleEntry None (newMemoryState False)"
  have "snd (fst ?r)"
    by (simp add: seedExecutionFromEntryLocked_def Let_def newMemoryState_def sampleEntry_def)
  then have r: "?r = ((fst (fst ?r), True), snd ?r)" by (cases ?r) auto
  have "(storeStep (\<lambda>_. (1, 1)))\<^sup>*\<^sup>* (snd ?r, fmempty) (AckDeadlineExpired ''x'' (snd ?r), fmempty)"
    by (rule r_into_rtranclp, rule storeStep.op, rule opStep.ackDeadline)
  from admission_first_writer [OF _ r _ this, of "sampleEntry\<lparr>sf_ResultHash := ''h2''\<rparr>" 200 False "''''" InsertOK None]
  show ?thesis by (simp add: sampleEntry_def) blast
qed

definition sampleReplayed :: memoryState where
  "sampleReplayed = fst (ReplayDeadLetter unixEpoch sampleReplay sampleDead)"

definition sampleDelivered :: memoryState where
  "sampleDelivered = AckOutbox ''ex'' ''execute/0/0'' sampleReplayed"

theorem replay_once_witness:
  "rp_Outcome (snd (ReplayDeadLetter unixEpoch sampleReplay sampleDead)) = ReplayReplayed
   \<and> (\<exists>r2. ReplayDeadLetter (unixEpoch + 7) (sampleReplay\<lparr>rq_RequestID := ''r2''\<rparr>) sampleDelivered = (sampleDelivered, r2)
        \<and> rp_Outcome r2 = ReplayAlreadyReplayed)"
proof -
  have s: "rp_Outcome (snd (ReplayDeadLetter unixEpoch sampleReplay sampleDead)) = ReplayReplayed"
    "fmlookup (receiptsOf sampleDelivered ''ex'') (effectiveRequestID (sampleReplay\<lparr>rq_RequestID := ''r2''\<rparr>)) = None"
    "fmlookup (deadOf sampleDelivered ''ex'') ''execute/0/0'' = None"
    by code_simp+
  have e: "rq_ExecutionID sampleReplay = ''ex''" "rq_EntryID sampleReplay = ''execute/0/0''" by (simp_all add: sampleReplay_def)
  have "storeStep (\<lambda>_. (1, 1)) (sampleReplayed, fmempty) (sampleDelivered, fmempty)"
    unfolding sampleDelivered_def by (rule storeStep.op, rule opStep.ackOutbox)
  then have "(quietStep (\<lambda>_. (1, 1)) ''ex'' ''execute/0/0'')\<^sup>*\<^sup>* (sampleReplayed, fmempty) (sampleDelivered, fmempty)"
    using s(3) by (intro r_into_rtranclp) (simp add: quietStep_def)
  from replay_once [OF _ prod.collapse [symmetric] s(1) e(1) [symmetric] e(2) [symmetric] _ this [unfolded sampleReplayed_def],
      of "sampleReplay\<lparr>rq_RequestID := ''r2''\<rparr>" "unixEpoch + 7"]
  show ?thesis using s(1,2) by (simp add: e sampleReplayed_def [symmetric]) blast
qed

end
