(* ===== verification/GraphOrder.thy ===== *)
theory GraphOrder
  imports GraphModel "HOL-Library.Multiset"
begin

text \<open>
  The two traversals of the compiled graph: Kahn's algorithm, by which the compiler
  rejects a cyclic workflow (\<open>detectCycle\<close>, engine/graph/compile.go) and a cyclic
  unit graph (\<open>detectUnitCycle\<close>, engine/graph/unit.go), and the depth-first walk
  that collects the branches a merge cancels (\<open>CancelClosure\<close>,
  engine/graph/merge_cancel.go).  An index out of range panics in the source and is
  \<^term>\<open>None\<close> here; both loops are total functions.
\<close>

section \<open>Kahn's algorithm\<close>

text \<open>The loop over the successors of one vertex, with the in-degrees and the queue.\<close>

fun decrementAll :: "int list \<Rightarrow> int list \<Rightarrow> int list \<Rightarrow> (int list \<times> int list) option" where
  "decrementAll [] indeg queue = Some (indeg, queue)"
| "decrementAll (v # vs) indeg queue = (case idx indeg v of
      None \<Rightarrow> None
    | Some d \<Rightarrow> decrementAll vs (indeg[nat v := d - 1]) (if d - 1 = 0 then queue @ [v] else queue))"

text \<open>A vertex enters the queue when its in-degree falls to 0, and so at most once.\<close>

definition openCount :: "int list \<Rightarrow> nat" where
  "openCount indeg = length (filter (\<lambda>d. d > 0) indeg)"

lemma openCount_update:
  "i < length xs \<Longrightarrow> openCount (xs[i := d]) + (if xs ! i > 0 then 1 else 0) = openCount xs + (if d > 0 then 1 else 0)"
proof (induction xs arbitrary: i)
  case (Cons x xs)
  show ?case
  proof (cases i)
    case (Suc j)
    then show ?thesis using Cons.IH [of j] Cons.prems by (simp add: openCount_def)
  qed (simp add: openCount_def)
qed simp

lemma decrementAll_measure:
  "decrementAll vs d q = Some (d', q') \<Longrightarrow> length q' + openCount d' \<le> length q + openCount d"
proof (induction vs arbitrary: d q)
  case (Cons v vs)
  then obtain x where x: "idx d v = Some x" "decrementAll vs (d[nat v := x - 1]) (if x - 1 = 0 then q @ [v] else q) = Some (d', q')"
    by (auto split: option.splits)
  then have "nat v < length d" "x = d ! nat v" by (auto simp: idx_Some_iff)
  then show ?case using Cons.IH [OF x(2)] openCount_update [of "nat v" d "x - 1"] by (auto split: if_splits)
qed simp

function kahn :: "int list list \<Rightarrow> int list \<Rightarrow> int list \<Rightarrow> int \<Rightarrow> int option" where
  "kahn succs indeg [] visited = Some visited"
| "kahn succs indeg (cur # queue) visited = (case idx succs cur of
      None \<Rightarrow> None
    | Some vs \<Rightarrow> (case decrementAll vs indeg queue of
        None \<Rightarrow> None
      | Some (indeg', queue') \<Rightarrow> kahn succs indeg' queue' (visited + 1)))"
  by pat_completeness auto
termination
  by (relation "measure (\<lambda>(succs, indeg, queue, visited). length queue + openCount indeg)")
    (auto dest!: decrementAll_measure)

definition roots :: "int list \<Rightarrow> int list" where
  "roots indeg = map int (filter (\<lambda>i. indeg ! i = 0) [0..<length indeg])"

text \<open>\<open>copy(indeg, xs)\<close> into a fresh slice of the given length.\<close>

definition copied :: "nat \<Rightarrow> int list \<Rightarrow> int list" where
  "copied n xs = take n xs @ replicate (n - length xs) 0"

lemma copied_same [simp]: "length xs = n \<Longrightarrow> copied n xs = xs"
  by (simp add: copied_def)

definition detectUnitCycle :: "Graph \<Rightarrow> (string + unit) option" where
  "detectUnitCycle g =
     (let indeg = copied (length (g_units g)) (g_unitInDegree g)
      in case kahn (map (map ue_DstUnit) (g_unitOutEdges g)) indeg (roots indeg) 0 of
           None \<Rightarrow> None
         | Some visited \<Rightarrow>
             Some (if visited \<noteq> UnitCount g then Inl ''group boundary edges form a cycle across units'' else Inr ()))"

definition detectCycle :: "Graph \<Rightarrow> (string + unit) option" where
  "detectCycle g =
     (let inDeg = copied (length (g_nodes g)) (g_inDegree g)
      in case kahn (map (map e_DstIdx) (g_outEdges g)) inDeg (roots inDeg) 0 of
           None \<Rightarrow> None
         | Some visited \<Rightarrow> Some (if visited \<noteq> NodeCount g then Inl ''workflow contains a cycle'' else Inr ()))"

section \<open>Kahn's algorithm decides acyclicity\<close>

definition edgeRel :: "int list list \<Rightarrow> (int \<times> int) set" where
  "edgeRel succs = {(u, v). 0 \<le> u \<and> u < int (length succs) \<and> v \<in> set (succs ! nat u)}"

definition inRange :: "int list list \<Rightarrow> bool" where
  "inRange succs \<longleftrightarrow> (\<forall>vs\<in>set succs. \<forall>v\<in>set vs. 0 \<le> v \<and> v < int (length succs))"

lemma inRange_at:
  "inRange succs \<Longrightarrow> 0 \<le> u \<Longrightarrow> u < int (length succs) \<Longrightarrow> \<forall>v\<in>set (succs ! nat u). 0 \<le> v \<and> v < int (length succs)"
  by (simp add: inRange_def) (metis nat_less_iff nth_mem)

text \<open>The edges into a vertex from outside a set.\<close>

definition edgesFrom :: "int list list \<Rightarrow> int set \<Rightarrow> int \<Rightarrow> int" where
  "edgesFrom succs V v = (\<Sum>u\<in>{0..<int (length succs)} - V. int (count_list (succs ! nat u) v))"

lemma edgesFrom_zero: "edgesFrom succs V v = 0 \<longleftrightarrow> (\<forall>u. (u, v) \<in> edgeRel succs \<longrightarrow> u \<in> V)"
proof -
  have "edgesFrom succs V v = 0 \<longleftrightarrow> (\<forall>u\<in>{0..<int (length succs)} - V. count_list (succs ! nat u) v = 0)"
    unfolding edgesFrom_def by (subst sum_nonneg_eq_0_iff) auto
  then show ?thesis by (auto simp: edgeRel_def count_list_0_iff)
qed

lemma edgesFrom_insert:
  assumes "0 \<le> cur" "cur < int (length succs)" "cur \<notin> V"
  shows "edgesFrom succs (insert cur V) v = edgesFrom succs V v - int (count_list (succs ! nat cur) v)"
proof -
  have "{0..<int (length succs)} - insert cur V = ({0..<int (length succs)} - V) - {cur}" by auto
  then show ?thesis using assms by (simp add: edgesFrom_def sum_diff1)
qed

lemma edgesFrom_nonneg: "0 \<le> edgesFrom succs V v"
  by (simp add: edgesFrom_def sum_nonneg)

lemma decrementAll_spec:
  assumes "\<forall>v\<in>set vs. 0 \<le> v \<and> v < int (length d)" "\<forall>v\<in>set vs. int (count_list vs v) \<le> d ! nat v"
  shows "\<exists>d' new. decrementAll vs d q = Some (d', q @ new) \<and> length d' = length d \<and> distinct new
    \<and> set new = {v \<in> set vs. d' ! nat v = 0}
    \<and> (\<forall>v. 0 \<le> v \<and> v < int (length d) \<longrightarrow> d' ! nat v = d ! nat v - int (count_list vs v))"
  using assms
proof (induction vs arbitrary: d q)
  case (Cons v vs)
  let ?d = "d[nat v := d ! nat v - 1]" and ?q = "if d ! nat v - 1 = 0 then q @ [v] else q"
  have v: "0 \<le> v" "nat v < length d" and le: "1 + int (count_list vs v) \<le> d ! nat v"
    using Cons.prems by (auto simp: nat_less_iff)
  have at: "?d ! nat w = (if w = v then d ! nat v - 1 else d ! nat w)" if "0 \<le> w" for w
    using v that by (auto simp: nth_list_update eq_nat_nat_iff)
  have rng: "\<forall>w\<in>set vs. 0 \<le> w \<and> w < int (length ?d)" using Cons.prems(1) by simp
  have "int (count_list vs w) \<le> ?d ! nat w" if "w \<in> set vs" for w
  proof -
    have "int (count_list (v # vs) w) \<le> d ! nat w" using Cons.prems(2) that by simp
    then show ?thesis using le rng that by (simp add: at split: if_splits)
  qed
  then have "\<forall>w\<in>set vs. int (count_list vs w) \<le> ?d ! nat w" by blast
  from Cons.IH [OF rng this, of ?q] obtain d' new where r: "decrementAll vs ?d ?q = Some (d', ?q @ new)" "length d' = length ?d"
      "distinct new" "set new = {w \<in> set vs. d' ! nat w = 0}"
      "\<forall>w. 0 \<le> w \<and> w < int (length ?d) \<longrightarrow> d' ! nat w = ?d ! nat w - int (count_list vs w)"
    by (elim exE conjE)
  have eff: "d' ! nat w = d ! nat w - int (count_list (v # vs) w)" if "0 \<le> w" "w < int (length d)" for w
    using r(5) that at [of w] by simp
  have z: "d' ! nat v = d ! nat v - 1 - int (count_list vs v)" using eff [of v] v by (simp add: zless_nat_eq_int_zless)
  have step: "decrementAll (v # vs) d q = Some (d', q @ (if d ! nat v - 1 = 0 then [v] else []) @ new)"
    using r(1) v by (simp add: idx_def zless_nat_eq_int_zless)
  have c0: "d ! nat v - 1 = 0 \<longleftrightarrow> v \<notin> set vs \<and> d' ! nat v = 0"
    using z le count_list_0_iff [of vs v] by auto
  have "distinct ((if d ! nat v - 1 = 0 then [v] else []) @ new)" using r(3,4) c0 by auto
  moreover have "set ((if d ! nat v - 1 = 0 then [v] else []) @ new) = {w \<in> set (v # vs). d' ! nat w = 0}"
    using r(4) c0 by auto
  ultimately show ?case
    using step r(2) eff by (intro exI [of _ d'] exI [of _ "(if d ! nat v - 1 = 0 then [v] else []) @ new"]) simp
qed simp

text \<open>The vertices visited so far, in order, end a topological order: every edge into
  one of them comes from an earlier one.  Those visited or queued are the vertices
  with no edge left from an unvisited one.\<close>

definition topological :: "(int \<times> int) set \<Rightarrow> int list \<Rightarrow> bool" where
  "topological R vs \<longleftrightarrow> (\<forall>k<length vs. \<forall>u. (u, vs ! k) \<in> R \<longrightarrow> u \<in> set (take k vs))"

definition kahnInv :: "int list list \<Rightarrow> int list \<Rightarrow> int list \<Rightarrow> int list \<Rightarrow> bool" where
  "kahnInv succs d q vs \<longleftrightarrow> length d = length succs \<and> distinct (vs @ q) \<and> topological (edgeRel succs) vs
     \<and> set (vs @ q) = {v. 0 \<le> v \<and> v < int (length succs) \<and> d ! nat v = 0}
     \<and> (\<forall>v. 0 \<le> v \<and> v < int (length succs) \<longrightarrow> d ! nat v = edgesFrom succs (set vs) v)"

lemma topological_snoc:
  assumes "topological R vs" "\<forall>u. (u, v) \<in> R \<longrightarrow> u \<in> set vs"
  shows "topological R (vs @ [v])"
  using assms by (auto simp: topological_def nth_append less_Suc_eq)

lemma kahnInv_step:
  assumes inv: "kahnInv succs d (cur # q) vs" and rng: "inRange succs"
  shows "\<exists>d' q'. idx succs cur = Some (succs ! nat cur) \<and> decrementAll (succs ! nat cur) d q = Some (d', q')
    \<and> kahnInv succs d' q' (vs @ [cur])"
proof -
  let ?out = "succs ! nat cur"
  have cur: "0 \<le> cur" "cur < int (length succs)" "d ! nat cur = 0" "cur \<notin> set vs" "cur \<notin> set q"
    and d: "length d = length succs" "\<And>v. 0 \<le> v \<Longrightarrow> v < int (length succs) \<Longrightarrow> d ! nat v = edgesFrom succs (set vs) v"
    and zero: "insert cur (set vs \<union> set q) = {v. 0 \<le> v \<and> v < int (length succs) \<and> d ! nat v = 0}"
    using inv by (auto simp: kahnInv_def)
  have out: "\<forall>v\<in>set ?out. 0 \<le> v \<and> v < int (length d)" using inRange_at [OF rng cur(1,2)] d(1) by simp
  note ins = edgesFrom_insert [OF cur(1,2,4)]
  have "int (count_list ?out v) \<le> d ! nat v" if "v \<in> set ?out" for v
    using ins [of v] edgesFrom_nonneg [of succs "insert cur (set vs)" v] d that out by simp
  then have cnt: "\<forall>v\<in>set ?out. int (count_list ?out v) \<le> d ! nat v" by blast
  from decrementAll_spec [OF out cnt, of q] obtain d' new where r: "decrementAll ?out d q = Some (d', q @ new)" "length d' = length d"
      "distinct new" "set new = {v \<in> set ?out. d' ! nat v = 0}"
      "\<forall>v. 0 \<le> v \<and> v < int (length d) \<longrightarrow> d' ! nat v = d ! nat v - int (count_list ?out v)"
    by (elim exE conjE)
  have pos: "d ! nat v > 0" if "v \<in> set ?out" for v
    using cnt that count_list_0_iff [of ?out v] by (metis gr0I less_le_trans of_nat_0_less_iff)
  have edges: "d' ! nat v = edgesFrom succs (set (vs @ [cur])) v" if "0 \<le> v" "v < int (length succs)" for v
    using r(5) d that ins [of v] by simp
  have same: "d' ! nat v = d ! nat v" if "0 \<le> v" "v < int (length succs)" "v \<notin> set ?out" for v
    using r(5) d(1) that by (simp add: count_list_0_iff)
  have "set new \<inter> insert cur (set vs \<union> set q) = {}" unfolding zero r(4) using pos by fastforce
  then have "distinct ((vs @ [cur]) @ q @ new)" using inv r(3) by (auto simp: kahnInv_def)
  moreover have "set ((vs @ [cur]) @ q @ new) = {v. 0 \<le> v \<and> v < int (length succs) \<and> d' ! nat v = 0}"
  proof -
    have "set ((vs @ [cur]) @ q @ new) = insert cur (set vs \<union> set q) \<union> set new" by auto
    also have "\<dots> = {v. 0 \<le> v \<and> v < int (length succs) \<and> d' ! nat v = 0}"
      unfolding zero r(4) using same pos out d(1) by fastforce
    finally show ?thesis .
  qed
  moreover have "topological (edgeRel succs) (vs @ [cur])"
    using inv d(2) [OF cur(1,2)] cur(3) edgesFrom_zero by (intro topological_snoc) (auto simp: kahnInv_def)
  ultimately have "kahnInv succs d' (q @ new) (vs @ [cur])" using r(2) d(1) edges by (simp add: kahnInv_def)
  then show ?thesis using r(1) cur(1,2) by (simp add: idx_def)
qed

lemma kahn_order:
  assumes "kahnInv succs d q vs" "inRange succs"
  shows "\<exists>d' vs'. kahn succs d q (int (length vs)) = Some (int (length vs')) \<and> kahnInv succs d' [] vs'"
  using assms
proof (induction succs d q "int (length vs)" arbitrary: vs rule: kahn.induct)
  case (2 succs d cur q)
  obtain d' q' where s: "idx succs cur = Some (succs ! nat cur)" "decrementAll (succs ! nat cur) d q = Some (d', q')"
      "kahnInv succs d' q' (vs @ [cur])"
    using kahnInv_step [OF 2(2,3)] by blast
  show ?case using 2(1) [OF s(1,2) refl _ s(3) 2(3)] s(1,2) by (simp add: add.commute)
qed auto

lemma topological_acyclic:
  assumes "topological R vs" "\<forall>u v. (u, v) \<in> R \<longrightarrow> v \<in> set vs" "distinct vs"
  shows "acyclic (R)"
proof (rule acyclic_subset)
  define pos where "pos v = (THE k. k < length vs \<and> vs ! k = v)" for v
  have pos: "pos (vs ! k) = k" if "k < length vs" for k
    unfolding pos_def using that assms(3) by (intro the_equality) (auto simp: nth_eq_iff_index_eq)
  show "R \<subseteq> inv_image less_than pos"
  proof (clarsimp simp: inv_image_def)
    fix u v assume e: "(u, v) \<in> R"
    then obtain k where k: "k < length vs" "v = vs ! k" using assms(2) by (metis in_set_conv_nth)
    then have "u \<in> set (take k vs)" using assms(1) e by (simp add: topological_def)
    then obtain j where "j < k" "u = vs ! j" using k(1) by (auto simp: in_set_conv_nth)
    then show "pos u < pos v" using pos k by simp
  qed
qed (simp add: wf_acyclic wf_inv_image)

text \<open>The number of visited vertices is the number of vertices exactly when the graph
  has no cycle.\<close>

lemma kahn_all:
  assumes "kahnInv succs d [] vs" "inRange succs"
  shows "length vs = length succs \<longleftrightarrow> acyclic (edgeRel succs)"
proof -
  let ?all = "{0..<int (length succs)}"
  have sub: "set vs \<subseteq> ?all" and dist: "distinct vs" and top: "topological (edgeRel succs) vs"
    and zero: "\<And>v. v \<in> ?all \<Longrightarrow> v \<in> set vs \<longleftrightarrow> edgesFrom succs (set vs) v = 0"
    using assms(1) by (auto simp: kahnInv_def)
  have tgt: "v \<in> ?all \<and> u \<in> ?all" if "(u, v) \<in> edgeRel succs" for u v
    using that assms(2) by (auto simp: edgeRel_def inRange_def nat_less_iff)
  have len: "length vs = length succs \<longleftrightarrow> set vs = ?all"
    using sub dist card_subset_eq [of ?all "set vs"] distinct_card [OF dist] by auto
  show ?thesis
  proof
    assume "length vs = length succs"
    then show "acyclic (edgeRel succs)" using len top dist tgt by (intro topological_acyclic) blast+
  next
    assume ac: "acyclic (edgeRel succs)"
    have "finite (edgeRel succs)" by (rule finite_subset [of _ "?all \<times> ?all"]) (use tgt in auto)
    then have wf: "wf (edgeRel succs)" using ac by (rule finite_acyclic_wf)
    have "set vs = ?all"
    proof (rule ccontr)
      assume "set vs \<noteq> ?all"
      then obtain v where "v \<in> ?all - set vs" using sub by blast
      then obtain z where z: "z \<in> ?all - set vs" "\<And>y. (y, z) \<in> edgeRel succs \<Longrightarrow> y \<notin> ?all - set vs"
        using wfE_min [OF wf, of v "?all - set vs"] by blast
      then have "\<forall>u. (u, z) \<in> edgeRel succs \<longrightarrow> u \<in> set vs" using tgt by blast
      then show False using zero [of z] z(1) edgesFrom_zero by blast
    qed
    then show "length vs = length succs" using len by simp
  qed
qed

text \<open>The hypothesis of both callers: the in-degree of a vertex is its number of
  incoming edges.\<close>

definition inDegrees_ok :: "int list list \<Rightarrow> int list \<Rightarrow> bool" where
  "inDegrees_ok succs indeg \<longleftrightarrow> length indeg = length succs \<and> inRange succs
     \<and> (\<forall>v. 0 \<le> v \<and> v < int (length succs) \<longrightarrow> indeg ! nat v = edgesFrom succs {} v)"

lemma kahn_decides:
  assumes "inDegrees_ok succs indeg"
  shows "\<exists>n. kahn succs indeg (roots indeg) 0 = Some n \<and> (n = int (length succs) \<longleftrightarrow> acyclic (edgeRel succs))"
proof -
  have "set (roots indeg) = {v. 0 \<le> v \<and> v < int (length succs) \<and> indeg ! nat v = 0}"
    using assms by (auto simp: roots_def inDegrees_ok_def image_iff) (metis int_nat_eq nat_less_iff)
  then have "kahnInv succs indeg (roots indeg) []"
    using assms by (auto simp: kahnInv_def inDegrees_ok_def topological_def roots_def distinct_map)
  from kahn_order [OF this] kahn_all show ?thesis using assms by (fastforce simp: inDegrees_ok_def)
qed

section \<open>Graphs whose edge lists agree\<close>

text \<open>What the compiler's edge pass leaves: an edge is listed with its source, the
  incoming edges of a node are the listed edges that lead to it, and the in-degree is
  their number.\<close>

definition nodeRel :: "Graph \<Rightarrow> (int \<times> int) set" where
  "nodeRel g = edgeRel (map (map e_DstIdx) (g_outEdges g))"

definition listsWF :: "('e \<Rightarrow> int) \<Rightarrow> ('e \<Rightarrow> int) \<Rightarrow> nat \<Rightarrow> 'e list list \<Rightarrow> 'e list list \<Rightarrow> int list \<Rightarrow> bool" where
  "listsWF src dst n outs ins indeg \<longleftrightarrow> length outs = n \<and> length ins = n \<and> length indeg = n
     \<and> (\<forall>i<n. \<forall>e\<in>set (outs ! i). src e = int i \<and> 0 \<le> dst e \<and> dst e < int n)
     \<and> (\<forall>j<n. mset (ins ! j) = mset (filter (\<lambda>e. dst e = int j) (concat outs)) \<and> indeg ! j = int (length (ins ! j)))"

definition edgesWF :: "Graph \<Rightarrow> bool" where
  "edgesWF g \<longleftrightarrow> listsWF e_SrcIdx e_DstIdx (length (g_nodes g)) (g_outEdges g) (g_inEdges g) (g_inDegree g)"

lemma listsWF_empty: "listsWF src dst n (replicate n []) (replicate n []) (replicate n 0)"
  by (simp add: listsWF_def)

definition appendAt :: "'a list list \<Rightarrow> int \<Rightarrow> 'a \<Rightarrow> 'a list list" where
  "appendAt xs i x = xs[nat i := xs ! nat i @ [x]]"

lemma length_appendAt [simp]: "length (appendAt xs i x) = length xs"
  by (simp add: appendAt_def)

lemma mset_appendAt: "i < length xs \<Longrightarrow> mset (concat (xs[i := xs ! i @ [x]])) = add_mset x (mset (concat xs))"
  by (induction xs arbitrary: i) (auto simp: nth_Cons split: nat.splits)

lemma listsWF_add:
  assumes wf: "listsWF src dst n outs ins indeg" and src: "0 \<le> src e" "src e < int n" and dst: "0 \<le> dst e" "dst e < int n"
  shows "listsWF src dst n (appendAt outs (src e) e) (appendAt ins (dst e) e) (indeg[nat (dst e) := indeg ! nat (dst e) + 1])"
    and "mset (concat (appendAt outs (src e) e)) = add_mset e (mset (concat outs))"
proof -
  let ?i = "nat (src e)" and ?j = "nat (dst e)"
  let ?outs = "appendAt outs (src e) e" and ?ins = "appendAt ins (dst e) e" and ?deg = "indeg[?j := indeg ! ?j + 1]"
  have l: "length outs = n" "length ins = n" "length indeg = n" using wf by (simp_all add: listsWF_def)
  have ij: "?i < n" "?j < n" using src dst by (simp_all add: nat_less_iff)
  show m: "mset (concat ?outs) = add_mset e (mset (concat outs))"
    using mset_appendAt [of ?i outs e] ij l by (simp add: appendAt_def)
  have out: "src x = int k \<and> 0 \<le> dst x \<and> dst x < int n" if "k < n" "x \<in> set (?outs ! k)" for k x
  proof (cases "x \<in> set (outs ! k)")
    case True
    then show ?thesis using wf that(1) by (simp add: listsWF_def)
  next
    case False
    then have "k = ?i" "x = e" using that l ij by (auto simp: appendAt_def nth_list_update split: if_splits)
    then show ?thesis using src dst by simp
  qed
  have ins: "mset (?ins ! k) = mset (filter (\<lambda>x. dst x = int k) (concat ?outs)) \<and> ?deg ! k = int (length (?ins ! k))" if "k < n" for k
  proof -
    have old: "mset (ins ! k) = filter_mset (\<lambda>x. dst x = int k) (mset (concat outs))" "indeg ! k = int (length (ins ! k))"
      using wf that by (simp_all add: listsWF_def)
    show ?thesis
    proof (cases "k = ?j")
      case True
      then have "dst e = int k" using dst(1) by simp
      then have "mset (filter (\<lambda>x. dst x = int k) (concat ?outs)) = add_mset e (mset (ins ! k))"
        unfolding mset_filter m old(1) by simp
      moreover have "?ins ! k = ins ! k @ [e]" "?deg ! k = indeg ! k + 1"
        using True that l by (simp_all add: appendAt_def)
      ultimately show ?thesis using old(2) by simp
    next
      case False
      then have "dst e \<noteq> int k" by auto
      then have "mset (filter (\<lambda>x. dst x = int k) (concat ?outs)) = mset (ins ! k)" unfolding mset_filter m old(1) by simp
      moreover have "?ins ! k = ins ! k" "?deg ! k = indeg ! k" using False by (simp_all add: appendAt_def)
      ultimately show ?thesis using old(2) by simp
    qed
  qed
  show "listsWF src dst n ?outs ?ins ?deg" unfolding listsWF_def using l out ins by (metis length_appendAt length_list_update)
qed

lemma count_concat: "(\<Sum>u\<in>{0..<int (length xs)}. int (count_list (xs ! nat u) v)) = int (count_list (concat xs) v)"
proof (induction xs rule: rev_induct)
  case (snoc x xs)
  have "{0..<int (length (xs @ [x]))} = insert (int (length xs)) {0..<int (length xs)}" by auto
  then have "(\<Sum>u\<in>{0..<int (length (xs @ [x]))}. int (count_list ((xs @ [x]) ! nat u) v))
      = int (count_list x v) + (\<Sum>u\<in>{0..<int (length xs)}. int (count_list ((xs @ [x]) ! nat u) v))" by simp
  also have "(\<Sum>u\<in>{0..<int (length xs)}. int (count_list ((xs @ [x]) ! nat u) v)) = (\<Sum>u\<in>{0..<int (length xs)}. int (count_list (xs ! nat u) v))"
    by (rule sum.cong) (auto simp: nth_append nat_less_iff)
  finally show ?case using snoc by (simp add: count_list_append)
qed simp

lemma count_filter: "count_list (map f xs) v = length (filter (\<lambda>x. f x = v) xs)"
  by (induction xs) auto

lemma edgesFrom_concat: "edgesFrom (map (map f) xs) {} v = int (length (filter (\<lambda>e. f e = v) (concat xs)))"
proof -
  have "edgesFrom (map (map f) xs) {} v = int (count_list (concat (map (map f) xs)) v)"
    using count_concat [of "map (map f) xs" v] by (simp add: edgesFrom_def)
  then show ?thesis by (simp only: map_concat [symmetric] count_filter)
qed

lemma listsWF_inDegrees:
  assumes "listsWF src dst n outs ins indeg"
  shows "inDegrees_ok (map (map dst) outs) indeg"
proof -
  have "inRange (map (map dst) outs)"
    unfolding inRange_def
  proof (intro ballI)
    fix vs v assume "vs \<in> set (map (map dst) outs)" "v \<in> set vs"
    then obtain es e where e: "es \<in> set outs" "e \<in> set es" "v = dst e" by auto
    then obtain i where "i < length outs" "es = outs ! i" by (metis in_set_conv_nth)
    then show "0 \<le> v \<and> v < int (length (map (map dst) outs))" using assms e by (simp add: listsWF_def)
  qed
  moreover have "indeg ! nat v = edgesFrom (map (map dst) outs) {} v" if "0 \<le> v" "v < int (length outs)" for v
  proof -
    have "mset (ins ! nat v) = mset (filter (\<lambda>e. dst e = v) (concat outs))" "indeg ! nat v = int (length (ins ! nat v))"
      using assms that by (simp_all add: listsWF_def nat_less_iff)
    then show ?thesis using mset_eq_length [of "ins ! nat v"] by (simp add: edgesFrom_concat)
  qed
  moreover have "length indeg = length outs" using assms by (simp add: listsWF_def)
  ultimately show ?thesis unfolding inDegrees_ok_def by simp
qed

lemma edgesWF_inDegrees: "edgesWF g \<Longrightarrow> inDegrees_ok (map (map e_DstIdx) (g_outEdges g)) (g_inDegree g)"
  unfolding edgesWF_def by (rule listsWF_inDegrees)

lemma kahn_accepts:
  assumes "edgesWF g" "detectCycle g = Some (Inr ())"
  shows "acyclic (nodeRel g)"
  using kahn_decides [OF edgesWF_inDegrees [OF assms(1)]] assms
  by (auto simp: detectCycle_def nodeRel_def NodeCount_def edgesWF_def listsWF_def split: if_splits)

text \<open>C9. The compiler's cycle check on nodes always ends with an answer, and accepts
  exactly the workflows whose data edges form no cycle.\<close>

theorem detectCycle_exact:
  assumes "edgesWF g"
  shows "\<exists>r. detectCycle g = Some r \<and> (r = Inr () \<longleftrightarrow> acyclic (nodeRel g))"
proof -
  have l: "length (g_inDegree g) = length (g_nodes g)" "length (g_outEdges g) = length (g_nodes g)" using assms by (auto simp: edgesWF_def listsWF_def)
  show ?thesis
    using kahn_decides [OF edgesWF_inDegrees [OF assms]] l by (auto simp: detectCycle_def nodeRel_def NodeCount_def)
qed

section \<open>The branches a merge cancels\<close>

text \<open>The walk of the source: a stack of vertices, each with the number of its incoming
  edges that were looked at; the top of the stack is the head of the list.\<close>

definition remainingEdges :: "Edge list list \<Rightarrow> int \<times> nat \<Rightarrow> nat" where
  "remainingEdges ins f = 1 + (case idx ins (fst f) of None \<Rightarrow> 0 | Some es \<Rightarrow> length es - snd f)"

lemma unseen_update: "idx seen v = Some False \<Longrightarrow> length (filter Not (seen[nat v := True])) < length (filter Not seen)"
proof -
  have "i < length xs \<Longrightarrow> \<not> xs ! i \<Longrightarrow> length (filter Not (xs[i := True])) < length (filter Not xs)" for i and xs :: "bool list"
    by (induction xs arbitrary: i) (auto simp: nth_Cons split: nat.splits)
  then show "idx seen v = Some False \<Longrightarrow> ?thesis" by (simp add: idx_Some_iff nat_less_iff)
qed

function cancelLoop :: "Edge list list \<Rightarrow> int \<Rightarrow> int list \<Rightarrow> bool list \<Rightarrow> (int \<times> nat) list \<Rightarrow> int list option" where
  "cancelLoop ins nodeIdx out seen [] = Some out"
| "cancelLoop ins nodeIdx out seen ((v, next) # stack) = (case idx ins v of
      None \<Rightarrow> None
    | Some edges \<Rightarrow>
        if next < length edges then
          (let src = e_SrcIdx (edges ! next)
           in case idx seen src of
                None \<Rightarrow> None
              | Some True \<Rightarrow> cancelLoop ins nodeIdx out seen ((v, next + 1) # stack)
              | Some False \<Rightarrow> cancelLoop ins nodeIdx out (seen[nat src := True]) ((src, 0) # (v, next + 1) # stack))
        else cancelLoop ins nodeIdx (if v \<noteq> nodeIdx then out @ [v] else out) seen stack)"
  by pat_completeness auto
termination
  by (relation "measures [\<lambda>(ins, t, out, seen, stack). length (filter Not seen),
        \<lambda>(ins, t, out, seen, stack). sum_list (map (remainingEdges ins) stack)]")
    (auto simp: remainingEdges_def unseen_update)

definition CancelClosure :: "Graph \<Rightarrow> int \<Rightarrow> int list option" where
  "CancelClosure g nodeIdx =
     (if g_allowCycles g \<or> nodeIdx < 0 \<or> nodeIdx \<ge> NodeCount g then Some []
      else cancelLoop (g_inEdges g) nodeIdx [] ((replicate (length (g_nodes g)) False)[nat nodeIdx := True]) [(nodeIdx, 0)])"

definition predRel :: "Edge list list \<Rightarrow> (int \<times> int) set" where
  "predRel ins = {(u, v). 0 \<le> v \<and> v < int (length ins) \<and> u \<in> e_SrcIdx ` set (ins ! nat v)}"

text \<open>Of a vertex on the stack: the sources of its edges looked at so far are in the
  result already, but for the one the walk has just descended to.\<close>

fun stackOK :: "Edge list list \<Rightarrow> int list \<Rightarrow> int option \<Rightarrow> (int \<times> nat) list \<Rightarrow> bool" where
  "stackOK ins out child [] \<longleftrightarrow> True"
| "stackOK ins out child ((v, next) # stack) \<longleftrightarrow> 0 \<le> v \<and> v < int (length ins) \<and> next \<le> length (ins ! nat v)
     \<and> (\<forall>j<next. e_SrcIdx (ins ! nat v ! j) \<in> set out \<or> Some (e_SrcIdx (ins ! nat v ! j)) = child)
     \<and> (\<forall>a. child = Some a \<longrightarrow> (a, v) \<in> predRel ins) \<and> stackOK ins out (Some v) stack"

definition walkInv :: "Edge list list \<Rightarrow> int \<Rightarrow> int list \<Rightarrow> bool list \<Rightarrow> (int \<times> nat) list \<Rightarrow> bool" where
  "walkInv ins t out seen stack \<longleftrightarrow> length seen = length ins \<and> 0 \<le> t \<and> t < int (length ins)
     \<and> (\<forall>v. 0 \<le> v \<and> v < int (length ins) \<longrightarrow> (seen ! nat v \<longleftrightarrow> v = t \<or> v \<in> set out \<or> v \<in> fst ` set stack))
     \<and> distinct (out @ map fst stack) \<and> t \<notin> set out \<and> (stack \<noteq> [] \<longrightarrow> fst (last stack) = t)
     \<and> topological (predRel ins) out \<and> stackOK ins out None stack \<and> (\<forall>v\<in>set out. (v, t) \<in> (predRel ins)\<^sup>+)
     \<and> (stack = [] \<longrightarrow> (\<forall>u. (u, t) \<in> predRel ins \<longrightarrow> u \<in> set out))"

lemma stackOK_reaches: "stackOK ins out child ((v, k) # stack) \<Longrightarrow> w \<in> fst ` set ((v, k) # stack) \<Longrightarrow> (v, w) \<in> (predRel ins)\<^sup>*"
proof (induction stack arbitrary: child v k)
  case (Cons f stack)
  obtain x j where f: "f = (x, j)" by fastforce
  show ?case
  proof (cases "w = v")
    case False
    then have "w \<in> fst ` set ((x, j) # stack)" using Cons.prems(2) f by auto
    moreover have "stackOK ins out (Some v) ((x, j) # stack)" using Cons.prems(1) f by simp
    ultimately have "(x, w) \<in> (predRel ins)\<^sup>*" using Cons.IH by blast
    moreover have "(v, x) \<in> predRel ins" using Cons.prems(1) f by simp
    ultimately show ?thesis by (rule converse_rtrancl_into_rtrancl [rotated])
  qed simp
qed simp

lemma stackOK_mono: "stackOK ins out child stack \<Longrightarrow> set out \<subseteq> set out' \<Longrightarrow> stackOK ins out' child stack"
  by (induction stack arbitrary: child) (auto, blast)

lemma stackOK_pop: "stackOK ins out (Some v) stack \<Longrightarrow> v \<in> set out \<Longrightarrow> stackOK ins out None stack"
  by (cases stack) auto

lemma pred_edge:
  "0 \<le> v \<Longrightarrow> v < int (length ins) \<Longrightarrow> k < length (ins ! nat v) \<Longrightarrow> (e_SrcIdx (ins ! nat v ! k), v) \<in> predRel ins"
  by (auto simp: predRel_def)

text \<open>A source that was seen before is in the result: on the stack it would close a
  cycle.\<close>

lemma walk_seen:
  assumes inv: "walkInv ins t out seen ((v, k) # stack)" and ac: "acyclic (predRel ins)"
    and k: "k < length (ins ! nat v)" and seen: "idx seen (e_SrcIdx (ins ! nat v ! k)) = Some True"
  shows "e_SrcIdx (ins ! nat v ! k) \<in> set out"
proof -
  let ?src = "e_SrcIdx (ins ! nat v ! k)"
  have ok: "stackOK ins out None ((v, k) # stack)" using inv by (simp add: walkInv_def)
  have e: "(?src, v) \<in> predRel ins" using ok k by (intro pred_edge) simp_all
  have "last ((v, k) # stack) \<in> set ((v, k) # stack)" by (rule last_in_set) simp
  then have "t \<in> fst ` set ((v, k) # stack)" using inv unfolding walkInv_def by (metis image_eqI list.distinct(1))
  moreover have "?src = t \<or> ?src \<in> set out \<or> ?src \<in> fst ` set ((v, k) # stack)"
    using inv seen by (auto simp: walkInv_def idx_Some_iff)
  moreover have "?src \<notin> fst ` set ((v, k) # stack)"
  proof
    assume "?src \<in> fst ` set ((v, k) # stack)"
    then have "(v, ?src) \<in> (predRel ins)\<^sup>*" using stackOK_reaches [OF ok] by blast
    then have "(v, v) \<in> (predRel ins)\<^sup>+" using e by (rule rtrancl_into_trancl1)
    then show False using ac by (simp add: acyclic_def)
  qed
  ultimately show ?thesis by auto
qed

lemma walk_next:
  assumes inv: "walkInv ins t out seen ((v, k) # stack)" and k: "k < length (ins ! nat v)"
    and out: "e_SrcIdx (ins ! nat v ! k) \<in> set out"
  shows "walkInv ins t out seen ((v, k + 1) # stack)"
  using inv k out by (auto simp: walkInv_def less_Suc_eq)

lemma walk_push:
  assumes inv: "walkInv ins t out seen ((v, k) # stack)" and k: "k < length (ins ! nat v)"
    and src: "src = e_SrcIdx (ins ! nat v ! k)" and seen: "idx seen src = Some False"
  shows "walkInv ins t out (seen[nat src := True]) ((src, 0) # (v, k + 1) # stack)"
proof -
  have ok: "stackOK ins out None ((v, k) # stack)" and len: "length seen = length ins"
    and sn: "\<And>w. 0 \<le> w \<Longrightarrow> w < int (length ins) \<Longrightarrow> seen ! nat w \<longleftrightarrow> w = t \<or> w \<in> set out \<or> w \<in> fst ` set ((v, k) # stack)"
    using inv by (simp_all add: walkInv_def)
  have r: "0 \<le> src" "src < int (length ins)" "\<not> seen ! nat src" using seen len by (auto simp: idx_Some_iff)
  then have new: "src \<noteq> t" "src \<notin> set out" "src \<notin> fst ` set ((v, k) # stack)" using sn by blast+
  have e: "(src, v) \<in> predRel ins" unfolding src using ok k by (intro pred_edge) simp_all
  have "stackOK ins out None ((src, 0) # (v, k + 1) # stack)"
    using ok k r e by (auto simp: src less_Suc_eq)
  moreover have "length (seen[nat src := True]) = length ins" using len by simp
  moreover have "seen[nat src := True] ! nat w \<longleftrightarrow> w = t \<or> w \<in> set out \<or> w \<in> fst ` set ((src, 0) # (v, k + 1) # stack)"
    if "0 \<le> w" "w < int (length ins)" for w
  proof (cases "w = src")
    case True
    then show ?thesis using r len by (simp add: nat_less_iff)
  next
    case False
    then have "nat w \<noteq> nat src" using that r by (simp add: eq_nat_nat_iff)
    then show ?thesis using sn [OF that] False by simp
  qed
  moreover have "distinct (out @ map fst ((src, 0) # (v, k + 1) # stack))" using inv new by (auto simp: walkInv_def)
  moreover have "fst (last ((src, 0) # (v, k + 1) # stack)) = t" using inv by (auto simp: walkInv_def split: if_splits)
  ultimately show ?thesis using inv unfolding walkInv_def by blast
qed

lemma walk_pop:
  assumes inv: "walkInv ins t out seen ((v, k) # stack)" and k: "\<not> k < length (ins ! nat v)"
  shows "walkInv ins t (if v \<noteq> t then out @ [v] else out) seen stack"
proof -
  have ok: "stackOK ins out None ((v, k) # stack)" using inv by (simp add: walkInv_def)
  have "u \<in> set out" if "(u, v) \<in> predRel ins" for u
  proof -
    from that obtain j where "j < length (ins ! nat v)" "u = e_SrcIdx (ins ! nat v ! j)"
      by (auto simp: predRel_def in_set_conv_nth)
    then show ?thesis using ok k by auto
  qed
  note preds = this
  show ?thesis
  proof (cases "v = t")
    case True
    then have "stack = []" using inv by (cases stack rule: rev_cases) (auto simp: walkInv_def)
    then show ?thesis using inv True preds by (auto simp: walkInv_def)
  next
    case False
    then have ne: "stack \<noteq> []" using inv by (auto simp: walkInv_def)
    have "(v, t) \<in> (predRel ins)\<^sup>*"
    proof (rule stackOK_reaches [OF ok])
      have "last ((v, k) # stack) \<in> set ((v, k) # stack)" by (rule last_in_set) simp
      then show "t \<in> fst ` set ((v, k) # stack)" using inv unfolding walkInv_def by (metis image_eqI list.distinct(1))
    qed
    then have "(v, t) \<in> (predRel ins)\<^sup>+" using False by (metis rtranclD)
    moreover have "topological (predRel ins) (out @ [v])" using inv preds by (intro topological_snoc) (auto simp: walkInv_def)
    moreover have "stackOK ins (out @ [v]) None stack"
      by (rule stackOK_pop [of _ _ v], rule stackOK_mono) (use ok in auto)
    ultimately show ?thesis using inv False ne by (auto simp: walkInv_def)
  qed
qed

lemma cancelLoop_walk:
  assumes "walkInv ins t out seen stack" "acyclic (predRel ins)" "inRange (map (map e_SrcIdx) ins)"
  shows "\<exists>out' seen'. cancelLoop ins t out seen stack = Some out' \<and> walkInv ins t out' seen' []"
  using assms
proof (induction ins t out seen stack rule: cancelLoop.induct)
  case (2 ins t out seen v k stack)
  have v: "0 \<le> v" "v < int (length ins)" and len: "length seen = length ins" using 2(4) by (auto simp: walkInv_def)
  then have at: "idx ins v = Some (ins ! nat v)" by (simp add: idx_def)
  note IH = 2(1-3) [OF at] and step = cancelLoop.simps(2) [of ins t out seen v k stack]
  show ?case
  proof (cases "k < length (ins ! nat v)")
    case True
    let ?src = "e_SrcIdx (ins ! nat v ! k)"
    have "\<forall>u\<in>set (map (map e_SrcIdx) ins ! nat v). 0 \<le> u \<and> u < int (length (map (map e_SrcIdx) ins))"
      using 2(6) v by (intro inRange_at) simp_all
    then have "0 \<le> ?src" "?src < int (length seen)" using v len True by simp_all
    then obtain b where b: "idx seen ?src = Some b" by (simp add: idx_def)
    show ?thesis
    proof (cases b)
      case s: True
      have "walkInv ins t out seen ((v, k + 1) # stack)"
        by (rule walk_next [OF 2(4) True]) (rule walk_seen [OF 2(4,5) True], simp add: b s)
      from IH(1) [OF True refl b _ this 2(5,6)] s show ?thesis
        unfolding step by (simp add: at True b s Let_def del: cancelLoop.simps)
    next
      case s: False
      have "walkInv ins t out (seen[nat ?src := True]) ((?src, 0) # (v, k + 1) # stack)"
        by (rule walk_push [OF 2(4) True refl]) (simp add: b s)
      from IH(2) [OF True refl b _ this 2(5,6)] s show ?thesis
        unfolding step by (simp add: at True b s Let_def del: cancelLoop.simps)
    qed
  next
    case False
    from IH(3) [OF False walk_pop [OF 2(4) False] 2(5,6)] show ?thesis
      unfolding step by (simp add: at False del: cancelLoop.simps)
  qed
qed auto

lemma walk_result:
  assumes "walkInv ins t out seen []"
  shows "distinct out" "topological (predRel ins) out" "set out = {u. (u, t) \<in> (predRel ins)\<^sup>+}"
proof -
  show d: "distinct out" "topological (predRel ins) out" using assms by (simp_all add: walkInv_def)
  have cl: "u \<in> set out" if "(u, v) \<in> predRel ins" "v \<in> set out" for u v
    using d(2) that by (metis in_set_conv_nth in_set_takeD topological_def)
  have "u \<in> set out" if "(u, t) \<in> (predRel ins)\<^sup>+" for u
    using that by (induction rule: converse_trancl_induct) (use assms cl in \<open>auto simp: walkInv_def\<close>)
  then show "set out = {u. (u, t) \<in> (predRel ins)\<^sup>+}" using assms by (auto simp: walkInv_def)
qed

lemma edgesWF_pred:
  assumes "edgesWF g"
  shows "predRel (g_inEdges g) = nodeRel g" "inRange (map (map e_SrcIdx) (g_inEdges g))"
proof -
  let ?n = "length (g_nodes g)"
  have l: "length (g_outEdges g) = ?n" "length (g_inEdges g) = ?n" using assms by (simp_all add: edgesWF_def listsWF_def)
  have out: "e_SrcIdx e = int i" "0 \<le> e_DstIdx e" "e_DstIdx e < int ?n" if "i < ?n" "e \<in> set (g_outEdges g ! i)" for i e
    using assms that by (simp_all add: edgesWF_def listsWF_def)
  have ins: "e \<in> set (g_inEdges g ! j) \<longleftrightarrow> e_DstIdx e = int j \<and> e \<in> set (concat (g_outEdges g))" if "j < ?n" for e j
  proof -
    have "mset (g_inEdges g ! j) = mset (filter (\<lambda>e. e_DstIdx e = int j) (concat (g_outEdges g)))"
      using assms that by (simp add: edgesWF_def listsWF_def)
    from mset_eq_setD [OF this] show ?thesis by auto
  qed
  have conc: "e \<in> set (concat (g_outEdges g)) \<longleftrightarrow> 0 \<le> e_SrcIdx e \<and> e_SrcIdx e < int ?n \<and> e \<in> set (g_outEdges g ! nat (e_SrcIdx e))" for e
  proof
    assume "e \<in> set (concat (g_outEdges g))"
    then obtain es where "es \<in> set (g_outEdges g)" "e \<in> set es" by auto
    then obtain i where i: "i < ?n" "e \<in> set (g_outEdges g ! i)" using l(1) by (metis in_set_conv_nth)
    then show "0 \<le> e_SrcIdx e \<and> e_SrcIdx e < int ?n \<and> e \<in> set (g_outEdges g ! nat (e_SrcIdx e))" using out(1) [OF i] by simp
  qed (use l(1) in \<open>auto simp: nat_less_iff\<close>)
  have mem: "(u, v) \<in> predRel (g_inEdges g) \<longleftrightarrow> (u, v) \<in> nodeRel g" for u v
  proof
    assume "(u, v) \<in> predRel (g_inEdges g)"
    then obtain e where "0 \<le> v" "v < int ?n" "e \<in> set (g_inEdges g ! nat v)" "u = e_SrcIdx e" by (auto simp: predRel_def l)
    then show "(u, v) \<in> nodeRel g" using ins [of "nat v" e] conc [of e] by (auto simp: nodeRel_def edgeRel_def l nat_less_iff)
  next
    assume "(u, v) \<in> nodeRel g"
    then obtain e where e: "0 \<le> u" "u < int ?n" "e \<in> set (g_outEdges g ! nat u)" "v = e_DstIdx e"
      by (auto simp: nodeRel_def edgeRel_def l nat_less_iff)
    then have "nat u < ?n" by (simp add: nat_less_iff)
    note o = out [OF this e(3)]
    then have "e \<in> set (g_inEdges g ! nat v)" using ins [of "nat v" e] conc [of e] e by (simp add: nat_less_iff)
    then show "(u, v) \<in> predRel (g_inEdges g)" using o e by (auto simp: predRel_def l)
  qed
  then show "predRel (g_inEdges g) = nodeRel g" by auto
  show "inRange (map (map e_SrcIdx) (g_inEdges g))"
    unfolding inRange_def
  proof (intro ballI)
    fix vs v assume "vs \<in> set (map (map e_SrcIdx) (g_inEdges g))" "v \<in> set vs"
    then obtain es e where e: "es \<in> set (g_inEdges g)" "e \<in> set es" "v = e_SrcIdx e" by auto
    then obtain j where "j < ?n" "es = g_inEdges g ! j" using l(2) by (metis in_set_conv_nth)
    then show "0 \<le> v \<and> v < int (length (map (map e_SrcIdx) (g_inEdges g)))" using ins [of j e] conc [of e] e l(2) by simp
  qed
qed

text \<open>C10. The branches a firing merge may have to cancel are exactly the nodes that can
  reach it, each listed once, and listed after everything that can reach it in turn:
  walking the list front to back settles a node's ancestors before the node.  The
  walk ends on every graph that passed the cycle check.\<close>

theorem cancel_closure_exact:
  assumes "edgesWF g" "detectCycle g = Some (Inr ())" "\<not> g_allowCycles g" "0 \<le> nodeIdx" "nodeIdx < NodeCount g"
  shows "\<exists>out. CancelClosure g nodeIdx = Some out \<and> distinct out \<and> set out = {u. (u, nodeIdx) \<in> (nodeRel g)\<^sup>+}
    \<and> nodeIdx \<notin> set out \<and> topological (nodeRel g) out"
proof -
  have ac: "acyclic (nodeRel g)" using kahn_accepts [OF assms(1,2)] .
  have l: "length (g_inEdges g) = length (g_nodes g)" using assms(1) by (simp add: edgesWF_def listsWF_def)
  let ?seen = "(replicate (length (g_nodes g)) False)[nat nodeIdx := True]"
  have "?seen ! nat v \<longleftrightarrow> v = nodeIdx" if "0 \<le> v" "v < int (length (g_inEdges g))" for v
    using that assms(4,5) l by (simp add: NodeCount_def nth_list_update nat_less_iff eq_nat_nat_iff)
  then have "walkInv (g_inEdges g) nodeIdx [] ?seen [(nodeIdx, 0)]"
    using assms(4,5) l by (simp add: walkInv_def NodeCount_def topological_def)
  then obtain out seen' where o: "cancelLoop (g_inEdges g) nodeIdx [] ?seen [(nodeIdx, 0)] = Some out"
      "walkInv (g_inEdges g) nodeIdx out seen' []"
    using cancelLoop_walk edgesWF_pred [OF assms(1)] ac by metis
  moreover have "nodeIdx \<notin> {u. (u, nodeIdx) \<in> (nodeRel g)\<^sup>+}" using ac by (simp add: acyclic_def)
  ultimately show ?thesis
    using walk_result [OF o(2)] edgesWF_pred(1) [OF assms(1)] assms(3-5) by (simp add: CancelClosure_def)
qed

end
