(* ===== verification/GraphCompile.thy ===== *)
theory GraphCompile
  imports GraphOrder
begin

text \<open>
  The compiler's edge pass and the policies it resolves per node (engine/graph/compile.go,
  input_ports.go, merge_cancel.go): the edge lists and in-degrees from the declared
  connections, the declared input ports, the effective retry, error and runner-selector
  settings, and the policy of a merge.  A rejection is a value of \<open>CompileError\<close>; an
  index out of range, a panic in the source, is one of its constructors, so that the
  theorems can say that it does not happen.
\<close>

section \<open>Definitions of a workflow\<close>

record PortDecl =
  pd_Name :: string
  pd_Required :: bool

record Connection =
  co_Node :: string
  co_Input :: string

record PortConnections =
  pc_Type :: string
  pc_Targets :: "Connection list"

record NodeDef =
  nd_Name :: string
  nd_Type :: string
  nd_Kind :: string
  nd_OnError :: string
  nd_RunnerSelector :: "RunnerSelector option"
  nd_Inputs :: "PortDecl list"
  nd_Parameters :: data
  nd_Retry :: "RetrySettings option"

record WorkflowSettings =
  st_OnError :: string
  st_Retry :: "RetrySettings option"

record WorkflowDef =
  wd_Nodes :: "NodeDef list"
  wd_Connections :: "(string, (string, PortConnections) fmap) fmap"
  wd_Settings :: "WorkflowSettings option"
  wd_RunnerSelector :: "RunnerSelector option"

record dependencyPort =
  dp_srcName :: string
  dp_targets :: "Connection list"

datatype GroupError =
    GroupNameReserved string
  | GroupOnErrorUnsupported string string
  | GroupRoutesNowhere string
  | GroupRouteUnused string string
  | GroupRetryUnsupported string
  | GroupNoMembers
  | UnknownMember string
  | DuplicateMember string
  | MemberOfAnotherGroup string
  | MemberSelector string
  | MemberReplicas string
  | MemberSupply string
  | MemberSubWorkflow string
  | TooManyTriggers nat
  | TooManyEntries nat
  | NoSingleEntry nat
  | EntryMissesMembers string nat nat
  | ErrorTargetUnknown string string
  | ErrorTargetMember string string
  | ErrorTargetSupply string string
  | ErrorTargetTwice string string string

datatype CompileError =
    UnknownSource string
  | UnknownDestination string
  | UnsupportedConnectionType string string string
  | DependencyNotSupply string string
  | DependencyWithInput string string
  | SupplyEmits string string
  | SupplyReceives string string string
  | UndeclaredPort string string string
  | RequiredPortOpen string string
  | BadOnError string string
  | BadRetryStrategy string string
  | BadSelectorMode
  | SelectorModeOnNode
  | EmptyLabelKey
  | EmptyLabelValue string
  | LabelConflict string
  | BadOnOthers string
  | GroupRejected GroupError
  | IndexPanic

definition andThen :: "'e + 'a \<Rightarrow> ('a \<Rightarrow> 'e + 'b) \<Rightarrow> 'e + 'b" where
  "andThen r f = (case r of Inl e \<Rightarrow> Inl e | Inr x \<Rightarrow> f x)"

lemma andThen_simps [simp]: "andThen (Inl e) f = Inl e" "andThen (Inr x) f = f x"
  by (simp_all add: andThen_def)

lemma andThen_Inr: "andThen r f = Inr y \<longleftrightarrow> (\<exists>x. r = Inr x \<and> f x = Inr y)"
  by (cases r) simp_all

lemma andThen_Inl: "andThen r f = Inl e \<longleftrightarrow> r = Inl e \<or> (\<exists>x. r = Inr x \<and> f x = Inl e)"
  by (cases r) simp_all

text \<open>A range loop that returns at the first error.\<close>

fun foldE :: "('x \<Rightarrow> 's \<Rightarrow> 'e + 's) \<Rightarrow> 'x list \<Rightarrow> 's \<Rightarrow> 'e + 's" where
  "foldE f [] s = Inr s"
| "foldE f (x # xs) s = andThen (f x s) (foldE f xs)"

definition atIdx :: "'a list \<Rightarrow> int \<Rightarrow> CompileError + 'a" where
  "atIdx xs i = (case idx xs i of None \<Rightarrow> Inl IndexPanic | Some x \<Rightarrow> Inr x)"

lemma atIdx_Inr [simp]: "atIdx xs i = Inr x \<longleftrightarrow> 0 \<le> i \<and> i < int (length xs) \<and> x = xs ! nat i"
  by (auto simp: atIdx_def idx_def)

lemma atIdx_Inl [simp]: "atIdx xs i = Inl e \<longleftrightarrow> e = IndexPanic \<and> \<not> (0 \<le> i \<and> i < int (length xs))"
  by (auto simp: atIdx_def idx_def)

section \<open>Declared input ports\<close>

definition DefaultInputPort :: string where
  "DefaultInputPort = ''main''"

definition targetPort :: "string \<Rightarrow> string" where
  "targetPort label = (if label = '''' then DefaultInputPort else label)"

record nodeInputPorts =
  ip_declared :: "string list"
  ip_required :: "string list"

text \<open>The declared ports are a set in the source; here they are listed in order of
  declaration, each once.\<close>

definition addPort :: "PortDecl \<Rightarrow> nodeInputPorts \<Rightarrow> nodeInputPorts" where
  "addPort d p =
     (let name = targetPort (pd_Name d)
      in if name \<in> set (ip_declared p) then p
         else p\<lparr>ip_declared := ip_declared p @ [name],
                ip_required := (if pd_Required d then ip_required p @ [name] else ip_required p)\<rparr>)"

definition declaredInputPorts :: "NodeDef \<Rightarrow> nodeInputPorts option" where
  "declaredInputPorts node =
     (if nd_Inputs node = [] then None
      else Some (fold addPort (nd_Inputs node) \<lparr>ip_declared = [], ip_required = []\<rparr>))"

definition validateEdgeTarget :: "nodeInputPorts option \<Rightarrow> string \<Rightarrow> string \<Rightarrow> string \<Rightarrow> CompileError + unit" where
  "validateEdgeTarget p srcName dstName label = (case p of
      None \<Rightarrow> Inr ()
    | Some ports \<Rightarrow>
        if targetPort label \<in> set (ip_declared ports) then Inr ()
        else Inl (UndeclaredPort srcName dstName (targetPort label)))"

definition requirePorts :: "string \<Rightarrow> Edge list \<Rightarrow> nodeInputPorts \<Rightarrow> CompileError + unit" where
  "requirePorts name incoming ports =
     (let connected = map (\<lambda>e. targetPort (e_DstPort e)) incoming
      in case filter (\<lambda>req. req \<notin> set connected) (ip_required ports) of
           [] \<Rightarrow> Inr ()
         | req # _ \<Rightarrow> Inl (RequiredPortOpen name req))"

text \<open>The warnings of the source are the names of the nodes it warns about.\<close>

definition validateNodePorts :: "Graph \<Rightarrow> NodeDef \<Rightarrow> string list \<Rightarrow> CompileError + string list" where
  "validateNodePorts g node warnings = (case fmlookup (g_index g) (nd_Name node) of
      None \<Rightarrow> Inr warnings
    | Some i \<Rightarrow> andThen (atIdx (g_inEdges g) i) (\<lambda>incoming. case declaredInputPorts node of
        None \<Rightarrow> Inr (if length incoming > 1 then warnings @ [nd_Name node] else warnings)
      | Some ports \<Rightarrow> andThen (requirePorts (nd_Name node) incoming ports) (\<lambda>_. Inr warnings)))"

definition validateInputPorts :: "WorkflowDef \<Rightarrow> Graph \<Rightarrow> CompileError + string list" where
  "validateInputPorts def g = foldE (validateNodePorts g) (wd_Nodes def) []"

section \<open>Edges\<close>

definition NodeKindSupply :: string where
  "NodeKindSupply = ''supply''"

definition ConnectionTypeData :: string where
  "ConnectionTypeData = ''data''"

definition ConnectionTypeDependency :: string where
  "ConnectionTypeDependency = ''dependency''"

definition addEdge :: "Edge \<Rightarrow> Graph \<Rightarrow> Graph" where
  "addEdge edge g =
     g\<lparr>g_outEdges := appendAt (g_outEdges g) (e_SrcIdx edge) edge,
       g_inEdges := appendAt (g_inEdges g) (e_DstIdx edge) edge,
       g_inDegree := (g_inDegree g)[nat (e_DstIdx edge) := g_inDegree g ! nat (e_DstIdx edge) + 1]\<rparr>"

definition connectTarget :: "WorkflowDef \<Rightarrow> string \<Rightarrow> int \<Rightarrow> string \<Rightarrow> Connection \<Rightarrow> Graph \<Rightarrow> CompileError + Graph" where
  "connectTarget def srcName srcIdx port c g = (case fmlookup (g_index g) (co_Node c) of
      None \<Rightarrow> Inl (UnknownDestination (co_Node c))
    | Some dstIdx \<Rightarrow>
        andThen (atIdx (g_nodes g) dstIdx) (\<lambda>dst.
          if nm_Kind dst = NodeKindSupply then Inl (SupplyReceives (co_Node c) srcName port)
          else andThen (atIdx (wd_Nodes def) dstIdx) (\<lambda>node.
            andThen (validateEdgeTarget (declaredInputPorts node) srcName (co_Node c) (co_Input c)) (\<lambda>_.
              andThen (atIdx (g_outEdges g) srcIdx) (\<lambda>_. andThen (atIdx (g_inEdges g) dstIdx) (\<lambda>_.
                andThen (atIdx (g_inDegree g) dstIdx) (\<lambda>_.
                  Inr (addEdge \<lparr>e_SrcIdx = srcIdx, e_DstIdx = dstIdx, e_SrcPort = port, e_DstPort = co_Input c\<rparr> g))))))))"

text \<open>One port: the graph, the output ports with edges, and the dependency ports found
  so far.\<close>

definition connectPort :: "WorkflowDef \<Rightarrow> string \<Rightarrow> int \<Rightarrow> (string, PortConnections) fmap \<Rightarrow> string \<Rightarrow>
    Graph \<times> string list \<times> dependencyPort list \<Rightarrow> CompileError + (Graph \<times> string list \<times> dependencyPort list)" where
  "connectPort def srcName srcIdx ports port st =
     (case st of (g, portOuts, depPorts) \<Rightarrow>
        let pc = the (fmlookup ports port)
        in if pc_Type pc \<noteq> '''' \<and> pc_Type pc \<noteq> ConnectionTypeData \<and> pc_Type pc \<noteq> ConnectionTypeDependency
           then Inl (UnsupportedConnectionType srcName port (pc_Type pc))
           else andThen (atIdx (g_nodes g) srcIdx) (\<lambda>src.
             if pc_Type pc = ConnectionTypeDependency then
               (if nm_Kind src \<noteq> NodeKindSupply then Inl (DependencyNotSupply srcName port)
                else case filter (\<lambda>c. co_Input c \<noteq> '''') (pc_Targets pc) of
                  c # _ \<Rightarrow> Inl (DependencyWithInput srcName (co_Node c))
                | [] \<Rightarrow> Inr (g, portOuts, depPorts @ [\<lparr>dp_srcName = srcName, dp_targets = pc_Targets pc\<rparr>]))
             else if nm_Kind src = NodeKindSupply then Inl (SupplyEmits srcName port)
             else andThen (foldE (connectTarget def srcName srcIdx port) (pc_Targets pc) g) (\<lambda>g1.
               Inr (g1, if pc_Targets pc \<noteq> [] then portOuts @ [port] else portOuts, depPorts))))"

definition setPortOuts :: "int \<Rightarrow> string list \<Rightarrow> Graph \<Rightarrow> Graph" where
  "setPortOuts i portOuts g = g\<lparr>g_nodes := (g_nodes g)[nat i := (g_nodes g ! nat i)\<lparr>nm_PortOuts := portOuts\<rparr>]\<rparr>"

definition connectSource :: "WorkflowDef \<Rightarrow> string \<Rightarrow> Graph \<times> dependencyPort list \<Rightarrow>
    CompileError + (Graph \<times> dependencyPort list)" where
  "connectSource def srcName st = (case st of (g, depPorts) \<Rightarrow>
     let ports = the (fmlookup (wd_Connections def) srcName)
     in case fmlookup (g_index g) srcName of
          None \<Rightarrow> Inl (UnknownSource srcName)
        | Some srcIdx \<Rightarrow>
            andThen (foldE (connectPort def srcName srcIdx ports) (sortedKeys ports) (g, [], depPorts)) (\<lambda>(g1, portOuts, depPorts1).
              andThen (atIdx (g_nodes g1) srcIdx) (\<lambda>_. Inr (setPortOuts srcIdx portOuts g1, depPorts1))))"

definition buildEdges :: "WorkflowDef \<Rightarrow> Graph \<Rightarrow> CompileError + (Graph \<times> dependencyPort list)" where
  "buildEdges def g = foldE (connectSource def) (sortedKeys (wd_Connections def)) (g, [])"

section \<open>Effective settings of a node\<close>

definition resolveRetry :: "RetrySettings option \<Rightarrow> WorkflowSettings option \<Rightarrow> RetrySettings option" where
  "resolveRetry node settings =
     (if (case node of None \<Rightarrow> False | Some r \<Rightarrow> rt_Enabled r = Some False) then None
      else if IsEnabled node then node
      else case settings of
        Some st \<Rightarrow> if IsEnabled (st_Retry st) then st_Retry st else None
      | None \<Rightarrow> None)"

definition resolveOnError :: "string \<Rightarrow> WorkflowSettings option \<Rightarrow> string" where
  "resolveOnError node settings = (case settings of
      None \<Rightarrow> node
    | Some st \<Rightarrow> if node \<noteq> '''' then node else st_OnError st)"

definition validateOnError :: "string \<Rightarrow> string \<Rightarrow> CompileError + unit" where
  "validateOnError site onErr =
     (if onErr \<in> {'''', ''stop'', ''error_output'', ''main_output'', ''continue''} then Inr () else Inl (BadOnError site onErr))"

definition validateSettingsOnError :: "string \<Rightarrow> CompileError + unit" where
  "validateSettingsOnError onErr = validateOnError ''settings.on_error'' onErr"

definition validateRetryStrategy :: "string \<Rightarrow> RetrySettings option \<Rightarrow> CompileError + unit" where
  "validateRetryStrategy site r = (case r of
      None \<Rightarrow> Inr ()
    | Some rt \<Rightarrow> if rt_Strategy rt \<in> {'''', ''fixed'', ''exponential''} then Inr () else Inl (BadRetryStrategy site (rt_Strategy rt)))"

text \<open>The order in which the source ranges over the labels is not determined: it is a
  parameter, a list of the labels.\<close>

fun validateLabels :: "(string \<times> string) list \<Rightarrow> CompileError + unit" where
  "validateLabels [] = Inr ()"
| "validateLabels ((key, label) # rest) =
     (if key = '''' then Inl EmptyLabelKey else if label = '''' then Inl (EmptyLabelValue key) else validateLabels rest)"

definition validateRunnerSelectorLabels :: "((string, string) fmap \<Rightarrow> (string \<times> string) list) \<Rightarrow> RunnerSelector \<Rightarrow> CompileError + unit" where
  "validateRunnerSelectorLabels order selector = validateLabels (order (rs_MatchLabels selector))"

definition validateWorkflowRunnerSelector :: "((string, string) fmap \<Rightarrow> (string \<times> string) list) \<Rightarrow> RunnerSelector option \<Rightarrow>
    CompileError + unit" where
  "validateWorkflowRunnerSelector order selector = (case selector of
      None \<Rightarrow> Inr ()
    | Some sel \<Rightarrow>
        if rs_Mode sel \<notin> {'''', ''default'', ''required''} then Inl BadSelectorMode
        else validateRunnerSelectorLabels order sel)"

definition validateNodeRunnerSelector :: "((string, string) fmap \<Rightarrow> (string \<times> string) list) \<Rightarrow> RunnerSelector option \<Rightarrow>
    CompileError + unit" where
  "validateNodeRunnerSelector order selector = (case selector of
      None \<Rightarrow> Inr ()
    | Some sel \<Rightarrow> if rs_Mode sel \<noteq> '''' then Inl SelectorModeOnNode else validateRunnerSelectorLabels order sel)"

fun mergeLabels :: "(string \<times> string) list \<Rightarrow> (string, string) fmap \<Rightarrow> CompileError + (string, string) fmap" where
  "mergeLabels [] out = Inr out"
| "mergeLabels ((key, label) # rest) out =
     (if fmlookup out key \<noteq> None \<and> fmlookup out key \<noteq> Some label then Inl (LabelConflict key)
      else mergeLabels rest (fmupd key label out))"

definition andRunnerSelectors :: "((string, string) fmap \<Rightarrow> (string \<times> string) list) \<Rightarrow> RunnerSelector option \<Rightarrow>
    RunnerSelector option \<Rightarrow> CompileError + RunnerSelector option" where
  "andRunnerSelectors order workflowSelector nodeSelector =
     (let base = (case workflowSelector of None \<Rightarrow> \<lparr>rs_Mode = '''', rs_MatchLabels = fmempty\<rparr> | Some sel \<Rightarrow> sel)
      in andThen (case nodeSelector of None \<Rightarrow> Inr (rs_MatchLabels base)
                  | Some sel \<Rightarrow> mergeLabels (order (rs_MatchLabels sel)) (rs_MatchLabels base)) (\<lambda>labels.
           if labels = fmempty \<and> rs_Mode base = '''' then Inr None
           else Inr (Some \<lparr>rs_Mode = rs_Mode base, rs_MatchLabels = labels\<rparr>)))"

definition resolveRunnerSelector :: "((string, string) fmap \<Rightarrow> (string \<times> string) list) \<Rightarrow> RunnerSelector option \<Rightarrow>
    RunnerSelector option \<Rightarrow> CompileError + RunnerSelector option" where
  "resolveRunnerSelector order workflowSelector nodeSelector =
     andThen (validateNodeRunnerSelector order nodeSelector) (\<lambda>_.
       if (case workflowSelector of None \<Rightarrow> False | Some sel \<Rightarrow> rs_Mode sel = ''required'')
       then andRunnerSelectors order workflowSelector nodeSelector
       else case nodeSelector of
         Some sel \<Rightarrow> if rs_MatchLabels sel \<noteq> fmempty \<or> rs_Mode sel \<noteq> '''' then Inr nodeSelector else Inr workflowSelector
       | None \<Rightarrow> Inr workflowSelector)"

section \<open>Merge policies\<close>

definition extractMergeMode :: "NodeDef \<Rightarrow> string" where
  "extractMergeMode nd =
     (if nd_Type nd \<noteq> ''xflow.merge'' then ''''
      else case nd_Parameters nd of
        None \<Rightarrow> ''''
      | Some params \<Rightarrow> (case fmlookup params ''mode'' of Some (AStr mode) \<Rightarrow> mode | _ \<Rightarrow> ''''))"

text \<open>The policy, whether the author wrote it, and whether it is one.\<close>

definition mergeOnOthers :: "(string, any) fmap \<Rightarrow> string \<times> bool \<times> bool" where
  "mergeOnOthers params = (case fmlookup params ''on_others'' of
      None \<Rightarrow> (''cancel'', False, True)
    | Some ANil \<Rightarrow> (''cancel'', False, True)
    | Some (AStr s) \<Rightarrow>
        if s = '''' then (''cancel'', False, True)
        else if s = ''cancel'' \<or> s = ''detach'' then (s, True, True)
        else ('''', True, False)
    | Some _ \<Rightarrow> ('''', True, False))"

definition validateMergeOnOthers :: "NodeDef \<Rightarrow> CompileError + unit" where
  "validateMergeOnOthers nd =
     (if extractMergeMode nd \<noteq> ''wait_any'' then Inr ()
      else if snd (snd (mergeOnOthers (case nd_Parameters nd of None \<Rightarrow> fmempty | Some p \<Rightarrow> p))) then Inr ()
      else Inl (BadOnOthers (nd_Name nd)))"

definition warnCyclicMergeCancel :: "Graph \<Rightarrow> string list" where
  "warnCyclicMergeCancel g =
     (if \<not> g_allowCycles g then []
      else map nm_Name (filter (\<lambda>n. nm_MergeMode n = ''wait_any'' \<and> mergeOnOthers (nm_Parameters n) = (''cancel'', True, True)) (g_nodes g)))"

definition MergeCancelsOthers :: "Graph \<Rightarrow> int \<Rightarrow> bool" where
  "MergeCancelsOthers g nodeIdx =
     (if g_allowCycles g \<or> nodeIdx < 0 \<or> nodeIdx \<ge> NodeCount g then False
      else let n = g_nodes g ! nat nodeIdx
           in nm_MergeMode n = ''wait_any''
              \<and> snd (snd (mergeOnOthers (nm_Parameters n))) \<and> fst (mergeOnOthers (nm_Parameters n)) = ''cancel'')"

section \<open>The edge pass builds exactly the declared edges\<close>

text \<open>What the pass starts from: every node is registered under its index, and there is
  no edge yet.\<close>

definition registered :: "WorkflowDef \<Rightarrow> Graph \<Rightarrow> bool" where
  "registered def g \<longleftrightarrow> length (wd_Nodes def) = length (g_nodes g)
     \<and> (\<forall>name i. fmlookup (g_index g) name = Some i \<longrightarrow> 0 \<le> i \<and> i < int (length (g_nodes g)))
     \<and> g_outEdges g = replicate (length (g_nodes g)) [] \<and> g_inEdges g = replicate (length (g_nodes g)) []
     \<and> g_inDegree g = replicate (length (g_nodes g)) 0"

definition edgeOf :: "Graph \<Rightarrow> string \<Rightarrow> string \<Rightarrow> Connection \<Rightarrow> Edge" where
  "edgeOf g srcName port c = \<lparr>e_SrcIdx = the (fmlookup (g_index g) srcName), e_DstIdx = the (fmlookup (g_index g) (co_Node c)),
     e_SrcPort = port, e_DstPort = co_Input c\<rparr>"

definition portEdges :: "Graph \<Rightarrow> string \<Rightarrow> (string, PortConnections) fmap \<Rightarrow> string \<Rightarrow> Edge multiset" where
  "portEdges g srcName ports port =
     (if pc_Type (the (fmlookup ports port)) = ConnectionTypeDependency then {#}
      else mset (map (edgeOf g srcName port) (pc_Targets (the (fmlookup ports port)))))"

definition sourceEdges :: "Graph \<Rightarrow> WorkflowDef \<Rightarrow> string \<Rightarrow> Edge multiset" where
  "sourceEdges g def srcName = (let ports = the (fmlookup (wd_Connections def) srcName)
     in sum_list (map (portEdges g srcName ports) (sortedKeys ports)))"

definition declaredEdges :: "Graph \<Rightarrow> WorkflowDef \<Rightarrow> Edge multiset" where
  "declaredEdges g def = sum_list (map (sourceEdges g def) (sortedKeys (wd_Connections def)))"

definition dataNode :: "Graph \<Rightarrow> int \<Rightarrow> bool" where
  "dataNode g i \<longleftrightarrow> 0 \<le> i \<and> i < int (length (g_nodes g)) \<and> nm_Kind (g_nodes g ! nat i) \<noteq> NodeKindSupply"

lemma addEdge_sel [simp]:
  "g_groups (addEdge e g) = g_groups g" "g_nodes (addEdge e g) = g_nodes g" "g_index (addEdge e g) = g_index g"
  "g_outEdges (addEdge e g) = appendAt (g_outEdges g) (e_SrcIdx e) e" "g_inEdges (addEdge e g) = appendAt (g_inEdges g) (e_DstIdx e) e"
  "g_inDegree (addEdge e g) = (g_inDegree g)[nat (e_DstIdx e) := g_inDegree g ! nat (e_DstIdx e) + 1]"
  by (simp_all add: addEdge_def)

lemma addEdge_wf:
  assumes "edgesWF g" "0 \<le> e_SrcIdx e" "e_SrcIdx e < int (length (g_nodes g))" "0 \<le> e_DstIdx e" "e_DstIdx e < int (length (g_nodes g))"
  shows "edgesWF (addEdge e g)" "mset (concat (g_outEdges (addEdge e g))) = add_mset e (mset (concat (g_outEdges g)))"
  using listsWF_add [OF assms(1) [unfolded edgesWF_def] assms(2-5)] by (simp_all add: edgesWF_def)

lemma sum_list_singletons: "sum_list (map (\<lambda>x. {#f x#}) xs) = mset (map f xs)"
  by (induction xs) simp_all

lemma foldE_acc:
  assumes step: "\<And>x acc s. x \<in> set xs \<Longrightarrow> I acc s \<Longrightarrow> (case f x s of Inl err \<Rightarrow> good err | Inr s' \<Rightarrow> I (acc + m x) s')"
    and "I acc s"
  shows "case foldE f xs s of Inl err \<Rightarrow> good err | Inr s' \<Rightarrow> I (acc + sum_list (map m xs)) (s' :: 's)"
  using assms
proof (induction xs arbitrary: acc s)
  case (Cons x xs)
  show ?case
  proof (cases "f x s")
    case (Inl err)
    then show ?thesis using Cons.prems(1) [of x acc s] Cons.prems(2) by simp
  next
    case (Inr s')
    then have "I (acc + m x) s'" using Cons.prems(1) [of x acc s] Cons.prems(2) by simp
    moreover have "case f y t of Inl err \<Rightarrow> good err | Inr s' \<Rightarrow> I (a + m y) s'" if "y \<in> set xs" "I a t" for y a t
      using Cons.prems(1) [of y a t] that by simp
    ultimately show ?thesis using Cons.IH [of "acc + m x" s'] Inr by (simp add: add.assoc split: sum.splits)
  qed
qed simp

text \<open>The graph under construction, with the edges added so far.\<close>

definition building :: "WorkflowDef \<Rightarrow> Graph \<Rightarrow> Edge multiset \<Rightarrow> Graph \<Rightarrow> bool" where
  "building def g0 es g \<longleftrightarrow> edgesWF g \<and> g_index g = g_index g0 \<and> g_groups g = g_groups g0
     \<and> map nm_Kind (g_nodes g) = map nm_Kind (g_nodes g0) \<and> map nm_GroupIdx (g_nodes g) = map nm_GroupIdx (g_nodes g0)
     \<and> length (wd_Nodes def) = length (g_nodes g)
     \<and> (\<forall>name i. fmlookup (g_index g) name = Some i \<longrightarrow> 0 \<le> i \<and> i < int (length (g_nodes g)))
     \<and> mset (concat (g_outEdges g)) = es \<and> (\<forall>e\<in>#es. dataNode g0 (e_SrcIdx e) \<and> dataNode g0 (e_DstIdx e))"

lemma building_kind:
  assumes "building def g0 es g" "0 \<le> i" "i < int (length (g_nodes g))"
  shows "dataNode g0 i \<longleftrightarrow> nm_Kind (g_nodes g ! nat i) \<noteq> NodeKindSupply"
proof -
  have k: "map nm_Kind (g_nodes g) = map nm_Kind (g_nodes g0)" using assms(1) by (simp add: building_def)
  then have "length (g_nodes g) = length (g_nodes g0)" by (metis length_map)
  moreover from this have "nm_Kind (g_nodes g ! nat i) = nm_Kind (g_nodes g0 ! nat i)"
    using k assms(2,3) by (metis nat_less_iff nth_map)
  ultimately show ?thesis using assms(2,3) by (simp add: dataNode_def)
qed

lemma building_registered: "registered def g \<Longrightarrow> building def g {#} g"
  by (auto simp: building_def registered_def edgesWF_def listsWF_empty)

lemma building_sel: "building def g0 es g \<Longrightarrow> length (g_outEdges g) = length (g_nodes g) \<and> length (g_inEdges g) = length (g_nodes g)
    \<and> length (g_inDegree g) = length (g_nodes g) \<and> length (wd_Nodes def) = length (g_nodes g) \<and> g_index g = g_index g0"
  by (simp add: building_def edgesWF_def listsWF_def)

lemma building_index: "building def g0 es g \<Longrightarrow> fmlookup (g_index g0) name = Some i \<Longrightarrow> 0 \<le> i \<and> i < int (length (g_nodes g))"
  unfolding building_def by metis

lemma connectTarget_builds:
  assumes b: "building def g0 es g" and src: "fmlookup (g_index g0) srcName = Some srcIdx" "dataNode g0 srcIdx"
  shows "case connectTarget def srcName srcIdx port c g of
      Inl err \<Rightarrow> err \<noteq> IndexPanic | Inr g' \<Rightarrow> building def g0 (es + {#edgeOf g0 srcName port c#}) g'"
proof (cases "fmlookup (g_index g0) (co_Node c)")
  case None
  then show ?thesis using building_sel [OF b] by (simp add: connectTarget_def)
next
  case (Some dstIdx)
  note d = building_index [OF b Some] and s = building_index [OF b src(1)] and l = building_sel [OF b]
  define e where "e = \<lparr>e_SrcIdx = srcIdx, e_DstIdx = dstIdx, e_SrcPort = port, e_DstPort = co_Input c\<rparr>"
  have eo: "edgeOf g0 srcName port c = e" using src(1) Some by (simp add: edgeOf_def e_def)
  have b': "building def g0 (add_mset e es) (addEdge e g)" if "nm_Kind (g_nodes g ! nat dstIdx) \<noteq> NodeKindSupply"
  proof -
    have "dataNode g0 dstIdx" using building_kind [OF b] d that by blast
    moreover have "edgesWF g" "mset (concat (g_outEdges g)) = es" using b by (simp_all add: building_def)
    ultimately show ?thesis using addEdge_wf [of g e] d s src(2) b by (simp add: building_def e_def)
  qed
  have v: "validateEdgeTarget p a b' l' \<noteq> Inl IndexPanic" for p a b' l' by (simp add: validateEdgeTarget_def split: option.split)
  show ?thesis
    using Some d s l b' eo v
    by (auto simp: connectTarget_def e_def [symmetric] andThen_Inr andThen_Inl split: sum.splits if_splits)
qed

lemma connectPort_builds:
  assumes b: "building def g0 es (fst st)" and src: "fmlookup (g_index g0) srcName = Some srcIdx"
  shows "case connectPort def srcName srcIdx ports port st of
      Inl err \<Rightarrow> err \<noteq> IndexPanic | Inr st' \<Rightarrow> building def g0 (es + portEdges g0 srcName ports port) (fst st')"
proof -
  obtain g portOuts deps where st: "st = (g, portOuts, deps)" by (cases st) auto
  let ?pc = "the (fmlookup ports port)"
  have b': "building def g0 es g" using b st by simp
  note s = building_index [OF b' src] and k = building_kind [OF b']
  have loop: "case foldE (connectTarget def srcName srcIdx port) cs g of
      Inl err \<Rightarrow> err \<noteq> IndexPanic | Inr g' \<Rightarrow> building def g0 (es + mset (map (edgeOf g0 srcName port) cs)) g'"
    if "nm_Kind (g_nodes g ! nat srcIdx) \<noteq> NodeKindSupply" for cs
  proof -
    have "dataNode g0 srcIdx" using k s that by blast
    from foldE_acc [where I = "building def g0" and f = "connectTarget def srcName srcIdx port" and xs = cs
        and m = "\<lambda>c. {#edgeOf g0 srcName port c#}", OF connectTarget_builds [OF _ src this] b']
    show ?thesis unfolding sum_list_singletons .
  qed
  consider (bad) "pc_Type ?pc \<noteq> ''''" "pc_Type ?pc \<noteq> ConnectionTypeData" "pc_Type ?pc \<noteq> ConnectionTypeDependency"
    | (dep) "pc_Type ?pc = ConnectionTypeDependency"
    | (emits) "pc_Type ?pc = '''' \<or> pc_Type ?pc = ConnectionTypeData" "pc_Type ?pc \<noteq> ConnectionTypeDependency"
        "nm_Kind (g_nodes g ! nat srcIdx) = NodeKindSupply"
    | (edges) "pc_Type ?pc = '''' \<or> pc_Type ?pc = ConnectionTypeData" "pc_Type ?pc \<noteq> ConnectionTypeDependency"
        "nm_Kind (g_nodes g ! nat srcIdx) \<noteq> NodeKindSupply" by blast
  then show ?thesis
  proof cases
    case bad
    then show ?thesis by (simp add: connectPort_def st)
  next
    case dep
    then show ?thesis using s b'
      by (auto simp: connectPort_def st atIdx_def idx_def portEdges_def Let_def ConnectionTypeDependency_def split: list.splits)
  next
    case emits
    then show ?thesis using s by (auto simp: connectPort_def st atIdx_def idx_def Let_def)
  next
    case edges
    then show ?thesis using s loop [OF edges(3), of "pc_Targets ?pc"]
      by (auto simp: connectPort_def st atIdx_def idx_def portEdges_def Let_def split: sum.splits)
  qed
qed

lemma setPortOuts_builds:
  assumes "building def g0 es g" "0 \<le> i" "i < int (length (g_nodes g))"
  shows "building def g0 es (setPortOuts i portOuts g)"
proof -
  have "map nm_Kind (g_nodes (setPortOuts i portOuts g)) = map nm_Kind (g_nodes g)"
    "map nm_GroupIdx (g_nodes (setPortOuts i portOuts g)) = map nm_GroupIdx (g_nodes g)"
    using assms(2,3) by (simp_all add: setPortOuts_def map_update nat_less_iff list_update_same_conv)
  moreover have "length (g_nodes (setPortOuts i portOuts g)) = length (g_nodes g)" by (simp add: setPortOuts_def)
  moreover have "edgesWF (setPortOuts i portOuts g) = edgesWF g" by (simp add: edgesWF_def setPortOuts_def)
  ultimately show ?thesis using assms(1) by (simp add: building_def setPortOuts_def)
qed

lemma connectSource_builds:
  assumes "building def g0 es (fst st)"
  shows "case connectSource def srcName st of
      Inl err \<Rightarrow> err \<noteq> IndexPanic | Inr st' \<Rightarrow> building def g0 (es + sourceEdges g0 def srcName) (fst st')"
proof -
  obtain g deps where st: "st = (g, deps)" by (cases st)
  have b: "building def g0 es g" using assms st by simp
  let ?ports = "the (fmlookup (wd_Connections def) srcName)"
  show ?thesis
  proof (cases "fmlookup (g_index g0) srcName")
    case None
    then show ?thesis using building_sel [OF b] by (simp add: connectSource_def st Let_def)
  next
    case (Some srcIdx)
    from foldE_acc [where I = "\<lambda>es st. building def g0 es (fst st)" and f = "connectPort def srcName srcIdx ?ports" and xs = "sortedKeys ?ports"
        and m = "portEdges g0 srcName ?ports" and s = "(g, [], deps)" and acc = es and good = "\<lambda>err. err \<noteq> IndexPanic",
        OF connectPort_builds [OF _ Some]] b
    have loop: "case foldE (connectPort def srcName srcIdx ?ports) (sortedKeys ?ports) (g, [], deps) of
        Inl err \<Rightarrow> err \<noteq> IndexPanic | Inr st' \<Rightarrow> building def g0 (es + sourceEdges g0 def srcName) (fst st')"
      by (auto simp: sourceEdges_def Let_def split: sum.splits)
    show ?thesis
    proof (cases "foldE (connectPort def srcName srcIdx ?ports) (sortedKeys ?ports) (g, [], deps)")
      case (Inl err)
      then show ?thesis using loop Some building_sel [OF b] by (simp add: connectSource_def st Let_def)
    next
      case (Inr st')
      obtain g1 portOuts deps1 where st': "st' = (g1, portOuts, deps1)" by (cases st') auto
      have b1: "building def g0 (es + sourceEdges g0 def srcName) g1" using loop Inr st' by simp
      note i = building_index [OF b1 Some]
      show ?thesis
        using Inr st' Some building_sel [OF b] i setPortOuts_builds [OF b1] by (simp add: connectSource_def st Let_def atIdx_def idx_def)
    qed
  qed
qed

lemma buildEdges_building:
  assumes "registered def g"
  shows "case buildEdges def g of Inl err \<Rightarrow> err \<noteq> IndexPanic | Inr st' \<Rightarrow> building def g (declaredEdges g def) (fst st')"
proof -
  from foldE_acc [where I = "\<lambda>es st. building def g es (fst st)" and f = "connectSource def" and xs = "sortedKeys (wd_Connections def)"
      and m = "sourceEdges g def" and s = "(g, [])" and acc = "{#}" and good = "\<lambda>err. err \<noteq> IndexPanic", OF connectSource_builds]
    building_registered [OF assms]
  show ?thesis
    by (auto simp: buildEdges_def declaredEdges_def split: sum.splits)
qed

text \<open>C8. The edge pass never runs out of range, and when it accepts a definition the
  graph has exactly the declared data connections as edges, each as often as it is
  declared, listed both with its source and with its destination, the in-degree of a
  node is the number of its incoming edges, and no supply node has an edge.\<close>

theorem buildEdges_exact:
  assumes "registered def g"
  shows "case buildEdges def g of
      Inl err \<Rightarrow> err \<noteq> IndexPanic
    | Inr (g', deps) \<Rightarrow> edgesWF g' \<and> mset (concat (g_outEdges g')) = declaredEdges g def
        \<and> (\<forall>e\<in>set (concat (g_outEdges g')). dataNode g (e_SrcIdx e) \<and> dataNode g (e_DstIdx e))"
  using buildEdges_building [OF assms]
  by (auto simp: building_def set_mset_mset [symmetric] simp del: set_mset_mset split: sum.splits)

section \<open>A sample definition\<close>

definition sampleNodeDef :: "string \<Rightarrow> NodeDef" where
  "sampleNodeDef name = \<lparr>nd_Name = name, nd_Type = ''xflow.set'', nd_Kind = ''action'', nd_OnError = '''', nd_RunnerSelector = None,
     nd_Inputs = [], nd_Parameters = None, nd_Retry = None\<rparr>"

definition sampleMeta :: "string \<Rightarrow> NodeMeta" where
  "sampleMeta name = \<lparr>nm_Name = name, nm_Type = ''xflow.set'', nm_Kind = ''action'', nm_Version = 1, nm_OnError = '''',
     nm_PrivateOutput = False, nm_RunnerSelector = None, nm_MergeMode = '''', nm_Parameters = fmempty, nm_PortOuts = [],
     nm_Retry = None, nm_Timeout = 0, nm_GroupIdx = -1, nm_ActivationReplicas = 0, nm_PinOutput = None, nm_Disabled = False\<rparr>"

definition emptyGraph :: "NodeMeta list \<Rightarrow> (string, int) fmap \<Rightarrow> Graph" where
  "emptyGraph ns ix = \<lparr>g_name = ''wf'', g_nodes = ns, g_index = ix, g_outEdges = replicate (length ns) [],
     g_inEdges = replicate (length ns) [], g_inDegree = replicate (length ns) 0, g_allowCycles = False, g_startIdx = -1,
     g_maxAutoDepth = 0, g_transient = False, g_timeout = 0, g_concurrency = None, g_hasDisabled = False, g_groups = [],
     g_units = [], g_unitOutEdges = [], g_unitInEdges = [], g_unitInDegree = [], g_nodeUnit = []\<rparr>"

definition sampleRegistered :: Graph where
  "sampleRegistered = emptyGraph (map sampleMeta [''a'', ''b'', ''c'']) (fmap_of_list [(''a'', 0), (''b'', 1), (''c'', 2)])"

definition samplePort :: "string \<Rightarrow> (string, PortConnections) fmap" where
  "samplePort dst = fmap_of_list [(''main'', \<lparr>pc_Type = '''', pc_Targets = [\<lparr>co_Node = dst, co_Input = ''''\<rparr>]\<rparr>)]"

text \<open>Two steps in a row, and with the back edge a cycle.\<close>

definition sampleDef :: "bool \<Rightarrow> WorkflowDef" where
  "sampleDef cyclic = \<lparr>wd_Nodes = map sampleNodeDef [''a'', ''b'', ''c''],
     wd_Connections = fmap_of_list ([(''a'', samplePort ''b''), (''b'', samplePort ''c'')] @ (if cyclic then [(''c'', samplePort ''a'')] else [])),
     wd_Settings = None, wd_RunnerSelector = None\<rparr>"

definition sampleBuilt :: "bool \<Rightarrow> Graph" where
  "sampleBuilt cyclic = fst (projr (buildEdges (sampleDef cyclic) sampleRegistered))"

lemma values_code: "(\<forall>k v. fmlookup m k = Some v \<longrightarrow> P v) \<longleftrightarrow> (\<forall>k\<in>set (sortedKeys m). P (mapGet z m k))"
  by (simp add: hasKey_def) (metis mapGet_Some not_Some_eq)

lemma registered_code [code]:
  "registered def g \<longleftrightarrow> length (wd_Nodes def) = length (g_nodes g)
     \<and> (\<forall>k\<in>set (sortedKeys (g_index g)). 0 \<le> mapGet 0 (g_index g) k \<and> mapGet 0 (g_index g) k < int (length (g_nodes g)))
     \<and> g_outEdges g = replicate (length (g_nodes g)) [] \<and> g_inEdges g = replicate (length (g_nodes g)) []
     \<and> g_inDegree g = replicate (length (g_nodes g)) 0"
  unfolding registered_def values_code [of _ _ 0] ..

theorem buildEdges_exact_witness:
  "registered (sampleDef False) sampleRegistered
   \<and> (case buildEdges (sampleDef False) sampleRegistered of
        Inl err \<Rightarrow> err \<noteq> IndexPanic
      | Inr (g', deps) \<Rightarrow> edgesWF g' \<and> mset (concat (g_outEdges g')) = declaredEdges sampleRegistered (sampleDef False)
          \<and> (\<forall>e\<in>set (concat (g_outEdges g')). dataNode sampleRegistered (e_SrcIdx e) \<and> dataNode sampleRegistered (e_DstIdx e)))"
proof -
  have "registered (sampleDef False) sampleRegistered" by code_simp
  then show ?thesis using buildEdges_exact by blast
qed

lemma sample_wf: "edgesWF (sampleBuilt True)" "edgesWF (sampleBuilt False)"
  by code_simp+

theorem detectCycle_exact_witness:
  "edgesWF (sampleBuilt True) \<and> (\<exists>e. detectCycle (sampleBuilt True) = Some (Inl e)) \<and> \<not> acyclic (nodeRel (sampleBuilt True))"
proof -
  have r: "detectCycle (sampleBuilt True) = Some (Inl ''workflow contains a cycle'')" by code_simp
  then have "\<not> acyclic (nodeRel (sampleBuilt True))" using detectCycle_exact [OF sample_wf(1)] by auto
  then show ?thesis using r sample_wf(1) by blast
qed

theorem cancel_closure_exact_witness:
  "edgesWF (sampleBuilt False) \<and> detectCycle (sampleBuilt False) = Some (Inr ()) \<and> \<not> g_allowCycles (sampleBuilt False)
   \<and> 2 < NodeCount (sampleBuilt False) \<and> CancelClosure (sampleBuilt False) 2 = Some [0, 1]
   \<and> {u. (u, 2) \<in> (nodeRel (sampleBuilt False))\<^sup>+} = {0, 1} \<and> topological (nodeRel (sampleBuilt False)) [0, 1]"
proof -
  have h: "detectCycle (sampleBuilt False) = Some (Inr ())" "\<not> g_allowCycles (sampleBuilt False)" "2 < NodeCount (sampleBuilt False)"
    "CancelClosure (sampleBuilt False) 2 = Some [0, 1]" by code_simp+
  obtain out where o: "CancelClosure (sampleBuilt False) 2 = Some out" "set out = {u. (u, 2) \<in> (nodeRel (sampleBuilt False))\<^sup>+}"
      "topological (nodeRel (sampleBuilt False)) out"
    using cancel_closure_exact [OF sample_wf(2) h(1,2) _ h(3)] by auto
  have "out = [0, 1]" using o(1) h(4) by simp
  then show ?thesis using h sample_wf(2) o(2,3) by auto
qed

end
