(* ===== verification/GraphUnits.thy ===== *)
theory GraphUnits
  imports GraphCompile
begin

text \<open>
  The durable scheduling layer of a compiled graph (engine/graph/unit.go).
  \<open>buildUnits\<close> collapses every co-location group into one unit, keeps every
  other dataflow node as a unit of its own, and derives the edges between the
  units from the node edges and the declared error outputs of the groups.  Every
  index expression of the source that can panic is an \<open>idx\<close> here, so
  \<^term>\<open>None\<close> is a panic of the compiler.

  Sorting with \<open>sort.Slice\<close> is not stable.  The keys below list every field of
  an edge but the error flag, which the node index \<open>-1\<close> of the source endpoint
  determines, so two edges with equal keys are equal and the result of the sort
  does not depend on the algorithm.
\<close>

section \<open>Units\<close>

definition errorOutputPort :: string where
  "errorOutputPort = ''error''"

fun foldO :: "('a \<Rightarrow> 's \<Rightarrow> 's option) \<Rightarrow> 'a list \<Rightarrow> 's \<Rightarrow> 's option" where
  "foldO f [] s = Some s"
| "foldO f (x # xs) s = (case f x s of None \<Rightarrow> None | Some s' \<Rightarrow> foldO f xs s')"

definition nodeUnitMeta :: "Graph \<Rightarrow> nat \<Rightarrow> UnitMeta" where
  "nodeUnitMeta g i = (let n = g_nodes g ! i in
     \<lparr>um_Kind = UnitNode, um_Name = nm_Name n, um_NodeIdx = int i, um_GroupIdx = -1,
      um_RunnerSelector = nm_RunnerSelector n, um_Retry = nm_Retry n, um_Timeout = 0,
      um_ActivationReplicas = nm_ActivationReplicas n\<rparr>)"

definition groupUnitMeta :: "nat \<Rightarrow> GroupMeta \<Rightarrow> UnitMeta" where
  "groupUnitMeta gi gm =
     \<lparr>um_Kind = UnitGroup, um_Name = gm_Name gm, um_NodeIdx = -1, um_GroupIdx = int gi,
      um_RunnerSelector = gm_RunnerSelector gm, um_Retry = gm_Retry gm, um_Timeout = gm_Timeout gm,
      um_ActivationReplicas = gm_ActivationReplicas gm\<rparr>"

definition addNodeUnit :: "nat \<Rightarrow> Graph \<Rightarrow> Graph" where
  "addNodeUnit i g =
     (if nm_GroupIdx (g_nodes g ! i) \<noteq> -1 then g
      else if nm_Kind (g_nodes g ! i) = NodeKindSupply then g
      else g\<lparr>g_nodeUnit := (g_nodeUnit g)[i := int (length (g_units g))],
             g_units := g_units g @ [nodeUnitMeta g i]\<rparr>)"

fun assignMembers :: "int \<Rightarrow> int list \<Rightarrow> int list \<Rightarrow> int list option" where
  "assignMembers u [] nodeUnit = Some nodeUnit"
| "assignMembers u (m # ms) nodeUnit =
     (case idx nodeUnit m of None \<Rightarrow> None
      | Some _ \<Rightarrow> assignMembers u ms (nodeUnit[nat m := u]))"

definition addGroupUnit :: "nat \<Rightarrow> Graph \<Rightarrow> Graph option" where
  "addGroupUnit gi g =
     (let gm = g_groups g ! gi;
          u = int (length (g_units g))
      in case assignMembers u (gm_Members gm) (g_nodeUnit g) of None \<Rightarrow> None
         | Some nodeUnit \<Rightarrow>
             Some (g\<lparr>g_groups := (g_groups g)[gi := gm\<lparr>gm_UnitIdx := u\<rparr>],
                     g_units := g_units g @ [groupUnitMeta gi gm],
                     g_nodeUnit := nodeUnit\<rparr>))"

definition assignUnits :: "Graph \<Rightarrow> Graph option" where
  "assignUnits g =
     foldO addGroupUnit [0..<length (g_groups g)]
       (fold addNodeUnit [0..<length (g_nodes g)]
          (g\<lparr>g_nodeUnit := replicate (length (g_nodes g)) (-1), g_units := []\<rparr>))"

section \<open>Edges between units\<close>

definition recordUnitEdge :: "UnitEdge \<Rightarrow> Graph \<Rightarrow> Graph option" where
  "recordUnitEdge ue g =
     (case (idx (g_unitOutEdges g) (ue_SrcUnit ue), idx (g_unitInEdges g) (ue_DstUnit ue), idx (g_unitInDegree g) (ue_DstUnit ue)) of
        (Some _, Some _, Some d) \<Rightarrow>
          Some (g\<lparr>g_unitOutEdges := appendAt (g_unitOutEdges g) (ue_SrcUnit ue) ue,
                  g_unitInEdges := appendAt (g_unitInEdges g) (ue_DstUnit ue) ue,
                  g_unitInDegree := (g_unitInDegree g)[nat (ue_DstUnit ue) := d + 1]\<rparr>)
      | _ \<Rightarrow> None)"

definition noteBoundary :: "int \<Rightarrow> (GroupMeta \<Rightarrow> GroupMeta) \<Rightarrow> Graph \<Rightarrow> Graph option" where
  "noteBoundary u note g =
     (case idx (g_units g) u of None \<Rightarrow> None
      | Some um \<Rightarrow>
          if um_Kind um = UnitGroup then
            (case idx (g_groups g) (um_GroupIdx um) of None \<Rightarrow> None
             | Some gm \<Rightarrow> Some (g\<lparr>g_groups := (g_groups g)[nat (um_GroupIdx um) := note gm]\<rparr>))
          else Some g)"

definition boundaryOf :: "UnitEdge \<Rightarrow> BoundaryEdge" where
  "boundaryOf ue = \<lparr>bd_Src = ue_Src ue, bd_Dst = ue_Dst ue, bd_SrcUnit = ue_SrcUnit ue, bd_DstUnit = ue_DstUnit ue\<rparr>"

definition crossingEdge :: "Edge \<Rightarrow> int \<Rightarrow> int \<Rightarrow> UnitEdge" where
  "crossingEdge e su du =
     \<lparr>ue_SrcUnit = su, ue_DstUnit = du, ue_Src = \<lparr>be_NodeIdx = e_SrcIdx e, be_Port = e_SrcPort e\<rparr>,
      ue_Dst = \<lparr>be_NodeIdx = e_DstIdx e, be_Port = e_DstPort e\<rparr>, ue_ErrorEdge = False\<rparr>"

definition addUnitEdge :: "Edge \<Rightarrow> Graph \<Rightarrow> Graph option" where
  "addUnitEdge e g =
     (case (idx (g_nodeUnit g) (e_SrcIdx e), idx (g_nodeUnit g) (e_DstIdx e)) of
        (Some su, Some du) \<Rightarrow>
          if su = du then Some g
          else (let ue = crossingEdge e su du in
            do { g1 \<leftarrow> recordUnitEdge ue g;
                 g2 \<leftarrow> noteBoundary su (\<lambda>gm. gm\<lparr>gm_BoundaryOutputs := gm_BoundaryOutputs gm @ [boundaryOf ue]\<rparr>) g1;
                 noteBoundary du (\<lambda>gm. gm\<lparr>gm_BoundaryInputs := gm_BoundaryInputs gm @ [boundaryOf ue]\<rparr>) g2 })
      | _ \<Rightarrow> None)"

definition errorEdge :: "int \<Rightarrow> int \<Rightarrow> BoundaryEndpoint \<Rightarrow> UnitEdge" where
  "errorEdge su du dst =
     \<lparr>ue_SrcUnit = su, ue_DstUnit = du, ue_Src = \<lparr>be_NodeIdx = -1, be_Port = errorOutputPort\<rparr>,
      ue_Dst = dst, ue_ErrorEdge = True\<rparr>"

definition addErrorEdge :: "int \<times> BoundaryEndpoint \<Rightarrow> Graph \<Rightarrow> Graph option" where
  "addErrorEdge t g =
     (case idx (g_nodeUnit g) (be_NodeIdx (snd t)) of None \<Rightarrow> None
      | Some du \<Rightarrow> recordUnitEdge (errorEdge (fst t) du (snd t)) g)"

definition errorTargets :: "Graph \<Rightarrow> (int \<times> BoundaryEndpoint) list" where
  "errorTargets g = concat (map (\<lambda>gm. map (\<lambda>dst. (gm_UnitIdx gm, dst)) (gm_ErrorOutputs gm)) (g_groups g))"

definition endpointKey :: "BoundaryEndpoint \<Rightarrow> int \<times> string" where
  "endpointKey b = (be_NodeIdx b, be_Port b)"

definition unitEdgeKey :: "UnitEdge \<Rightarrow> int \<times> int \<times> (int \<times> string) \<times> (int \<times> string)" where
  "unitEdgeKey a = (ue_SrcUnit a, ue_DstUnit a, endpointKey (ue_Src a), endpointKey (ue_Dst a))"

definition boundaryEdgeKey :: "BoundaryEdge \<Rightarrow> (int \<times> string) \<times> (int \<times> string)" where
  "boundaryEdgeKey a = (endpointKey (bd_Src a), endpointKey (bd_Dst a))"

definition sortBoundary :: "BoundaryEdge list \<Rightarrow> BoundaryEdge list" where
  "sortBoundary bs = sort_key boundaryEdgeKey bs"

definition resetUnitEdges :: "Graph \<Rightarrow> Graph" where
  "resetUnitEdges g =
     g\<lparr>g_groups := map (\<lambda>gm. gm\<lparr>gm_BoundaryInputs := [], gm_BoundaryOutputs := []\<rparr>) (g_groups g),
       g_unitOutEdges := replicate (length (g_units g)) [],
       g_unitInEdges := replicate (length (g_units g)) [],
       g_unitInDegree := replicate (length (g_units g)) 0\<rparr>"

definition sortUnitEdges :: "Graph \<Rightarrow> Graph" where
  "sortUnitEdges g =
     g\<lparr>g_unitOutEdges := map (sort_key unitEdgeKey) (g_unitOutEdges g),
       g_unitInEdges := map (sort_key unitEdgeKey) (g_unitInEdges g),
       g_groups := map (\<lambda>gm. gm\<lparr>gm_BoundaryOutputs := sortBoundary (gm_BoundaryOutputs gm),
                               gm_BoundaryInputs := sortBoundary (gm_BoundaryInputs gm)\<rparr>) (g_groups g)\<rparr>"

definition buildUnitEdges :: "Graph \<Rightarrow> Graph option" where
  "buildUnitEdges g =
     do { g1 \<leftarrow> foldO addUnitEdge (concat (g_outEdges g)) (resetUnitEdges g);
          g2 \<leftarrow> foldO addErrorEdge (errorTargets g1) g1;
          Some (sortUnitEdges g2) }"

definition buildUnits :: "Graph \<Rightarrow> (Graph \<times> (string + unit)) option" where
  "buildUnits g =
     do { g1 \<leftarrow> assignUnits g;
          g2 \<leftarrow> buildUnitEdges g1;
          if g_allowCycles g2 then Some (g2, Inr ())
          else do { r \<leftarrow> detectUnitCycle g2; Some (g2, r) } }"

section \<open>Every node gets its unit\<close>

definition standalone :: "Graph \<Rightarrow> nat \<Rightarrow> bool" where
  "standalone g i \<longleftrightarrow> nm_GroupIdx (g_nodes g ! i) = -1 \<and> nm_Kind (g_nodes g ! i) \<noteq> NodeKindSupply"

definition groupsOK :: "Graph \<Rightarrow> bool" where
  "groupsOK g \<longleftrightarrow>
     (\<forall>i<length (g_nodes g). nm_GroupIdx (g_nodes g ! i) = -1
        \<or> (\<exists>gi<length (g_groups g). nm_GroupIdx (g_nodes g ! i) = int gi \<and> int i \<in> set (gm_Members (g_groups g ! gi))))
     \<and> (\<forall>gi<length (g_groups g). \<forall>m\<in>set (gm_Members (g_groups g ! gi)).
          0 \<le> m \<and> m < NodeCount g \<and> nm_GroupIdx (g_nodes g ! nat m) = int gi \<and> nm_Kind (g_nodes g ! nat m) \<noteq> NodeKindSupply)
     \<and> (\<forall>gi<length (g_groups g). \<forall>d\<in>set (gm_ErrorOutputs (g_groups g ! gi)).
          0 \<le> be_NodeIdx d \<and> be_NodeIdx d < NodeCount g \<and> nm_Kind (g_nodes g ! nat (be_NodeIdx d)) \<noteq> NodeKindSupply)"

definition unitHolds :: "UnitMeta \<Rightarrow> NodeMeta \<Rightarrow> nat \<Rightarrow> bool" where
  "unitHolds um n i \<longleftrightarrow>
     (if nm_GroupIdx n = -1 then um_Kind um = UnitNode \<and> um_NodeIdx um = int i
      else um_Kind um = UnitGroup \<and> um_GroupIdx um = nm_GroupIdx n)"

lemma nodeUnitMeta_frame [simp]: "nodeUnitMeta (g\<lparr>g_nodeUnit := nu, g_units := us\<rparr>) = nodeUnitMeta g"
  by (rule ext) (simp add: nodeUnitMeta_def)

lemma standalone_frame [simp]: "standalone (g\<lparr>g_nodeUnit := nu, g_units := us\<rparr>) = standalone g"
  by (rule ext) (simp add: standalone_def)

lemma addNodeUnit_alt:
  "addNodeUnit i g = (if standalone g i then g\<lparr>g_nodeUnit := (g_nodeUnit g)[i := int (length (g_units g))],
                                               g_units := g_units g @ [nodeUnitMeta g i]\<rparr> else g)"
  by (simp add: addNodeUnit_def standalone_def)

lemma addNodeUnits:
  assumes "distinct xs" "\<forall>i\<in>set xs. i < length (g_nodeUnit g)"
  shows "\<exists>nu us. fold addNodeUnit xs g = g\<lparr>g_nodeUnit := nu, g_units := us\<rparr>
     \<and> us = g_units g @ map (nodeUnitMeta g) (filter (standalone g) xs) \<and> length nu = length (g_nodeUnit g)
     \<and> (\<forall>i. i \<in> set xs \<and> standalone g i \<longrightarrow> (\<exists>u<length us. nu ! i = int u \<and> us ! u = nodeUnitMeta g i))
     \<and> (\<forall>i. \<not> (i \<in> set xs \<and> standalone g i) \<longrightarrow> nu ! i = g_nodeUnit g ! i)"
  using assms
proof (induction xs arbitrary: g)
  case Nil
  have "g = g\<lparr>g_nodeUnit := g_nodeUnit g, g_units := g_units g\<rparr>" by simp
  then show ?case by (metis append_Nil2 empty_iff filter.simps(1) fold_simps(1) list.set(1) list.simps(8))
next
  case (Cons x xs)
  show ?case
  proof (cases "standalone g x")
    case False
    then have "fold addNodeUnit (x # xs) g = fold addNodeUnit xs g" by (simp add: addNodeUnit_alt)
    moreover have "i \<in> set (x # xs) \<and> standalone g i \<longleftrightarrow> i \<in> set xs \<and> standalone g i" for i using False by auto
    moreover have "filter (standalone g) (x # xs) = filter (standalone g) xs" using False by simp
    moreover have "distinct xs" "\<forall>i\<in>set xs. i < length (g_nodeUnit g)" using Cons.prems by auto
    ultimately show ?thesis using Cons.IH [of g] by (simp only: simp_thms)
  next
    case True
    let ?g1 = "g\<lparr>g_nodeUnit := (g_nodeUnit g)[x := int (length (g_units g))], g_units := g_units g @ [nodeUnitMeta g x]\<rparr>"
    have "distinct xs" "\<forall>i\<in>set xs. i < length (g_nodeUnit ?g1)" using Cons.prems by auto
    from Cons.IH [OF this] obtain nu us where
      r: "fold addNodeUnit xs ?g1 = g\<lparr>g_nodeUnit := nu, g_units := us\<rparr>" "length nu = length (g_nodeUnit g)"
         "us = g_units g @ nodeUnitMeta g x # map (nodeUnitMeta g) (filter (standalone g) xs)"
         "\<And>i. i \<in> set xs \<Longrightarrow> standalone g i \<Longrightarrow> \<exists>u<length us. nu ! i = int u \<and> us ! u = nodeUnitMeta g i"
         "\<And>i. \<not> (i \<in> set xs \<and> standalone g i) \<Longrightarrow> nu ! i = (g_nodeUnit g)[x := int (length (g_units g))] ! i"
      by (elim exE conjE) auto
    have x: "nu ! x = int (length (g_units g))" using r(5) [of x] Cons.prems by simp
    have "fold addNodeUnit (x # xs) g = g\<lparr>g_nodeUnit := nu, g_units := us\<rparr>" using r(1) True by (simp add: addNodeUnit_alt)
    moreover have "\<exists>u<length us. nu ! i = int u \<and> us ! u = nodeUnitMeta g i" if "i \<in> set (x # xs)" "standalone g i" for i
    proof (cases "i = x")
      case True
      then show ?thesis using x r(3) by (intro exI [of _ "length (g_units g)"]) simp
    next
      case False
      then show ?thesis using that r(4) by simp
    qed
    moreover have "nu ! i = g_nodeUnit g ! i" if "\<not> (i \<in> set (x # xs) \<and> standalone g i)" for i
      using r(5) [of i] that True by (cases "i = x") auto
    ultimately show ?thesis using r(2,3) True by (intro exI [of _ nu] exI [of _ us]) simp
  qed
qed

lemma assignMembers_ok:
  assumes "\<forall>m\<in>set ms. 0 \<le> m \<and> m < int (length nu)"
  shows "\<exists>nu'. assignMembers u ms nu = Some nu' \<and> length nu' = length nu
    \<and> (\<forall>i<length nu. nu' ! i = (if int i \<in> set ms then u else nu ! i))"
  using assms
proof (induction ms arbitrary: nu)
  case (Cons m ms)
  let ?nu = "nu[nat m := u]"
  have "\<forall>m'\<in>set ms. 0 \<le> m' \<and> m' < int (length ?nu)" using Cons.prems by simp
  from Cons.IH [OF this] obtain nu' where r: "assignMembers u ms ?nu = Some nu'" "length nu' = length nu"
    "\<And>i. i < length nu \<Longrightarrow> nu' ! i = (if int i \<in> set ms then u else ?nu ! i)" by auto
  have "nu' ! i = (if int i \<in> set (m # ms) then u else nu ! i)" if "i < length nu" for i
    using r(3) [OF that] Cons.prems that by (cases "int i = m") (auto simp: nth_list_update)
  then show ?case using r Cons.prems by (auto simp: idx_def)
qed simp

lemma addGroupUnits:
  assumes "distinct gis" "\<forall>gi\<in>set gis. gi < length (g_groups g)"
    and "\<forall>gi\<in>set gis. \<forall>m\<in>set (gm_Members (g_groups g ! gi)). 0 \<le> m \<and> m < int (length (g_nodeUnit g))"
    and "\<forall>a\<in>set gis. \<forall>b\<in>set gis. a \<noteq> b \<longrightarrow> set (gm_Members (g_groups g ! a)) \<inter> set (gm_Members (g_groups g ! b)) = {}"
  shows "\<exists>gs us nu. foldO addGroupUnit gis g = Some (g\<lparr>g_groups := gs, g_units := us, g_nodeUnit := nu\<rparr>)
     \<and> us = g_units g @ map (\<lambda>gi. groupUnitMeta gi (g_groups g ! gi)) gis
     \<and> length nu = length (g_nodeUnit g) \<and> length gs = length (g_groups g)
     \<and> (\<forall>gi\<in>set gis. \<exists>u<length us. us ! u = groupUnitMeta gi (g_groups g ! gi) \<and> gs ! gi = (g_groups g ! gi)\<lparr>gm_UnitIdx := int u\<rparr>
           \<and> (\<forall>i<length nu. int i \<in> set (gm_Members (g_groups g ! gi)) \<longrightarrow> nu ! i = int u))
     \<and> (\<forall>gi. gi \<notin> set gis \<longrightarrow> gs ! gi = g_groups g ! gi)
     \<and> (\<forall>i<length nu. (\<forall>gi\<in>set gis. int i \<notin> set (gm_Members (g_groups g ! gi))) \<longrightarrow> nu ! i = g_nodeUnit g ! i)"
  using assms
proof (induction gis arbitrary: g)
  case Nil
  have "g = g\<lparr>g_groups := g_groups g, g_units := g_units g, g_nodeUnit := g_nodeUnit g\<rparr>" by simp
  then show ?case by (intro exI [of _ "g_groups g"] exI [of _ "g_units g"] exI [of _ "g_nodeUnit g"]) simp
next
  case (Cons x xs)
  let ?gm = "g_groups g ! x" and ?u = "length (g_units g)"
  have "\<forall>m\<in>set (gm_Members ?gm). 0 \<le> m \<and> m < int (length (g_nodeUnit g))" using Cons.prems by simp
  from assignMembers_ok [OF this, of "int ?u"] obtain nu1 where
    n1: "assignMembers (int ?u) (gm_Members ?gm) (g_nodeUnit g) = Some nu1" "length nu1 = length (g_nodeUnit g)"
        "\<And>i. i < length nu1 \<Longrightarrow> nu1 ! i = (if int i \<in> set (gm_Members ?gm) then int ?u else g_nodeUnit g ! i)" by auto
  let ?g1 = "g\<lparr>g_groups := (g_groups g)[x := ?gm\<lparr>gm_UnitIdx := int ?u\<rparr>], g_units := g_units g @ [groupUnitMeta x ?gm], g_nodeUnit := nu1\<rparr>"
  have same: "(g_groups g)[x := v] ! gi = g_groups g ! gi" if "gi \<in> set xs" for gi v
    using that Cons.prems(1) by (cases "gi = x") auto
  have step: "foldO addGroupUnit (x # xs) g = foldO addGroupUnit xs ?g1" using n1(1) by (simp add: addGroupUnit_def Let_def)
  have pre: "distinct xs" "\<forall>gi\<in>set xs. gi < length (g_groups ?g1)" using Cons.prems by auto
  have range: "\<forall>gi\<in>set xs. \<forall>m\<in>set (gm_Members (g_groups ?g1 ! gi)). 0 \<le> m \<and> m < int (length (g_nodeUnit ?g1))"
    using Cons.prems(3) n1(2) by (simp add: same)
  have disj: "\<forall>a\<in>set xs. \<forall>b\<in>set xs. a \<noteq> b \<longrightarrow> set (gm_Members (g_groups ?g1 ! a)) \<inter> set (gm_Members (g_groups ?g1 ! b)) = {}"
    using Cons.prems(4) by (simp add: same)
  from Cons.IH [OF pre range disj] obtain gs us nu where
    r: "foldO addGroupUnit xs ?g1 = Some (g\<lparr>g_groups := gs, g_units := us, g_nodeUnit := nu\<rparr>)"
       "us = g_units g @ groupUnitMeta x ?gm # map (\<lambda>gi. groupUnitMeta gi (g_groups g ! gi)) xs"
       "length nu = length (g_nodeUnit g)" "length gs = length (g_groups g)"
       "\<And>gi. gi \<in> set xs \<Longrightarrow> \<exists>u<length us. us ! u = groupUnitMeta gi (g_groups g ! gi) \<and> gs ! gi = (g_groups g ! gi)\<lparr>gm_UnitIdx := int u\<rparr>
           \<and> (\<forall>i<length nu. int i \<in> set (gm_Members (g_groups g ! gi)) \<longrightarrow> nu ! i = int u)"
       "\<And>gi. gi \<notin> set xs \<Longrightarrow> gs ! gi = (g_groups g)[x := ?gm\<lparr>gm_UnitIdx := int ?u\<rparr>] ! gi"
       "\<And>i. i < length nu \<Longrightarrow> (\<forall>gi\<in>set xs. int i \<notin> set (gm_Members (g_groups g ! gi))) \<Longrightarrow> nu ! i = nu1 ! i"
    using n1(2) by (elim exE conjE) (simp add: same cong: map_cong)
  have outside: "\<forall>gi\<in>set xs. int i \<notin> set (gm_Members (g_groups g ! gi))" if "int i \<in> set (gm_Members ?gm)" for i
    using Cons.prems(1,4) that by fastforce
  have x: "?u < length us" "us ! ?u = groupUnitMeta x ?gm" "gs ! x = ?gm\<lparr>gm_UnitIdx := int ?u\<rparr>"
    using r(2) r(6) [of x] Cons.prems(1,2) by simp_all
  moreover have "nu ! i = int ?u" if "i < length nu" "int i \<in> set (gm_Members ?gm)" for i
    using r(7) [OF that(1) outside [OF that(2)]] n1(2,3) r(3) that by simp
  ultimately have "\<exists>u<length us. us ! u = groupUnitMeta gi (g_groups g ! gi) \<and> gs ! gi = (g_groups g ! gi)\<lparr>gm_UnitIdx := int u\<rparr>
           \<and> (\<forall>i<length nu. int i \<in> set (gm_Members (g_groups g ! gi)) \<longrightarrow> nu ! i = int u)" if "gi \<in> set (x # xs)" for gi
    using r(5) [of gi] that by (metis set_ConsD)
  moreover have "gs ! gi = g_groups g ! gi" if "gi \<notin> set (x # xs)" for gi using r(6) [of gi] that by simp
  moreover have "nu ! i = g_nodeUnit g ! i" if "i < length nu" "\<forall>gi\<in>set (x # xs). int i \<notin> set (gm_Members (g_groups g ! gi))" for i
    using r(3,7) n1(2,3) that by simp
  ultimately show ?case unfolding step r(1) using r(2-4)
    by (intro exI [of _ gs] exI [of _ us] exI [of _ nu]) simp
qed

definition unitsOf :: "Graph \<Rightarrow> UnitMeta list" where
  "unitsOf g = map (nodeUnitMeta g) (filter (standalone g) [0..<length (g_nodes g)])
     @ map (\<lambda>gi. groupUnitMeta gi (g_groups g ! gi)) [0..<length (g_groups g)]"

definition housed :: "Graph \<Rightarrow> bool" where
  "housed g \<longleftrightarrow> length (g_nodeUnit g) = length (g_nodes g) \<and> (\<forall>i<length (g_nodes g).
     if nm_Kind (g_nodes g ! i) = NodeKindSupply then g_nodeUnit g ! i = -1
     else \<exists>u<length (g_units g). g_nodeUnit g ! i = int u \<and> unitHolds (g_units g ! u) (g_nodes g ! i) i)"

definition linked :: "Graph \<Rightarrow> bool" where
  "linked g \<longleftrightarrow> (\<forall>u<length (g_units g).
     if um_Kind (g_units g ! u) = UnitGroup
     then \<exists>gi<length (g_groups g). um_GroupIdx (g_units g ! u) = int gi
            \<and> (\<forall>gj<length (g_groups g). gm_UnitIdx (g_groups g ! gj) = int u \<longleftrightarrow> gj = gi)
     else \<forall>gj<length (g_groups g). gm_UnitIdx (g_groups g ! gj) \<noteq> int u)
     \<and> (\<forall>gm\<in>set (g_groups g). 0 \<le> gm_UnitIdx gm \<and> gm_UnitIdx gm < UnitCount g)"

lemma groupsOK_disjoint:
  assumes "groupsOK g" "a < length (g_groups g)" "b < length (g_groups g)" "a \<noteq> b"
  shows "set (gm_Members (g_groups g ! a)) \<inter> set (gm_Members (g_groups g ! b)) = {}"
proof -
  have "nm_GroupIdx (g_nodes g ! nat m) = int gi" if "m \<in> set (gm_Members (g_groups g ! gi))" "gi < length (g_groups g)" for m gi
    using assms(1) that unfolding groupsOK_def by blast
  then show ?thesis using assms(2-4) by (metis disjoint_iff of_nat_eq_iff)
qed

lemma unitsOf_group:
  assumes "u < length (unitsOf g)"
  shows "um_Kind (unitsOf g ! u) = UnitGroup \<longleftrightarrow> length (filter (standalone g) [0..<length (g_nodes g)]) \<le> u"
    and "um_Kind (unitsOf g ! u) = UnitGroup \<Longrightarrow>
      um_GroupIdx (unitsOf g ! u) = int (u - length (filter (standalone g) [0..<length (g_nodes g)]))"
  using assms by (auto simp: unitsOf_def nth_append nodeUnitMeta_def groupUnitMeta_def Let_def)

lemma unitsOf_groupUnit:
  assumes "u < length (unitsOf g)" "unitsOf g ! u = groupUnitMeta gi gm"
  shows "u = length (filter (standalone g) [0..<length (g_nodes g)]) + gi"
  using unitsOf_group [OF assms(1)] assms(2) by (simp add: groupUnitMeta_def)

lemma linked_units:
  assumes us: "g_units b = unitsOf g" and len: "length (g_groups b) = length (g_groups g)"
    and at: "\<And>gi. gi < length (g_groups g) \<Longrightarrow> \<exists>u<length (unitsOf g). unitsOf g ! u = groupUnitMeta gi (g_groups g ! gi)
               \<and> g_groups b ! gi = (g_groups g ! gi)\<lparr>gm_UnitIdx := int u\<rparr>"
  shows "linked b"
proof -
  let ?k = "length (filter (standalone g) [0..<length (g_nodes g)])"
  have idx: "gm_UnitIdx (g_groups b ! gj) = int (?k + gj)" if "gj < length (g_groups g)" for gj
    using at [OF that] unitsOf_groupUnit by fastforce
  have n: "length (unitsOf g) = ?k + length (g_groups g)" by (simp add: unitsOf_def)
  have "\<exists>gi<length (g_groups b). um_GroupIdx (g_units b ! u) = int gi \<and> (\<forall>gj<length (g_groups b). gm_UnitIdx (g_groups b ! gj) = int u \<longleftrightarrow> gj = gi)"
    if "u < length (g_units b)" "um_Kind (g_units b ! u) = UnitGroup" for u
    using unitsOf_group [of u g] that us n len idx by (intro exI [of _ "u - ?k"]) auto
  moreover have "gm_UnitIdx (g_groups b ! gj) \<noteq> int u" if "u < length (g_units b)" "um_Kind (g_units b ! u) \<noteq> UnitGroup" "gj < length (g_groups b)" for u gj
    using unitsOf_group(1) [of u g] that us len idx [of gj] by simp
  moreover have "0 \<le> gm_UnitIdx gm \<and> gm_UnitIdx gm < UnitCount b" if "gm \<in> set (g_groups b)" for gm
    using that us n len idx by (auto simp: in_set_conv_nth UnitCount_def)
  ultimately show ?thesis unfolding linked_def by simp
qed

lemma assignUnits_housed:
  assumes ok: "groupsOK g"
    and "us1 = map (nodeUnitMeta g) (filter (standalone g) [0..<length (g_nodes g)])" "length nu1 = length (g_nodes g)"
    and node: "\<And>i. i < length (g_nodes g) \<Longrightarrow> standalone g i \<Longrightarrow> \<exists>u<length us1. nu1 ! i = int u \<and> us1 ! u = nodeUnitMeta g i"
    and other: "\<And>i. i < length (g_nodes g) \<Longrightarrow> \<not> standalone g i \<Longrightarrow> nu1 ! i = -1"
    and us: "us = us1 @ map (\<lambda>gi. groupUnitMeta gi (g_groups g ! gi)) [0..<length (g_groups g)]"
    and len: "length nu = length (g_nodes g)" "length gs = length (g_groups g)"
    and grp: "\<And>gi. gi < length (g_groups g) \<Longrightarrow> \<exists>u<length us. us ! u = groupUnitMeta gi (g_groups g ! gi) \<and> gs ! gi = (g_groups g ! gi)\<lparr>gm_UnitIdx := int u\<rparr>
           \<and> (\<forall>i<length (g_nodes g). int i \<in> set (gm_Members (g_groups g ! gi)) \<longrightarrow> nu ! i = int u)"
    and keep: "\<And>i. i < length (g_nodes g) \<Longrightarrow> \<forall>gi<length (g_groups g). int i \<notin> set (gm_Members (g_groups g ! gi)) \<Longrightarrow> nu ! i = nu1 ! i"
  shows "housed (g\<lparr>g_groups := gs, g_units := us, g_nodeUnit := nu\<rparr>)"
proof -
  have "if nm_Kind (g_nodes g ! i) = NodeKindSupply then nu ! i = -1 else \<exists>u<length us. nu ! i = int u \<and> unitHolds (us ! u) (g_nodes g ! i) i"
    if i: "i < length (g_nodes g)" for i
  proof (cases "nm_GroupIdx (g_nodes g ! i) = -1")
    case True
    then have "int i \<notin> set (gm_Members (g_groups g ! gi))" if "gi < length (g_groups g)" for gi
      using ok that unfolding groupsOK_def by fastforce
    then have "nu ! i = nu1 ! i" using keep i by blast
    moreover have "\<exists>u<length us. nu1 ! i = int u \<and> us ! u = nodeUnitMeta g i" if "standalone g i"
      using node [OF i that] us by (auto simp: nth_append)
    ultimately show ?thesis using True other [OF i]
      by (auto simp: standalone_def unitHolds_def nodeUnitMeta_def Let_def)
  next
    case False
    then obtain gi where gi: "gi < length (g_groups g)" "nm_GroupIdx (g_nodes g ! i) = int gi" "int i \<in> set (gm_Members (g_groups g ! gi))"
      using ok i unfolding groupsOK_def by blast
    then have "nm_Kind (g_nodes g ! i) \<noteq> NodeKindSupply" using ok unfolding groupsOK_def by fastforce
    moreover obtain u where "u < length us" "us ! u = groupUnitMeta gi (g_groups g ! gi)" "nu ! i = int u"
      using grp [OF gi(1)] gi(3) i by blast
    ultimately show ?thesis using gi(2) by (auto simp: unitHolds_def groupUnitMeta_def)
  qed
  then show ?thesis using len by (simp add: housed_def)
qed

lemma assignUnits_ok:
  assumes ok: "groupsOK g"
  shows "\<exists>gs nu. assignUnits g = Some (g\<lparr>g_groups := gs, g_units := unitsOf g, g_nodeUnit := nu\<rparr>)
     \<and> length gs = length (g_groups g) \<and> map gm_ErrorOutputs gs = map gm_ErrorOutputs (g_groups g)
     \<and> housed (g\<lparr>g_groups := gs, g_units := unitsOf g, g_nodeUnit := nu\<rparr>)
     \<and> linked (g\<lparr>g_groups := gs, g_units := unitsOf g, g_nodeUnit := nu\<rparr>)"
proof -
  let ?n = "length (g_nodes g)" and ?g0 = "g\<lparr>g_nodeUnit := replicate (length (g_nodes g)) (-1), g_units := []\<rparr>"
  have "\<forall>i\<in>set [0..<?n]. i < length (g_nodeUnit ?g0)" by simp
  from addNodeUnits [OF distinct_upt this] obtain nu1 us1 where p1: "fold addNodeUnit [0..<?n] ?g0 = g\<lparr>g_nodeUnit := nu1, g_units := us1\<rparr>"
    "us1 = map (nodeUnitMeta g) (filter (standalone g) [0..<?n])" "length nu1 = ?n"
    "\<And>i. i < ?n \<Longrightarrow> standalone g i \<Longrightarrow> \<exists>u<length us1. nu1 ! i = int u \<and> us1 ! u = nodeUnitMeta g i"
    "\<And>i. i < ?n \<Longrightarrow> \<not> standalone g i \<Longrightarrow> nu1 ! i = -1"
    by (elim exE conjE) auto
  let ?g1 = "g\<lparr>g_nodeUnit := nu1, g_units := us1\<rparr>"
  have mem: "\<forall>gi\<in>set [0..<length (g_groups g)]. \<forall>m\<in>set (gm_Members (g_groups ?g1 ! gi)). 0 \<le> m \<and> m < int (length (g_nodeUnit ?g1))"
    using ok p1(3) by (auto simp: groupsOK_def NodeCount_def)
  have sep: "\<forall>gi\<in>set [0..<length (g_groups g)]. gi < length (g_groups ?g1)"
    "\<forall>a\<in>set [0..<length (g_groups g)]. \<forall>b\<in>set [0..<length (g_groups g)]. a \<noteq> b \<longrightarrow>
       set (gm_Members (g_groups ?g1 ! a)) \<inter> set (gm_Members (g_groups ?g1 ! b)) = {}"
    using groupsOK_disjoint [OF ok] by auto
  from addGroupUnits [OF distinct_upt sep(1) mem sep(2)] obtain gs us nu where
    p2: "foldO addGroupUnit [0..<length (g_groups g)] ?g1 = Some (g\<lparr>g_groups := gs, g_units := us, g_nodeUnit := nu\<rparr>)"
     "us = us1 @ map (\<lambda>gi. groupUnitMeta gi (g_groups g ! gi)) [0..<length (g_groups g)]"
     "length nu = ?n" "length gs = length (g_groups g)"
     "\<And>gi. gi < length (g_groups g) \<Longrightarrow> \<exists>u<length us. us ! u = groupUnitMeta gi (g_groups g ! gi) \<and> gs ! gi = (g_groups g ! gi)\<lparr>gm_UnitIdx := int u\<rparr>
           \<and> (\<forall>i<?n. int i \<in> set (gm_Members (g_groups g ! gi)) \<longrightarrow> nu ! i = int u)"
     "\<And>i. i < ?n \<Longrightarrow> \<forall>gi<length (g_groups g). int i \<notin> set (gm_Members (g_groups g ! gi)) \<Longrightarrow> nu ! i = nu1 ! i"
    using p1(3) by (elim exE conjE) (simp add: Ball_def)
  have us: "us = unitsOf g" by (simp add: p2(2) p1(2) unitsOf_def)
  let ?b = "g\<lparr>g_groups := gs, g_units := unitsOf g, g_nodeUnit := nu\<rparr>"
  have "linked ?b" using p2(4,5) us by (intro linked_units [where g = g]) auto
  moreover have "housed ?b" unfolding us [symmetric] by (rule assignUnits_housed [OF ok]) (fact p1 p2)+
  moreover have "map gm_ErrorOutputs gs = map gm_ErrorOutputs (g_groups g)"
  proof (rule nth_equalityI)
    fix gi assume "gi < length (map gm_ErrorOutputs gs)"
    then show "map gm_ErrorOutputs gs ! gi = map gm_ErrorOutputs (g_groups g) ! gi" using p2(4) p2(5) [of gi] by auto
  qed (simp add: p2(4))
  ultimately show ?thesis using p1(1) p2(1,4) us by (auto simp: assignUnits_def)
qed

section \<open>The edges between units\<close>

definition bordered :: "UnitEdge multiset \<Rightarrow> GroupMeta \<Rightarrow> bool" where
  "bordered es gm \<longleftrightarrow>
     mset (gm_BoundaryOutputs gm) = image_mset boundaryOf (filter_mset (\<lambda>ue. \<not> ue_ErrorEdge ue \<and> ue_SrcUnit ue = gm_UnitIdx gm) es)
     \<and> mset (gm_BoundaryInputs gm) = image_mset boundaryOf (filter_mset (\<lambda>ue. \<not> ue_ErrorEdge ue \<and> ue_DstUnit ue = gm_UnitIdx gm) es)"

definition wired :: "UnitEdge multiset \<Rightarrow> Graph \<Rightarrow> bool" where
  "wired es g \<longleftrightarrow> linked g
     \<and> listsWF ue_SrcUnit ue_DstUnit (length (g_units g)) (g_unitOutEdges g) (g_unitInEdges g) (g_unitInDegree g)
     \<and> mset (concat (g_unitOutEdges g)) = es
     \<and> (\<forall>gm\<in>set (g_groups g). bordered es gm)"

text \<open>What the edge passes leave alone: everything but the edge lists and the
  boundary lists of the groups.\<close>

definition sameShape :: "Graph \<Rightarrow> Graph \<Rightarrow> bool" where
  "sameShape g g' \<longleftrightarrow> g_nodes g' = g_nodes g \<and> g_units g' = g_units g \<and> g_nodeUnit g' = g_nodeUnit g
     \<and> g_outEdges g' = g_outEdges g \<and> g_allowCycles g' = g_allowCycles g
     \<and> map gm_UnitIdx (g_groups g') = map gm_UnitIdx (g_groups g)
     \<and> map gm_Members (g_groups g') = map gm_Members (g_groups g)
     \<and> map gm_ErrorOutputs (g_groups g') = map gm_ErrorOutputs (g_groups g)"

lemma sameShape_refl [simp]: "sameShape g g"
  by (simp add: sameShape_def)

lemma sameShape_trans: "sameShape a b \<Longrightarrow> sameShape b c \<Longrightarrow> sameShape a c"
  by (simp add: sameShape_def)

lemma linked_shape:
  assumes "linked g" "g_units g' = g_units g" "map gm_UnitIdx (g_groups g') = map gm_UnitIdx (g_groups g)"
  shows "linked g'"
proof -
  have l: "length (g_groups g') = length (g_groups g)" using map_eq_imp_length_eq [OF assms(3)] .
  have "gm_UnitIdx (g_groups g' ! j) = gm_UnitIdx (g_groups g ! j)" if "j < length (g_groups g)" for j
    using arg_cong [OF assms(3), of "\<lambda>xs. xs ! j"] that l by simp
  moreover have "gm_UnitIdx ` set (g_groups g') = gm_UnitIdx ` set (g_groups g)" using assms(3) by (metis set_map)
  then have "\<forall>gm\<in>set (g_groups g'). 0 \<le> gm_UnitIdx gm \<and> gm_UnitIdx gm < UnitCount g"
    using assms(1) unfolding linked_def by (metis (no_types, lifting) image_iff)
  ultimately show ?thesis using assms(1,2) l by (simp add: linked_def UnitCount_def)
qed

lemma wired_reset:
  assumes "linked g"
  shows "wired {#} (resetUnitEdges g)" "sameShape g (resetUnitEdges g)"
proof -
  show s: "sameShape g (resetUnitEdges g)" by (simp add: sameShape_def resetUnitEdges_def)
  have "linked (resetUnitEdges g)" using linked_shape [OF assms] s by (simp add: sameShape_def)
  then show "wired {#} (resetUnitEdges g)" by (auto simp: wired_def bordered_def resetUnitEdges_def listsWF_empty)
qed

lemma recordUnitEdge_ok:
  assumes "listsWF ue_SrcUnit ue_DstUnit n (g_unitOutEdges g) (g_unitInEdges g) (g_unitInDegree g)"
    and "0 \<le> ue_SrcUnit ue" "ue_SrcUnit ue < int n" "0 \<le> ue_DstUnit ue" "ue_DstUnit ue < int n"
  shows "recordUnitEdge ue g = Some (g\<lparr>g_unitOutEdges := appendAt (g_unitOutEdges g) (ue_SrcUnit ue) ue,
                  g_unitInEdges := appendAt (g_unitInEdges g) (ue_DstUnit ue) ue,
                  g_unitInDegree := (g_unitInDegree g)[nat (ue_DstUnit ue) := g_unitInDegree g ! nat (ue_DstUnit ue) + 1]\<rparr>)"
  using assms by (simp add: recordUnitEdge_def idx_def listsWF_def)

lemma noteBoundary_ok:
  assumes "linked g" "u < length (g_units g)"
  shows "noteBoundary (int u) note g = Some (g\<lparr>g_groups := map (\<lambda>gm. if gm_UnitIdx gm = int u then note gm else gm) (g_groups g)\<rparr>)"
proof (cases "um_Kind (g_units g ! u) = UnitGroup")
  case True
  then have "\<exists>gi<length (g_groups g). um_GroupIdx (g_units g ! u) = int gi
      \<and> (\<forall>gj<length (g_groups g). gm_UnitIdx (g_groups g ! gj) = int u \<longleftrightarrow> gj = gi)"
    using assms unfolding linked_def by presburger
  then obtain gi where gi: "gi < length (g_groups g)" "um_GroupIdx (g_units g ! u) = int gi"
    "\<And>gj. gj < length (g_groups g) \<Longrightarrow> gm_UnitIdx (g_groups g ! gj) = int u \<longleftrightarrow> gj = gi" by blast
  have "(g_groups g)[gi := note (g_groups g ! gi)] = map (\<lambda>gm. if gm_UnitIdx gm = int u then note gm else gm) (g_groups g)"
    using gi(3) by (intro nth_equalityI) (auto simp: nth_list_update)
  then show ?thesis using True gi(1,2) assms(2) by (simp add: noteBoundary_def)
next
  case False
  then have "\<forall>gm\<in>set (g_groups g). gm_UnitIdx gm \<noteq> int u" using assms by (auto simp: linked_def in_set_conv_nth)
  then have "map (\<lambda>gm. if gm_UnitIdx gm = int u then note gm else gm) (g_groups g) = g_groups g" by (simp add: map_idI)
  then show ?thesis using False assms(2) by (simp add: noteBoundary_def)
qed

lemma record_wired:
  assumes w: "wired es g" and src: "u < length (g_units g)" "ue_SrcUnit ue = int u"
    and dst: "v < length (g_units g)" "ue_DstUnit ue = int v"
  shows "\<exists>g'. recordUnitEdge ue g = Some g' \<and> sameShape g g' \<and> linked g' \<and> g_groups g' = g_groups g
     \<and> listsWF ue_SrcUnit ue_DstUnit (length (g_units g)) (g_unitOutEdges g') (g_unitInEdges g') (g_unitInDegree g')
     \<and> mset (concat (g_unitOutEdges g')) = add_mset ue es"
proof -
  have wf: "listsWF ue_SrcUnit ue_DstUnit (length (g_units g)) (g_unitOutEdges g) (g_unitInEdges g) (g_unitInDegree g)"
    and es: "mset (concat (g_unitOutEdges g)) = es" and l: "linked g" using w by (simp_all add: wired_def)
  have r: "0 \<le> ue_SrcUnit ue" "ue_SrcUnit ue < int (length (g_units g))" "0 \<le> ue_DstUnit ue" "ue_DstUnit ue < int (length (g_units g))"
    using src dst by simp_all
  show ?thesis
    unfolding recordUnitEdge_ok [OF wf r]
    using listsWF_add [OF wf r] es linked_shape [OF l] by (simp add: sameShape_def)
qed

definition unitOf :: "Graph \<Rightarrow> int \<Rightarrow> int" where
  "unitOf g i = g_nodeUnit g ! nat i"

definition placed :: "Graph \<Rightarrow> int \<Rightarrow> bool" where
  "placed g i \<longleftrightarrow> 0 \<le> i \<and> i < int (length (g_nodeUnit g)) \<and> 0 \<le> unitOf g i \<and> unitOf g i < UnitCount g"

lemma placed_idx: "placed g i \<Longrightarrow> idx (g_nodeUnit g) i = Some (unitOf g i)"
  by (simp add: placed_def idx_def unitOf_def)

lemma placed_shape: "sameShape g g' \<Longrightarrow> placed g' i = placed g i" "sameShape g g' \<Longrightarrow> unitOf g' = unitOf g"
  by (auto simp: placed_def sameShape_def unitOf_def UnitCount_def)

lemma housed_placed:
  assumes "housed g" "0 \<le> i" "i < NodeCount g" "nm_Kind (g_nodes g ! nat i) \<noteq> NodeKindSupply"
  shows "placed g i"
proof -
  have "nat i < length (g_nodes g)" using assms by (simp add: NodeCount_def nat_less_iff)
  then have "\<exists>u<length (g_units g). g_nodeUnit g ! nat i = int u" using assms(1,4) unfolding housed_def by meson
  then show ?thesis using assms by (auto simp: placed_def unitOf_def UnitCount_def housed_def NodeCount_def)
qed

lemma foldO_collect:
  fixes acc :: "'m::comm_monoid_add"
  assumes "\<And>x acc s. P acc s \<Longrightarrow> x \<in> set xs \<Longrightarrow> \<exists>s'. f x s = Some s' \<and> P (acc + h x) s'" "P acc s"
  shows "\<exists>s'. foldO f xs s = Some s' \<and> P (acc + sum_list (map h xs)) s'"
  using assms
proof (induction xs arbitrary: acc s)
  case (Cons x xs)
  obtain s' where s': "f x s = Some s'" "P (acc + h x) s'" using Cons.prems(1) [OF Cons.prems(2), of x] by auto
  have "\<exists>t. foldO f xs s' = Some t \<and> P (acc + h x + sum_list (map h xs)) t"
    using Cons.prems(1) by (intro Cons.IH [OF _ s'(2)]) auto
  then show ?case using s'(1) by (simp add: add.assoc)
qed simp

definition crossing :: "Graph \<Rightarrow> Edge \<Rightarrow> UnitEdge multiset" where
  "crossing g e = (if unitOf g (e_SrcIdx e) = unitOf g (e_DstIdx e) then {#}
     else {#crossingEdge e (unitOf g (e_SrcIdx e)) (unitOf g (e_DstIdx e))#})"

definition failing :: "Graph \<Rightarrow> int \<times> BoundaryEndpoint \<Rightarrow> UnitEdge" where
  "failing g t = errorEdge (fst t) (unitOf g (be_NodeIdx (snd t))) (snd t)"

lemma crossingEdge_sel [simp]:
  "ue_SrcUnit (crossingEdge e su du) = su" "ue_DstUnit (crossingEdge e su du) = du" "\<not> ue_ErrorEdge (crossingEdge e su du)"
  by (simp_all add: crossingEdge_def)

lemma errorEdge_sel [simp]:
  "ue_SrcUnit (errorEdge su du d) = su" "ue_DstUnit (errorEdge su du d) = du" "ue_ErrorEdge (errorEdge su du d)"
  by (simp_all add: errorEdge_def)

lemma addUnitEdge_wired:
  assumes w: "wired es g" and p: "placed g (e_SrcIdx e)" "placed g (e_DstIdx e)"
  shows "\<exists>g'. addUnitEdge e g = Some g' \<and> wired (es + crossing g e) g' \<and> sameShape g g'"
proof (cases "unitOf g (e_SrcIdx e) = unitOf g (e_DstIdx e)")
  case True
  then show ?thesis using w by (simp add: addUnitEdge_def placed_idx p crossing_def)
next
  case False
  define u v where "u = nat (unitOf g (e_SrcIdx e))" and "v = nat (unitOf g (e_DstIdx e))"
  have uv: "unitOf g (e_SrcIdx e) = int u" "unitOf g (e_DstIdx e) = int v" "u < length (g_units g)" "v < length (g_units g)"
    using p by (auto simp: u_def v_def placed_def UnitCount_def nat_less_iff)
  let ?ue = "crossingEdge e (int u) (int v)"
  obtain g1 where g1: "recordUnitEdge ?ue g = Some g1" "sameShape g g1" "linked g1" "g_groups g1 = g_groups g"
     "listsWF ue_SrcUnit ue_DstUnit (length (g_units g)) (g_unitOutEdges g1) (g_unitInEdges g1) (g_unitInDegree g1)"
     "mset (concat (g_unitOutEdges g1)) = add_mset ?ue es"
    using record_wired [OF w uv(3) _ uv(4), of ?ue] by auto
  have units: "g_units g1 = g_units g" using g1(2) by (simp add: sameShape_def)
  define out :: "GroupMeta \<Rightarrow> GroupMeta" where "out = (\<lambda>gm. if gm_UnitIdx gm = int u then gm\<lparr>gm_BoundaryOutputs := gm_BoundaryOutputs gm @ [boundaryOf ?ue]\<rparr> else gm)"
  define inp :: "GroupMeta \<Rightarrow> GroupMeta" where "inp = (\<lambda>gm. if gm_UnitIdx gm = int v then gm\<lparr>gm_BoundaryInputs := gm_BoundaryInputs gm @ [boundaryOf ?ue]\<rparr> else gm)"
  have idx: "gm_UnitIdx (out gm) = gm_UnitIdx gm" "gm_UnitIdx (inp gm) = gm_UnitIdx gm"
    "gm_Members (out gm) = gm_Members gm" "gm_Members (inp gm) = gm_Members gm"
    "gm_ErrorOutputs (out gm) = gm_ErrorOutputs gm" "gm_ErrorOutputs (inp gm) = gm_ErrorOutputs gm" for gm
    by (simp_all add: out_def inp_def)
  let ?g2 = "g1\<lparr>g_groups := map out (g_groups g1)\<rparr>"
  let ?g3 = "g1\<lparr>g_groups := map inp (map out (g_groups g))\<rparr>"
  have l: "linked ?g2" "linked ?g3" by (rule linked_shape [OF g1(3)]; simp add: idx g1(4) comp_def)+
  have "addUnitEdge e g = Some ?g3"
    using False g1(1) noteBoundary_ok [OF g1(3)] noteBoundary_ok [OF l(1)] units uv(3,4) g1(4)
    by (simp add: addUnitEdge_def placed_idx p uv Let_def flip: out_def inp_def)
  moreover have "sameShape g ?g3" using g1(2,4) by (simp add: sameShape_def comp_def idx)
  moreover have "bordered (add_mset ?ue es) (inp (out gm))" if "gm \<in> set (g_groups g)" for gm
    using w that unfolding wired_def bordered_def out_def inp_def by simp
  then have "wired (add_mset ?ue es) ?g3" using g1(4-6) units l(2) by (simp add: wired_def)
  ultimately show ?thesis using False by (simp add: crossing_def uv)
qed

lemma addErrorEdge_wired:
  assumes w: "wired es g" and p: "placed g (be_NodeIdx (snd t))" and src: "0 \<le> fst t" "fst t < UnitCount g"
  shows "\<exists>g'. addErrorEdge t g = Some g' \<and> wired (es + {#failing g t#}) g' \<and> sameShape g g'"
proof -
  have "unitOf g (be_NodeIdx (snd t)) = int (nat (unitOf g (be_NodeIdx (snd t))))" "nat (unitOf g (be_NodeIdx (snd t))) < length (g_units g)"
    "fst t = int (nat (fst t))" "nat (fst t) < length (g_units g)"
    using p src by (auto simp: placed_def UnitCount_def nat_less_iff)
  then obtain g1 where "recordUnitEdge (failing g t) g = Some g1" "sameShape g g1" "linked g1" "g_groups g1 = g_groups g"
     "listsWF ue_SrcUnit ue_DstUnit (length (g_units g)) (g_unitOutEdges g1) (g_unitInEdges g1) (g_unitInDegree g1)"
     "mset (concat (g_unitOutEdges g1)) = add_mset (failing g t) es"
    using record_wired [OF w, of "nat (fst t)" "failing g t" "nat (unitOf g (be_NodeIdx (snd t)))"] by (auto simp: failing_def)
  moreover from this have "wired (add_mset (failing g t) es) g1" using w by (simp add: wired_def bordered_def sameShape_def failing_def)
  ultimately show ?thesis by (simp add: addErrorEdge_def placed_idx p failing_def)
qed

lemma listsWF_perm:
  assumes "listsWF src dst n outs ins indeg" "\<And>xs. mset (f xs) = mset xs"
  shows "listsWF src dst n (map f outs) (map f ins) indeg" "mset (concat (map f outs)) = mset (concat outs)"
proof -
  have set_f: "set (f xs) = set xs" for xs using assms(2) by (metis set_mset_mset)
  have len_f: "length (f xs) = length xs" for xs using assms(2) by (metis size_mset)
  show m: "mset (concat (map f outs)) = mset (concat outs)" by (induction outs) (simp_all add: assms(2))
  then show "listsWF src dst n (map f outs) (map f ins) indeg"
    using assms(1) by (simp add: listsWF_def set_f len_f assms(2))
qed

lemma sortUnitEdges_wired:
  assumes "wired es g"
  shows "wired es (sortUnitEdges g)" "sameShape g (sortUnitEdges g)"
proof -
  show s: "sameShape g (sortUnitEdges g)" by (simp add: sameShape_def sortUnitEdges_def)
  then have "linked (sortUnitEdges g)" using linked_shape [of g] assms by (simp add: sameShape_def wired_def)
  moreover have "listsWF ue_SrcUnit ue_DstUnit (length (g_units g)) (g_unitOutEdges g) (g_unitInEdges g) (g_unitInDegree g)"
    using assms by (simp add: wired_def)
  from listsWF_perm [OF this, of "sort_key unitEdgeKey"]
  have "listsWF ue_SrcUnit ue_DstUnit (length (g_units g)) (map (sort_key unitEdgeKey) (g_unitOutEdges g))
          (map (sort_key unitEdgeKey) (g_unitInEdges g)) (g_unitInDegree g)"
    "mset (concat (map (sort_key unitEdgeKey) (g_unitOutEdges g))) = mset (concat (g_unitOutEdges g))" by simp_all
  ultimately show "wired es (sortUnitEdges g)"
    using assms by (auto simp: wired_def sortUnitEdges_def bordered_def sortBoundary_def)
qed

definition supplyFree :: "Graph \<Rightarrow> bool" where
  "supplyFree g \<longleftrightarrow> (\<forall>e\<in>set (concat (g_outEdges g)).
     nm_Kind (g_nodes g ! nat (e_SrcIdx e)) \<noteq> NodeKindSupply \<and> nm_Kind (g_nodes g ! nat (e_DstIdx e)) \<noteq> NodeKindSupply)"

definition unitEdgesOf :: "Graph \<Rightarrow> UnitEdge multiset" where
  "unitEdgesOf g =
     mset (map (\<lambda>e. crossingEdge e (unitOf g (e_SrcIdx e)) (unitOf g (e_DstIdx e)))
            (filter (\<lambda>e. unitOf g (e_SrcIdx e) \<noteq> unitOf g (e_DstIdx e)) (concat (g_outEdges g))))
     + mset (map (\<lambda>t. errorEdge (fst t) (unitOf g (be_NodeIdx (snd t))) (snd t)) (errorTargets g))"

definition unitRel :: "Graph \<Rightarrow> (int \<times> int) set" where
  "unitRel g = edgeRel (map (map ue_DstUnit) (g_unitOutEdges g))"

lemma sum_crossing:
  "sum_list (map (crossing g) es) =
     mset (map (\<lambda>e. crossingEdge e (unitOf g (e_SrcIdx e)) (unitOf g (e_DstIdx e)))
       (filter (\<lambda>e. unitOf g (e_SrcIdx e) \<noteq> unitOf g (e_DstIdx e)) es))"
  by (induction es) (simp_all add: crossing_def)

lemma sum_failing: "sum_list (map (\<lambda>t. {#failing g t#}) ts) = mset (map (failing g) ts)"
  by (induction ts) simp_all

lemma errorTargets_shape:
  assumes "sameShape g g'"
  shows "errorTargets g' = errorTargets g"
proof -
  have "errorTargets h = concat (map (\<lambda>(u, ds). map (Pair u) ds) (zip (map gm_UnitIdx (g_groups h)) (map gm_ErrorOutputs (g_groups h))))" for h
    by (simp add: errorTargets_def zip_map_map zip_same_conv_map comp_def)
  then show ?thesis using assms by (simp add: sameShape_def)
qed

lemma errorTargets_placed:
  assumes l: "linked g" and h: "housed g" and n: "g_nodes g = g_nodes g0"
    and outs: "map gm_ErrorOutputs (g_groups g) = map gm_ErrorOutputs (g_groups g0)" and ok: "groupsOK g0" and t: "t \<in> set (errorTargets g)"
  shows "placed g (be_NodeIdx (snd t)) \<and> 0 \<le> fst t \<and> fst t < UnitCount g"
proof -
  obtain gm where gm: "gm \<in> set (g_groups g)" "fst t = gm_UnitIdx gm" "snd t \<in> set (gm_ErrorOutputs gm)"
    using t by (auto simp: errorTargets_def)
  then have "gm_ErrorOutputs gm \<in> set (map gm_ErrorOutputs (g_groups g0))" by (metis image_eqI list.set_map outs)
  then obtain gi where gi: "gi < length (g_groups g0)" "gm_ErrorOutputs gm = gm_ErrorOutputs (g_groups g0 ! gi)"
    by (metis (no_types, lifting) in_set_conv_nth length_map nth_map)
  have "0 \<le> be_NodeIdx (snd t) \<and> be_NodeIdx (snd t) < NodeCount g0 \<and> nm_Kind (g_nodes g0 ! nat (be_NodeIdx (snd t))) \<noteq> NodeKindSupply"
    using ok gm(3) gi unfolding groupsOK_def by metis
  then show ?thesis using housed_placed [OF h] l gm n by (simp add: linked_def NodeCount_def)
qed

lemma edgesWF_range:
  assumes "edgesWF g" "e \<in> set (concat (g_outEdges g))"
  shows "0 \<le> e_SrcIdx e" "e_SrcIdx e < NodeCount g" "0 \<le> e_DstIdx e" "e_DstIdx e < NodeCount g"
proof -
  obtain es where es: "es \<in> set (g_outEdges g)" "e \<in> set es" using assms(2) by auto
  then obtain i where "i < length (g_outEdges g)" "es = g_outEdges g ! i" by (metis in_set_conv_nth)
  then show "0 \<le> e_SrcIdx e" "e_SrcIdx e < NodeCount g" "0 \<le> e_DstIdx e" "e_DstIdx e < NodeCount g"
    using assms(1) es(2) by (auto simp: edgesWF_def listsWF_def NodeCount_def)
qed

lemma edges_placed:
  assumes "edgesWF g" "supplyFree g" "housed b" "g_nodes b = g_nodes g" "e \<in> set (concat (g_outEdges g))"
  shows "placed b (e_SrcIdx e) \<and> placed b (e_DstIdx e)"
proof -
  have "nm_Kind (g_nodes g ! nat (e_SrcIdx e)) \<noteq> NodeKindSupply" "nm_Kind (g_nodes g ! nat (e_DstIdx e)) \<noteq> NodeKindSupply"
    using assms(2,5) unfolding supplyFree_def by blast+
  then show ?thesis using housed_placed [OF assms(3)] edgesWF_range [OF assms(1,5)] assms(4) by (simp add: NodeCount_def)
qed

lemma buildUnitEdges_ok:
  assumes l: "linked b"
    and pe: "\<And>e. e \<in> set (concat (g_outEdges b)) \<Longrightarrow> placed b (e_SrcIdx e) \<and> placed b (e_DstIdx e)"
    and pt: "\<And>t. t \<in> set (errorTargets b) \<Longrightarrow> placed b (be_NodeIdx (snd t)) \<and> 0 \<le> fst t \<and> fst t < UnitCount b"
  shows "\<exists>g'. buildUnitEdges b = Some g' \<and> sameShape b g' \<and> wired (unitEdgesOf b) g'"
proof -
  let ?P = "\<lambda>es s. wired es s \<and> sameShape b s"
  have "\<exists>s'. addUnitEdge e s = Some s' \<and> ?P (acc + crossing b e) s'" if "?P acc s" "e \<in> set (concat (g_outEdges b))" for e acc s
  proof -
    have "crossing s e = crossing b e" using that(1) placed_shape(2) [of b s] by (simp add: crossing_def)
    then show ?thesis using addUnitEdge_wired [of acc s e] that pe placed_shape(1) sameShape_trans by metis
  qed
  then have "\<exists>s'. foldO addUnitEdge (concat (g_outEdges b)) (resetUnitEdges b) = Some s'
      \<and> ?P ({#} + sum_list (map (crossing b) (concat (g_outEdges b)))) s'"
    using wired_reset [OF l] by (intro foldO_collect [where P = ?P]) blast+
  then obtain g1 where
    g1: "foldO addUnitEdge (concat (g_outEdges b)) (resetUnitEdges b) = Some g1"
        "wired ({#} + sum_list (map (crossing b) (concat (g_outEdges b)))) g1" "sameShape b g1" by blast
  have t: "errorTargets g1 = errorTargets b" by (rule errorTargets_shape [OF g1(3)])
  have "\<exists>s'. addErrorEdge t s = Some s' \<and> ?P (acc + {#failing b t#}) s'" if "?P acc s" "t \<in> set (errorTargets b)" for t acc s
  proof -
    have "failing s t = failing b t" "UnitCount s = UnitCount b" using that(1) placed_shape(2) [of b s] by (simp_all add: failing_def sameShape_def UnitCount_def)
    then show ?thesis using addErrorEdge_wired [of acc s t] that pt placed_shape(1) sameShape_trans by metis
  qed
  then have "\<exists>s'. foldO addErrorEdge (errorTargets b) g1 = Some s'
      \<and> ?P ({#} + sum_list (map (crossing b) (concat (g_outEdges b))) + sum_list (map (\<lambda>t. {#failing b t#}) (errorTargets b))) s'"
    using g1(2,3) by (intro foldO_collect [where P = ?P]) blast+
  then obtain g2 where
    g2: "foldO addErrorEdge (errorTargets b) g1 = Some g2"
        "wired ({#} + sum_list (map (crossing b) (concat (g_outEdges b))) + sum_list (map (\<lambda>t. {#failing b t#}) (errorTargets b))) g2"
        "sameShape b g2" by blast
  have "wired (unitEdgesOf b) g2"
    using g2(2) unfolding sum_crossing sum_failing unitEdgesOf_def by (simp add: failing_def [abs_def])
  then show ?thesis using g1(1) g2(1,3) t sortUnitEdges_wired sameShape_trans by (auto simp: buildUnitEdges_def)
qed

lemma housed_shape: "sameShape b g \<Longrightarrow> housed g = housed b"
  unfolding housed_def sameShape_def by (elim conjE) (simp only:)

lemma unitEdgesOf_shape: "sameShape b g \<Longrightarrow> unitEdgesOf g = unitEdgesOf b"
  using placed_shape(2) [of b g] errorTargets_shape [of b g] by (simp add: unitEdgesOf_def sameShape_def)

lemma detectUnitCycle_exact:
  assumes "listsWF ue_SrcUnit ue_DstUnit (length (g_units g)) (g_unitOutEdges g) (g_unitInEdges g) (g_unitInDegree g)"
  shows "\<exists>r. detectUnitCycle g = Some r \<and> (r = Inr () \<longleftrightarrow> acyclic (unitRel g))"
proof -
  have "length (g_unitInDegree g) = length (g_units g)" "length (g_unitOutEdges g) = length (g_units g)" using assms by (simp_all add: listsWF_def)
  then show ?thesis using kahn_decides [OF listsWF_inDegrees [OF assms]]
    by (auto simp: detectUnitCycle_def unitRel_def UnitCount_def)
qed

text \<open>On a graph whose edges are in range, touch no supply node and whose groups are
  consistent with their members, the unit pass is exact.\<close>

lemma buildUnits_ok:
  assumes "edgesWF g" "supplyFree g" "groupsOK g"
  shows "\<exists>g' r. buildUnits g = Some (g', r) \<and> g_nodes g' = g_nodes g \<and> g_units g' = unitsOf g \<and> housed g'
     \<and> listsWF ue_SrcUnit ue_DstUnit (length (g_units g')) (g_unitOutEdges g') (g_unitInEdges g') (g_unitInDegree g')
     \<and> mset (concat (g_unitOutEdges g')) = unitEdgesOf g' \<and> (\<forall>gm\<in>set (g_groups g'). bordered (unitEdgesOf g') gm)
     \<and> (r = Inr () \<longleftrightarrow> g_allowCycles g \<or> acyclic (unitRel g'))"
proof -
  obtain gs nu where b: "assignUnits g = Some (g\<lparr>g_groups := gs, g_units := unitsOf g, g_nodeUnit := nu\<rparr>)"
     "map gm_ErrorOutputs gs = map gm_ErrorOutputs (g_groups g)"
     "housed (g\<lparr>g_groups := gs, g_units := unitsOf g, g_nodeUnit := nu\<rparr>)"
     "linked (g\<lparr>g_groups := gs, g_units := unitsOf g, g_nodeUnit := nu\<rparr>)"
    using assignUnits_ok [OF assms(3)] by auto
  let ?b = "g\<lparr>g_groups := gs, g_units := unitsOf g, g_nodeUnit := nu\<rparr>"
  have "placed ?b (e_SrcIdx e) \<and> placed ?b (e_DstIdx e)" if "e \<in> set (concat (g_outEdges ?b))" for e
    using edges_placed [OF assms(1,2) b(3)] that by simp
  moreover have "placed ?b (be_NodeIdx (snd t)) \<and> 0 \<le> fst t \<and> fst t < UnitCount ?b" if "t \<in> set (errorTargets ?b)" for t
    using errorTargets_placed [OF b(4,3) _ _ assms(3) that] b(2) by simp
  ultimately obtain g' where g': "buildUnitEdges ?b = Some g'" "sameShape ?b g'" "wired (unitEdgesOf ?b) g'"
    using buildUnitEdges_ok [OF b(4)] by blast
  have w: "wired (unitEdgesOf g') g'" using g'(3) unitEdgesOf_shape [OF g'(2)] by simp
  then have wf: "listsWF ue_SrcUnit ue_DstUnit (length (g_units g')) (g_unitOutEdges g') (g_unitInEdges g') (g_unitInDegree g')"
    by (simp add: wired_def)
  obtain r where r: "detectUnitCycle g' = Some r" "r = Inr () \<longleftrightarrow> acyclic (unitRel g')" using detectUnitCycle_exact [OF wf] by auto
  have "housed g'" using b(3) housed_shape [OF g'(2)] by blast
  then show ?thesis using b(1) g'(1,2) r w wf by (auto simp: buildUnits_def sameShape_def wired_def)
qed

end
