(* ===== verification/GraphReach.thy ===== *)
theory GraphReach
  imports GraphCompile
begin

text \<open>
  The breadth-first searches of the compiler: reachability and dominance between
  nodes (engine/graph/nodes_refs.go) and what they decide, the references of a
  sub-graph body to nodes of the outer graph (engine/graph/body_outer_refs.go).
  The body packages are not part of the graph record, so the list that
  \<open>BodyOuterRefsFor\<close> returns for a node is an argument.
\<close>

section \<open>Searches\<close>

text \<open>The inner loop over the edges of the current node: the visited array and the
  queue, or \<^term>\<open>None\<close> where an index is out of range.\<close>

fun enqueueAll :: "Edge list \<Rightarrow> bool list \<Rightarrow> int list \<Rightarrow> (bool list \<times> int list) option" where
  "enqueueAll [] visited queue = Some (visited, queue)"
| "enqueueAll (e # es) visited queue = (case idx visited (e_DstIdx e) of
      None \<Rightarrow> None
    | Some True \<Rightarrow> enqueueAll es visited queue
    | Some False \<Rightarrow> enqueueAll es (visited[nat (e_DstIdx e) := True]) (queue @ [e_DstIdx e]))"

lemma mark_unseen: "i < length seen \<Longrightarrow> \<not> seen ! i \<Longrightarrow> length (filter Not seen) = Suc (length (filter Not (seen[i := True])))"
  by (induction seen arbitrary: i) (auto simp: nth_Cons split: nat.splits)

lemma enqueueAll_measure:
  "enqueueAll es visited queue = Some (visited', queue') \<Longrightarrow>
     length queue' + length (filter Not visited') = length queue + length (filter Not visited)"
proof (induction es visited queue rule: enqueueAll.induct)
  case (2 e es visited queue)
  show ?case
  proof (cases "idx visited (e_DstIdx e)")
    case (Some b)
    then have "nat (e_DstIdx e) < length visited" "visited ! nat (e_DstIdx e) = b" by (auto simp: idx_Some_iff nat_less_iff)
    then show ?thesis using 2 Some mark_unseen [of "nat (e_DstIdx e)" visited] by (cases b) auto
  qed (use 2 in simp)
qed simp

text \<open>The same loop of \<open>isReachable\<close>, which returns at an edge to its target.\<close>

fun scanEdges :: "int \<Rightarrow> Edge list \<Rightarrow> bool list \<Rightarrow> int list \<Rightarrow> (unit + bool list \<times> int list) option" where
  "scanEdges dst [] visited queue = Some (Inr (visited, queue))"
| "scanEdges dst (e # es) visited queue =
     (if e_DstIdx e = dst then Some (Inl ())
      else case idx visited (e_DstIdx e) of
        None \<Rightarrow> None
      | Some True \<Rightarrow> scanEdges dst es visited queue
      | Some False \<Rightarrow> scanEdges dst es (visited[nat (e_DstIdx e) := True]) (queue @ [e_DstIdx e]))"

lemma scanEdges_enqueue:
  "scanEdges dst es visited queue = Some (Inr r) \<longleftrightarrow> (\<forall>e\<in>set es. e_DstIdx e \<noteq> dst) \<and> enqueueAll es visited queue = Some r"
  by (induction es visited queue rule: enqueueAll.induct) (auto split: option.splits bool.splits)

lemma scanEdges_found: "scanEdges dst es visited queue = Some (Inl u) \<Longrightarrow> \<exists>e\<in>set es. e_DstIdx e = dst"
  by (induction dst es visited queue rule: scanEdges.induct) (auto split: option.splits bool.splits if_splits)

function reachLoop :: "Edge list list \<Rightarrow> int \<Rightarrow> bool list \<Rightarrow> int list \<Rightarrow> bool option" where
  "reachLoop outs dst visited [] = Some False"
| "reachLoop outs dst visited (cur # queue) = (case idx outs cur of
      None \<Rightarrow> None
    | Some es \<Rightarrow> (case scanEdges dst es visited queue of
        None \<Rightarrow> None
      | Some (Inl _) \<Rightarrow> Some True
      | Some (Inr (visited', queue')) \<Rightarrow> reachLoop outs dst visited' queue'))"
  by pat_completeness auto
termination
  by (relation "measure (\<lambda>(outs, dst, visited, queue). length queue + length (filter Not visited))")
    (auto simp: scanEdges_enqueue dest: enqueueAll_measure)

definition isReachable :: "Graph \<Rightarrow> int \<Rightarrow> int \<Rightarrow> bool option" where
  "isReachable g src dst =
     (let visited = replicate (length (g_nodes g)) False
      in case idx visited src of None \<Rightarrow> None
         | Some _ \<Rightarrow> reachLoop (g_outEdges g) dst (visited[nat src := True]) [src])"

fun seedRoots :: "Edge list list \<Rightarrow> int \<Rightarrow> nat list \<Rightarrow> bool list \<times> int list \<Rightarrow> (bool list \<times> int list) option" where
  "seedRoots ins target [] st = Some st"
| "seedRoots ins target (i # is) st = (case idx ins (int i) of
      None \<Rightarrow> None
    | Some es \<Rightarrow>
        if es = [] \<and> int i \<noteq> target then seedRoots ins target is ((fst st)[i := True], snd st @ [int i])
        else seedRoots ins target is st)"

function avoidLoop :: "Edge list list \<Rightarrow> int \<Rightarrow> bool list \<Rightarrow> int list \<Rightarrow> bool option" where
  "avoidLoop outs nodeIdx visited [] = Some True"
| "avoidLoop outs nodeIdx visited (cur # queue) =
     (if cur = nodeIdx then Some False
      else case idx outs cur of
        None \<Rightarrow> None
      | Some es \<Rightarrow> (case enqueueAll es visited queue of
          None \<Rightarrow> None
        | Some (visited', queue') \<Rightarrow> avoidLoop outs nodeIdx visited' queue'))"
  by pat_completeness auto
termination
  by (relation "measure (\<lambda>(outs, nodeIdx, visited, queue). length queue + length (filter Not visited))")
    (auto dest: enqueueAll_measure)

definition isDeterministicAncestor :: "Graph \<Rightarrow> int \<Rightarrow> int \<Rightarrow> bool option" where
  "isDeterministicAncestor g target nodeIdx =
     (let n = length (g_nodes g);
          visited = replicate n False
      in case idx visited target of None \<Rightarrow> None
         | Some _ \<Rightarrow> (case seedRoots (g_inEdges g) target [0..<n] (visited[nat target := True], []) of
             None \<Rightarrow> None
           | Some (visited', queue) \<Rightarrow> avoidLoop (g_outEdges g) nodeIdx visited' queue))"

section \<open>References of a body to the outer graph\<close>

record BodyOuterRef =
  bor_Member :: string
  bor_Node :: string

datatype OuterRefError =
    GroupedBody string BodyOuterRef
  | OuterUnknown string BodyOuterRef
  | OuterSelf string BodyOuterRef
  | OuterDownstream string BodyOuterRef
  | OuterUnrelated string BodyOuterRef

datatype OuterRefWarning =
    MayBeNil string BodyOuterRef
  | CrossDomainRead string BodyOuterRef

definition validateOuterRef :: "Graph \<Rightarrow> nat \<Rightarrow> BodyOuterRef \<Rightarrow> OuterRefWarning list \<Rightarrow> (OuterRefError + OuterRefWarning list) option" where
  "validateOuterRef g i ref warnings =
     (let mapName = nm_Name (g_nodes g ! i)
      in case fmlookup (g_index g) (bor_Node ref) of
           None \<Rightarrow> Some (Inl (OuterUnknown mapName ref))
         | Some targetIdx \<Rightarrow>
             if targetIdx = int i then Some (Inl (OuterSelf mapName ref))
             else do { down \<leftarrow> isReachable g (int i) targetIdx;
                       if down then Some (Inl (OuterDownstream mapName ref))
                       else do { up \<leftarrow> isReachable g targetIdx (int i);
                                 if \<not> up then Some (Inl (OuterUnrelated mapName ref))
                                 else do { det \<leftarrow> isDeterministicAncestor g targetIdx (int i);
                                           Some (Inr (warnings @ [if det then CrossDomainRead mapName ref else MayBeNil mapName ref])) } } })"

fun validateOuterRefs :: "Graph \<Rightarrow> nat \<Rightarrow> BodyOuterRef list \<Rightarrow> OuterRefWarning list \<Rightarrow> (OuterRefError + OuterRefWarning list) option" where
  "validateOuterRefs g i [] warnings = Some (Inr warnings)"
| "validateOuterRefs g i (ref # refs) warnings =
     do { r \<leftarrow> validateOuterRef g i ref warnings;
          case r of Inl err \<Rightarrow> Some (Inl err) | Inr warnings' \<Rightarrow> validateOuterRefs g i refs warnings' }"

fun validateBodies :: "(nat \<Rightarrow> BodyOuterRef list) \<Rightarrow> Graph \<Rightarrow> nat list \<Rightarrow> OuterRefWarning list \<Rightarrow> (OuterRefError + OuterRefWarning list) option" where
  "validateBodies refsFor g [] warnings = Some (Inr warnings)"
| "validateBodies refsFor g (i # is) warnings =
     (case refsFor i of
        [] \<Rightarrow> validateBodies refsFor g is warnings
      | ref # _ \<Rightarrow>
          if nm_GroupIdx (g_nodes g ! i) \<ge> 0 then Some (Inl (GroupedBody (nm_Name (g_nodes g ! i)) ref))
          else do { r \<leftarrow> validateOuterRefs g i (refsFor i) warnings;
                    case r of Inl err \<Rightarrow> Some (Inl err) | Inr warnings' \<Rightarrow> validateBodies refsFor g is warnings' })"

definition validateBodyOuterRefs :: "(nat \<Rightarrow> BodyOuterRef list) \<Rightarrow> Graph \<Rightarrow> (OuterRefError + OuterRefWarning list) option" where
  "validateBodyOuterRefs refsFor g = validateBodies refsFor g [0..<length (g_nodes g)] []"

section \<open>A search visits exactly what its start reaches\<close>

definition searching :: "(int \<times> int) set \<Rightarrow> int set \<Rightarrow> int set \<Rightarrow> int list \<Rightarrow> bool" where
  "searching R S0 S Q \<longleftrightarrow> S0 \<subseteq> S \<and> S \<subseteq> R\<^sup>* `` S0 \<and> set Q \<subseteq> S \<and> (\<forall>u\<in>S - set Q. R `` {u} \<subseteq> S)"

lemma searching_start: "set Q = S0 \<Longrightarrow> searching R S0 S0 Q"
  by (auto simp: searching_def)

lemma searching_step:
  assumes s: "searching R S0 S (cur # Q)" and n: "set N = R `` {cur} - S"
  shows "searching R S0 (S \<union> set N) (Q @ N)"
proof -
  have "cur \<in> R\<^sup>* `` S0" using s by (auto simp: searching_def)
  then have "R `` {cur} \<subseteq> R\<^sup>* `` S0" by (auto intro: rtrancl_into_rtrancl)
  then show ?thesis using s n by (auto simp: searching_def)
qed

lemma searching_end:
  assumes "searching R S0 S []"
  shows "S = R\<^sup>* `` S0"
proof
  have "v \<in> S" if "(u, v) \<in> R\<^sup>*" "u \<in> S0" for u v
    using that assms by (induction rule: rtrancl_induct) (auto simp: searching_def)
  then show "R\<^sup>* `` S0 \<subseteq> S" by auto
qed (use assms in \<open>simp add: searching_def\<close>)

definition marked :: "bool list \<Rightarrow> int set" where
  "marked visited = {i. 0 \<le> i \<and> i < int (length visited) \<and> visited ! nat i}"

lemma marked_update: "0 \<le> i \<Longrightarrow> i < int (length visited) \<Longrightarrow> marked (visited[nat i := True]) = insert i (marked visited)"
  by (auto simp: marked_def nth_list_update eq_nat_nat_iff nat_less_iff)

lemma marked_replicate [simp]: "marked (replicate n False) = {}"
  by (auto simp: marked_def nat_less_iff)

lemma enqueueAll_spec:
  assumes "\<forall>e\<in>set es. 0 \<le> e_DstIdx e \<and> e_DstIdx e < int (length visited)"
  shows "\<exists>visited' new. enqueueAll es visited queue = Some (visited', queue @ new) \<and> length visited' = length visited
    \<and> set new = e_DstIdx ` set es - marked visited \<and> marked visited' = marked visited \<union> set new"
  using assms
proof (induction es arbitrary: visited queue)
  case (Cons e es)
  have r: "0 \<le> e_DstIdx e" "e_DstIdx e < int (length visited)" using Cons.prems by simp_all
  show ?case
  proof (cases "visited ! nat (e_DstIdx e)")
    case True
    then have "e_DstIdx e \<in> marked visited" using r by (simp add: marked_def)
    moreover have "enqueueAll (e # es) visited queue = enqueueAll es visited queue" using True r by (simp add: idx_def)
    ultimately show ?thesis using Cons.IH [of visited queue] Cons.prems by auto
  next
    case False
    let ?v = "visited[nat (e_DstIdx e) := True]"
    have m: "marked ?v = insert (e_DstIdx e) (marked visited)" by (rule marked_update [OF r])
    have "enqueueAll (e # es) visited queue = enqueueAll es ?v (queue @ [e_DstIdx e])" using False r by (simp add: idx_def)
    moreover obtain visited' new where "enqueueAll es ?v (queue @ [e_DstIdx e]) = Some (visited', (queue @ [e_DstIdx e]) @ new)"
      "length visited' = length visited" "set new = e_DstIdx ` set es - marked ?v" "marked visited' = marked ?v \<union> set new"
      using Cons.IH [of ?v "queue @ [e_DstIdx e]"] Cons.prems by auto
    moreover have "e_DstIdx e \<notin> marked visited" using False by (simp add: marked_def)
    ultimately show ?thesis using m by (intro exI [of _ visited'] exI [of _ "e_DstIdx e # new"]) auto
  qed
qed simp

text \<open>The edge lists a search runs on: every destination is the index of a list.\<close>

definition targetsIn :: "nat \<Rightarrow> Edge list list \<Rightarrow> bool" where
  "targetsIn n outs \<longleftrightarrow> length outs = n \<and> (\<forall>i<n. \<forall>e\<in>set (outs ! i). 0 \<le> e_DstIdx e \<and> e_DstIdx e < int n)"

lemma targetsIn_at:
  assumes "targetsIn n outs" "0 \<le> u" "u < int (length outs)"
  shows "\<forall>e\<in>set (outs ! nat u). 0 \<le> e_DstIdx e \<and> e_DstIdx e < int n"
proof -
  have "nat u < n" using assms by (simp add: targetsIn_def nat_less_iff)
  then show ?thesis using assms(1) unfolding targetsIn_def by blast
qed

definition outRel :: "Edge list list \<Rightarrow> (int \<times> int) set" where
  "outRel outs = edgeRel (map (map e_DstIdx) outs)"

lemma outRel_at: "0 \<le> u \<Longrightarrow> u < int (length outs) \<Longrightarrow> outRel outs `` {u} = e_DstIdx ` set (outs ! nat u)"
  by (auto simp: outRel_def edgeRel_def nat_less_iff)

lemma edgesWF_targets: "edgesWF g \<Longrightarrow> targetsIn (length (g_nodes g)) (g_outEdges g)"
  by (simp add: edgesWF_def listsWF_def targetsIn_def)

lemma outRel_nodeRel: "outRel (g_outEdges g) = nodeRel g"
  by (simp add: outRel_def nodeRel_def)

lemma scanEdges_hit:
  assumes "dst \<in> e_DstIdx ` set es" "\<forall>e\<in>set es. 0 \<le> e_DstIdx e \<and> e_DstIdx e < int (length visited)"
  shows "\<exists>u. scanEdges dst es visited queue = Some (Inl u)"
  using assms
proof (induction es arbitrary: visited queue)
  case (Cons e es)
  then show ?case by (auto simp: idx_def split: bool.splits)
qed simp

lemma reachLoop_exact:
  assumes "targetsIn n outs" "length visited = n" "searching (outRel outs) {src} (marked visited) queue"
    and "\<forall>u\<in>marked visited - set queue. (u, dst) \<notin> outRel outs"
  shows "reachLoop outs dst visited queue = Some ((src, dst) \<in> (outRel outs)\<^sup>+)"
  using assms
proof (induction outs dst visited queue rule: reachLoop.induct)
  case (1 outs dst visited)
  have "marked visited = (outRel outs)\<^sup>* `` {src}" using searching_end 1(3) by blast
  then have "(src, dst) \<notin> (outRel outs)\<^sup>+" using 1(4) by (auto dest: tranclD2)
  then show ?case by simp
next
  case (2 outs dst visited cur queue)
  have cur: "cur \<in> marked visited" using 2(4) by (simp add: searching_def)
  then have r: "0 \<le> cur" "cur < int (length outs)" using 2(2,3) by (auto simp: marked_def targetsIn_def)
  let ?es = "outs ! nat cur"
  have es: "\<forall>e\<in>set ?es. 0 \<le> e_DstIdx e \<and> e_DstIdx e < int (length visited)"
    using targetsIn_at [OF 2(2) r] 2(3) by simp
  show ?case
  proof (cases "dst \<in> e_DstIdx ` set ?es")
    case True
    have "\<exists>u. scanEdges dst ?es visited queue = Some (Inl u)" using True es by (rule scanEdges_hit)
    moreover have "(src, cur) \<in> (outRel outs)\<^sup>*" using cur 2(4) by (auto simp: searching_def)
    then have "(src, dst) \<in> (outRel outs)\<^sup>+" using outRel_at [OF r] True by (auto intro: rtrancl_into_trancl1)
    ultimately show ?thesis using r by (auto simp: idx_def)
  next
    case False
    obtain visited' new where e: "enqueueAll ?es visited queue = Some (visited', queue @ new)" "length visited' = length visited"
      "set new = outRel outs `` {cur} - marked visited" "marked visited' = marked visited \<union> set new"
      using enqueueAll_spec [OF es] outRel_at [OF r] by metis
    have scan: "scanEdges dst ?es visited queue = Some (Inr (visited', queue @ new))" using False e(1) by (auto simp: scanEdges_enqueue)
    have "searching (outRel outs) {src} (marked visited') (queue @ new)" using searching_step [OF 2(4) e(3)] e(4) by simp
    moreover have "\<forall>u\<in>marked visited' - set (queue @ new). (u, dst) \<notin> outRel outs"
      using 2(5) False outRel_at [OF r] e(4) by auto
    moreover have "idx outs cur = Some ?es" using r by (simp add: idx_def)
    ultimately show ?thesis using 2(1) [OF _ scan] 2(2,3) e(2) scan by simp
  qed
qed

lemma isReachable_exact:
  assumes "edgesWF g" "0 \<le> src" "src < NodeCount g"
  shows "isReachable g src dst = Some ((src, dst) \<in> (nodeRel g)\<^sup>+)"
proof -
  let ?v = "(replicate (length (g_nodes g)) False)[nat src := True]"
  have m: "marked ?v = {src}" using assms(2,3) by (simp add: marked_update NodeCount_def)
  have "reachLoop (g_outEdges g) dst ?v [src] = Some ((src, dst) \<in> (outRel (g_outEdges g))\<^sup>+)"
    by (rule reachLoop_exact [OF edgesWF_targets [OF assms(1)]]) (simp_all add: m searching_start)
  then show ?thesis using assms(2,3) by (simp add: isReachable_def idx_def NodeCount_def outRel_nodeRel)
qed

section \<open>Dominance\<close>

text \<open>The edges that remain when a node is removed from the graph.\<close>

definition without :: "int \<Rightarrow> (int \<times> int) set \<Rightarrow> (int \<times> int) set" where
  "without t R = {(u, v) \<in> R. u \<noteq> t \<and> v \<noteq> t}"

text \<open>The loop runs with the removed node marked from the start.\<close>

lemma avoidLoop_exact:
  assumes "targetsIn n outs" "length visited = n" "target \<in> marked visited" "target \<notin> S0"
    and "searching (without target (outRel outs)) S0 (marked visited - {target}) queue"
    and "nodeIdx \<notin> marked visited - {target} - set queue"
  shows "avoidLoop outs nodeIdx visited queue = Some (nodeIdx \<notin> (without target (outRel outs))\<^sup>* `` S0)"
  using assms
proof (induction outs nodeIdx visited queue rule: avoidLoop.induct)
  case (1 outs nodeIdx visited)
  have "marked visited - {target} = (without target (outRel outs))\<^sup>* `` S0" using searching_end 1(5) by blast
  then show ?case using 1(6) by auto
next
  case (2 outs nodeIdx visited cur queue)
  let ?R = "without target (outRel outs)"
  have cur: "cur \<in> marked visited" "cur \<noteq> target" "cur \<in> ?R\<^sup>* `` S0" using 2(6) by (auto simp: searching_def)
  then have r: "0 \<le> cur" "cur < int (length outs)" using 2(2,3) by (auto simp: marked_def targetsIn_def)
  show ?case
  proof (cases "cur = nodeIdx")
    case True
    then show ?thesis using cur(3) by simp
  next
    case False
    let ?es = "outs ! nat cur"
    have es: "\<forall>e\<in>set ?es. 0 \<le> e_DstIdx e \<and> e_DstIdx e < int (length visited)" using targetsIn_at [OF 2(2) r] 2(3) by simp
    obtain visited' new where e: "enqueueAll ?es visited queue = Some (visited', queue @ new)" "length visited' = length visited"
      "set new = outRel outs `` {cur} - marked visited" "marked visited' = marked visited \<union> set new"
      using enqueueAll_spec [OF es] outRel_at [OF r] by metis
    have "set new = ?R `` {cur} - (marked visited - {target})" using e(3) 2(4) cur(2) by (auto simp: without_def)
    moreover have "marked visited' - {target} = (marked visited - {target}) \<union> set new" using e(3,4) 2(4) by auto
    ultimately have "searching ?R S0 (marked visited' - {target}) (queue @ new)" using searching_step [OF 2(6)] by simp
    moreover have "nodeIdx \<notin> marked visited' - {target} - set (queue @ new)" using 2(7) False e(4) by auto
    moreover have "idx outs cur = Some ?es" using r by (simp add: idx_def)
    ultimately show ?thesis using 2(1) [OF False _ e(1)] 2(2-5) e(1,2,4) False by simp
  qed
qed

lemma seedRoots_spec:
  assumes "\<forall>i\<in>set is. i < length ins \<and> i < length visited"
  shows "\<exists>visited' new. seedRoots ins target is (visited, queue) = Some (visited', queue @ new) \<and> length visited' = length visited
    \<and> set new = {int i |i. i \<in> set is \<and> ins ! i = [] \<and> int i \<noteq> target} \<and> marked visited' = marked visited \<union> set new"
  using assms
proof (induction "is" arbitrary: visited queue)
  case (Cons i "is")
  have at: "idx ins (int i) = Some (ins ! i)" using Cons.prems by simp
  show ?case
  proof (cases "ins ! i = [] \<and> int i \<noteq> target")
    case True
    have m: "marked (visited[i := True]) = insert (int i) (marked visited)" using marked_update [of "int i" visited] Cons.prems by simp
    obtain visited' new where "seedRoots ins target is (visited[i := True], queue @ [int i]) = Some (visited', (queue @ [int i]) @ new)"
      "length visited' = length visited" "set new = {int i |i. i \<in> set is \<and> ins ! i = [] \<and> int i \<noteq> target}"
      "marked visited' = marked (visited[i := True]) \<union> set new"
      using Cons.IH [of "visited[i := True]" "queue @ [int i]"] Cons.prems by auto
    then show ?thesis using at True m by (intro exI [of _ visited'] exI [of _ "int i # new"]) auto
  next
    case False
    then have "{int j |j. j \<in> set (i # is) \<and> ins ! j = [] \<and> int j \<noteq> target} = {int j |j. j \<in> set is \<and> ins ! j = [] \<and> int j \<noteq> target}" by auto
    moreover have "seedRoots ins target (i # is) (visited, queue) = seedRoots ins target is (visited, queue)" using False at by auto
    ultimately show ?thesis using Cons.IH [of visited queue] Cons.prems by simp
  qed
qed simp

text \<open>The nodes without an incoming edge.\<close>

definition rootSet :: "Graph \<Rightarrow> int set" where
  "rootSet g = {v. 0 \<le> v \<and> v < NodeCount g \<and> g_inEdges g ! nat v = []}"

lemma isDeterministicAncestor_search:
  assumes "edgesWF g" "0 \<le> target" "target < NodeCount g"
  shows "isDeterministicAncestor g target nodeIdx = Some (nodeIdx \<notin> (without target (nodeRel g))\<^sup>* `` (rootSet g - {target}))"
proof -
  let ?n = "length (g_nodes g)" and ?v = "(replicate (length (g_nodes g)) False)[nat target := True]"
  have m: "marked ?v = {target}" using assms(2,3) by (simp add: marked_update NodeCount_def)
  have l: "length (g_inEdges g) = ?n" using assms(1) by (simp add: edgesWF_def listsWF_def)
  have roots: "{int i |i. i \<in> set [0..<?n] \<and> g_inEdges g ! i = [] \<and> int i \<noteq> target} = rootSet g - {target}"
    by (auto simp: rootSet_def NodeCount_def) (metis int_nat_eq nat_less_iff)
  obtain visited queue where s: "seedRoots (g_inEdges g) target [0..<?n] (?v, []) = Some (visited, queue)" "length visited = ?n"
      "set queue = rootSet g - {target}" "marked visited = insert target (set queue)"
    using seedRoots_spec [of "[0..<?n]" "g_inEdges g" ?v target "[]"] l m roots by auto
  have "marked visited - {target} = rootSet g - {target}" using s(3,4) by auto
  then have "avoidLoop (g_outEdges g) nodeIdx visited queue
      = Some (nodeIdx \<notin> (without target (outRel (g_outEdges g)))\<^sup>* `` (rootSet g - {target}))"
    using s by (intro avoidLoop_exact [OF edgesWF_targets [OF assms(1)]]) (simp_all add: searching_start)
  then show ?thesis
    using assms(2,3) s(1) by (simp add: isDeterministicAncestor_def idx_def NodeCount_def outRel_nodeRel)
qed

text \<open>A path of the graph.\<close>

definition isPath :: "(int \<times> int) set \<Rightarrow> int list \<Rightarrow> bool" where
  "isPath R p \<longleftrightarrow> p \<noteq> [] \<and> successively (\<lambda>u v. (u, v) \<in> R) p"

definition dominates :: "Graph \<Rightarrow> int \<Rightarrow> int \<Rightarrow> bool" where
  "dominates g target v \<longleftrightarrow> (\<forall>p. isPath (nodeRel g) p \<and> hd p \<in> rootSet g \<and> last p = v \<longrightarrow> target \<in> set p)"

lemma path_without: "isPath R p \<Longrightarrow> t \<notin> set p \<Longrightarrow> (hd p, last p) \<in> (without t R)\<^sup>*"
proof (induction p)
  case (Cons u p)
  show ?case
  proof (cases p)
    case (Cons v q)
    then have "(u, v) \<in> without t R" "(v, last p) \<in> (without t R)\<^sup>*"
      using Cons.prems Cons.IH by (auto simp: isPath_def without_def)
    then show ?thesis using Cons by (auto intro: converse_rtrancl_into_rtrancl)
  qed simp
qed (simp add: isPath_def)

lemma without_path: "(u, v) \<in> (without t R)\<^sup>* \<Longrightarrow> u \<noteq> t \<Longrightarrow> \<exists>p. isPath R p \<and> hd p = u \<and> last p = v \<and> t \<notin> set p"
proof (induction rule: converse_rtrancl_induct)
  case base
  then show ?case by (intro exI [of _ "[v]"]) (simp add: isPath_def)
next
  case (step u w)
  then obtain p where "isPath R p" "hd p = w" "last p = v" "t \<notin> set p" by (auto simp: without_def)
  then show ?case using step by (intro exI [of _ "u # p"]) (auto simp: isPath_def without_def successively_Cons)
qed

lemma dominates_alt: "dominates g t v \<longleftrightarrow> v \<notin> (without t (nodeRel g))\<^sup>* `` (rootSet g - {t})"
proof
  assume d: "dominates g t v"
  have False if "u \<in> rootSet g" "u \<noteq> t" "(u, v) \<in> (without t (nodeRel g))\<^sup>*" for u
    using without_path [OF that(3,2)] d that(1) by (auto simp: dominates_def)
  then show "v \<notin> (without t (nodeRel g))\<^sup>* `` (rootSet g - {t})" by auto
next
  assume n: "v \<notin> (without t (nodeRel g))\<^sup>* `` (rootSet g - {t})"
  have "t \<in> set p" if "isPath (nodeRel g) p" "hd p \<in> rootSet g" "last p = v" for p
  proof (rule ccontr)
    assume t: "t \<notin> set p"
    then have "hd p \<noteq> t" using that(1) hd_in_set [of p] by (auto simp: isPath_def)
    then show False using path_without [OF that(1) t] n that(2,3) by auto
  qed
  then show "dominates g t v" by (simp add: dominates_def)
qed

text \<open>C13. The compiler's test whether one node is a deterministic ancestor of another
  never runs out of range, always returns, and is exact: it holds precisely when
  every path from a node without incoming edges to the second node passes through
  the first, also in a graph with cycles.\<close>

theorem isDeterministicAncestor_exact:
  assumes "edgesWF g" "0 \<le> target" "target < NodeCount g"
  shows "isDeterministicAncestor g target nodeIdx = Some (dominates g target nodeIdx)"
  unfolding dominates_alt by (rule isDeterministicAncestor_search [OF assms])

section \<open>Which references of a body are accepted\<close>

definition legalRef :: "Graph \<Rightarrow> nat \<Rightarrow> BodyOuterRef \<Rightarrow> bool" where
  "legalRef g i ref \<longleftrightarrow> nm_GroupIdx (g_nodes g ! i) < 0
     \<and> (\<exists>t. fmlookup (g_index g) (bor_Node ref) = Some t \<and> t \<noteq> int i \<and> (t, int i) \<in> (nodeRel g)\<^sup>+ \<and> (int i, t) \<notin> (nodeRel g)\<^sup>+)"

definition noticeOf :: "Graph \<Rightarrow> nat \<Rightarrow> BodyOuterRef \<Rightarrow> OuterRefWarning" where
  "noticeOf g i ref =
     (if dominates g (the (fmlookup (g_index g) (bor_Node ref))) (int i) then CrossDomainRead (nm_Name (g_nodes g ! i)) ref
      else MayBeNil (nm_Name (g_nodes g ! i)) ref)"

definition indexed :: "Graph \<Rightarrow> bool" where
  "indexed g \<longleftrightarrow> (\<forall>name i. fmlookup (g_index g) name = Some i \<longrightarrow> 0 \<le> i \<and> i < NodeCount g)"

lemma validateOuterRef_exact:
  assumes "edgesWF g" "indexed g" "i < length (g_nodes g)" "nm_GroupIdx (g_nodes g ! i) < 0"
  shows "if legalRef g i ref then validateOuterRef g i ref ws = Some (Inr (ws @ [noticeOf g i ref]))
    else \<exists>err. validateOuterRef g i ref ws = Some (Inl err)"
proof (cases "fmlookup (g_index g) (bor_Node ref)")
  case None
  then show ?thesis by (simp add: validateOuterRef_def legalRef_def)
next
  case (Some t)
  then have t: "0 \<le> t" "t < NodeCount g" using assms(2) unfolding indexed_def by blast+
  have "0 \<le> int i" "int i < NodeCount g" using assms(3) by (simp_all add: NodeCount_def)
  then show ?thesis
    using Some assms(4) isReachable_exact [OF assms(1)] isDeterministicAncestor_search [OF assms(1) t] t
    by (auto simp: validateOuterRef_def legalRef_def noticeOf_def dominates_alt Let_def)
qed

lemma validateOuterRefs_exact:
  assumes "edgesWF g" "indexed g" "i < length (g_nodes g)" "nm_GroupIdx (g_nodes g ! i) < 0"
  shows "if \<forall>ref\<in>set refs. legalRef g i ref then validateOuterRefs g i refs ws = Some (Inr (ws @ map (noticeOf g i) refs))
    else \<exists>err. validateOuterRefs g i refs ws = Some (Inl err)"
proof (induction refs arbitrary: ws)
  case (Cons ref refs)
  then show ?case using validateOuterRef_exact [OF assms, of ref ws] Cons.IH [of "ws @ [noticeOf g i ref]"]
    by (cases "legalRef g i ref") auto
qed simp

lemma validateBodies_exact:
  assumes "edgesWF g" "indexed g" "\<forall>i\<in>set is. i < length (g_nodes g)"
  shows "if \<forall>i\<in>set is. \<forall>ref\<in>set (refsFor i). legalRef g i ref
    then validateBodies refsFor g is ws = Some (Inr (ws @ concat (map (\<lambda>i. map (noticeOf g i) (refsFor i)) is)))
    else \<exists>err. validateBodies refsFor g is ws = Some (Inl err)"
  using assms(3)
proof (induction "is" arbitrary: ws)
  case (Cons i "is")
  show ?case
  proof (cases "refsFor i")
    case Nil
    then show ?thesis using Cons.IH [of ws] Cons.prems by simp
  next
    case (Cons ref refs)
    show ?thesis
    proof (cases "nm_GroupIdx (g_nodes g ! i) < 0")
      case True
      have "if \<forall>ref\<in>set (refsFor i). legalRef g i ref then validateOuterRefs g i (refsFor i) ws = Some (Inr (ws @ map (noticeOf g i) (refsFor i)))
          else \<exists>err. validateOuterRefs g i (refsFor i) ws = Some (Inl err)"
        using validateOuterRefs_exact [OF assms(1,2) _ True, of "refsFor i" ws] Cons.prems by simp
      moreover have "validateBodies refsFor g (i # is) ws = do { r \<leftarrow> validateOuterRefs g i (refsFor i) ws;
          case r of Inl err \<Rightarrow> Some (Inl err) | Inr warnings' \<Rightarrow> validateBodies refsFor g is warnings' }"
        using Cons True by simp
      ultimately show ?thesis using Cons.IH [of "ws @ map (noticeOf g i) (refsFor i)"] Cons.prems
        by (cases "\<forall>ref\<in>set (refsFor i). legalRef g i ref") auto
    next
      case False
      then have "\<not> legalRef g i ref" by (simp add: legalRef_def)
      then show ?thesis using False Cons by simp
    qed
  qed
qed simp

text \<open>C14. The adjudication of a body's references to outer nodes never runs out of
  range and always decides: it accepts exactly when every reference is made by a
  node outside every group and names a node that is strictly upstream of it, with a
  path to it and none back.  For an accepted reference it warns that the value may
  be absent exactly when the named node does not lie on every path to the body's
  node.\<close>

theorem validateBodyOuterRefs_exact:
  assumes "edgesWF g" "indexed g"
  shows "if \<forall>i<length (g_nodes g). \<forall>ref\<in>set (refsFor i). legalRef g i ref
    then validateBodyOuterRefs refsFor g = Some (Inr (concat (map (\<lambda>i. map (noticeOf g i) (refsFor i)) [0..<length (g_nodes g)])))
    else \<exists>err. validateBodyOuterRefs refsFor g = Some (Inl err)"
  using validateBodies_exact [OF assms, of "[0..<length (g_nodes g)]" refsFor "[]"] by (simp add: validateBodyOuterRefs_def Ball_def split: if_splits)

section \<open>Two branches that join\<close>

definition diamondDef :: WorkflowDef where
  "diamondDef = \<lparr>wd_Nodes = map sampleNodeDef [''a'', ''b'', ''c'', ''d''],
     wd_Connections = fmap_of_list [(''a'', fmap_of_list [(''main'', \<lparr>pc_Type = '''', pc_Targets = [\<lparr>co_Node = ''b'', co_Input = ''''\<rparr>, \<lparr>co_Node = ''c'', co_Input = ''''\<rparr>]\<rparr>)]),
        (''b'', samplePort ''d''), (''c'', samplePort ''d'')],
     wd_Settings = None, wd_RunnerSelector = None\<rparr>"

definition diamond :: Graph where
  "diamond = fst (projr (buildEdges diamondDef (emptyGraph (map sampleMeta [''a'', ''b'', ''c'', ''d''])
     (fmap_of_list [(''a'', 0), (''b'', 1), (''c'', 2), (''d'', 3)]))))"

definition diamondRefs :: "nat \<Rightarrow> BodyOuterRef list" where
  "diamondRefs i = (if i = 3 then [\<lparr>bor_Member = ''m'', bor_Node = ''a''\<rparr>, \<lparr>bor_Member = ''m'', bor_Node = ''b''\<rparr>] else [])"

lemma indexed_code [code]:
  "indexed g \<longleftrightarrow> (\<forall>k\<in>set (sortedKeys (g_index g)). 0 \<le> mapGet 0 (g_index g) k \<and> mapGet 0 (g_index g) k < NodeCount g)"
  unfolding indexed_def values_code [of _ _ 0] ..

lemma diamond_ok: "edgesWF diamond" "indexed diamond" "NodeCount diamond = 4"
  by code_simp+

theorem isDeterministicAncestor_exact_witness:
  "edgesWF diamond \<and> 0 \<le> (0::int) \<and> 1 < NodeCount diamond \<and> dominates diamond 0 3 \<and> \<not> dominates diamond 1 3"
proof -
  have "isDeterministicAncestor diamond 0 3 = Some True" "isDeterministicAncestor diamond 1 3 = Some False" by code_simp+
  then show ?thesis
    using isDeterministicAncestor_exact [of diamond 0 3] isDeterministicAncestor_exact [of diamond 1 3] diamond_ok by simp
qed

theorem validateBodyOuterRefs_exact_witness:
  "edgesWF diamond \<and> indexed diamond \<and> validateBodyOuterRefs diamondRefs diamond =
     Some (Inr [CrossDomainRead ''d'' \<lparr>bor_Member = ''m'', bor_Node = ''a''\<rparr>, MayBeNil ''d'' \<lparr>bor_Member = ''m'', bor_Node = ''b''\<rparr>])
   \<and> legalRef diamond 3 \<lparr>bor_Member = ''m'', bor_Node = ''a''\<rparr> \<and> legalRef diamond 3 \<lparr>bor_Member = ''m'', bor_Node = ''b''\<rparr>"
proof -
  have run: "validateBodyOuterRefs diamondRefs diamond =
     Some (Inr [CrossDomainRead ''d'' \<lparr>bor_Member = ''m'', bor_Node = ''a''\<rparr>, MayBeNil ''d'' \<lparr>bor_Member = ''m'', bor_Node = ''b''\<rparr>])"
    by code_simp
  have "3 < length (g_nodes diamond)" by code_simp
  moreover have "\<forall>i<length (g_nodes diamond). \<forall>ref\<in>set (diamondRefs i). legalRef diamond i ref"
    using validateBodyOuterRefs_exact [OF diamond_ok(1,2), of diamondRefs] run by (auto split: if_splits)
  ultimately have "\<forall>ref\<in>set (diamondRefs 3). legalRef diamond 3 ref" by blast
  then show ?thesis using run diamond_ok by (simp add: diamondRefs_def)
qed

end
