(* ===== verification/GroupCompile.thy ===== *)
theory GroupCompile
  imports GraphUnits GraphReach
begin

text \<open>
  The compilation of one co-location group (engine/graph/group_compile.go): its
  members, its unique entry, that the entry reaches every member inside the group,
  and the targets of its error output.  \<open>compileGroups\<close> runs further checks on the
  parameters of the members (credential literals, references in expressions, nested
  sub-graph bodies), which are patterns over expression text and are not modelled;
  they only reject and change nothing.

  A member set is a Go map from node indexes; here it is the list of its keys,
  without repetition.  A loop that ranges over it visits the keys in an unspecified
  order, the order of the list.
\<close>

section \<open>Checks on the declaration\<close>

record GroupDef =
  gd_Name :: string
  gd_Members :: "string list"
  gd_RunnerSelector :: "RunnerSelector option"
  gd_OnError :: string
  gd_ErrorOutputs :: "Connection list"
  gd_Retry :: "RetrySettings option"
  gd_Timeout :: Duration
  gd_Mode :: string
  gd_ActivationReplicas :: int

definition ReservedNodeTypePrefix :: string where
  "ReservedNodeTypePrefix = ''xflow.group_''"

definition validateGroupNameNotReserved :: "string \<Rightarrow> CompileError + unit" where
  "validateGroupNameNotReserved name =
     (if hasPrefix name ReservedNodeTypePrefix then Inl (GroupRejected (GroupNameReserved name))
      else if hasPrefix name ''__'' then Inl (GroupRejected (GroupNameReserved name))
      else Inr ())"

definition validateGroupOnError :: "string \<Rightarrow> string \<Rightarrow> CompileError + unit" where
  "validateGroupOnError name onErr =
     (if onErr \<in> {'''', ''stop'', ''continue'', ''error_output''} then Inr () else Inl (GroupRejected (GroupOnErrorUnsupported name onErr)))"

definition validateGroupErrorOutputs :: "string \<Rightarrow> string \<Rightarrow> Connection list \<Rightarrow> CompileError + unit" where
  "validateGroupErrorOutputs name onErr errorOutputs =
     (if onErr = ''error_output'' then
        (if errorOutputs = [] then Inl (GroupRejected (GroupRoutesNowhere name)) else Inr ())
      else if errorOutputs \<noteq> [] then Inl (GroupRejected (GroupRouteUnused name onErr))
      else Inr ())"

definition validateGroupRetry :: "string \<Rightarrow> RetrySettings option \<Rightarrow> CompileError + unit" where
  "validateGroupRetry name retry = (case retry of None \<Rightarrow> Inr () | Some _ \<Rightarrow> Inl (GroupRejected (GroupRetryUnsupported name)))"

section \<open>Members\<close>

definition SubWorkflowNodeType :: string where
  "SubWorkflowNodeType = ''xflow.subworkflow''"

definition NodeKindTrigger :: string where
  "NodeKindTrigger = ''trigger''"

definition collectMember :: "Graph \<Rightarrow> string \<Rightarrow> int list \<Rightarrow> CompileError + int list" where
  "collectMember g name members = (case fmlookup (g_index g) name of
      None \<Rightarrow> Inl (GroupRejected (UnknownMember name))
    | Some i \<Rightarrow>
        if i \<in> set members then Inl (GroupRejected (DuplicateMember name))
        else andThen (atIdx (g_nodes g) i) (\<lambda>n.
          if nm_GroupIdx n \<noteq> -1 then Inl (GroupRejected (MemberOfAnotherGroup name))
          else if nm_RunnerSelector n \<noteq> None then Inl (GroupRejected (MemberSelector name))
          else if nm_ActivationReplicas n \<noteq> 0 then Inl (GroupRejected (MemberReplicas name))
          else if nm_Kind n = NodeKindSupply then Inl (GroupRejected (MemberSupply name))
          else if nm_Type n = SubWorkflowNodeType then Inl (GroupRejected (MemberSubWorkflow name))
          else Inr (members @ [i])))"

definition joinGroup :: "int \<Rightarrow> int \<Rightarrow> Graph \<Rightarrow> Graph" where
  "joinGroup groupIdx i g = g\<lparr>g_nodes := (g_nodes g)[nat i := (g_nodes g ! nat i)\<lparr>nm_GroupIdx := groupIdx\<rparr>]\<rparr>"

section \<open>Entry\<close>

definition scanMember :: "Graph \<Rightarrow> int list \<Rightarrow> int \<Rightarrow> int list \<times> int list \<times> int list \<Rightarrow> CompileError + (int list \<times> int list \<times> int list)" where
  "scanMember g members i st = (case st of (triggers, external, entries) \<Rightarrow>
     andThen (atIdx (g_nodes g) i) (\<lambda>n. andThen (atIdx (g_inEdges g) i) (\<lambda>ins.
       let internalIn = (\<exists>e\<in>set ins. e_SrcIdx e \<in> set members);
           externalIn = (\<exists>e\<in>set ins. e_SrcIdx e \<notin> set members)
       in Inr (if nm_Kind n = NodeKindTrigger then triggers @ [i] else triggers,
               if externalIn then external @ [i] else external,
               if \<not> internalIn then entries @ [i] else entries))))"

definition resolveGroupEntry :: "Graph \<Rightarrow> int list \<Rightarrow> CompileError + (int \<times> bool)" where
  "resolveGroupEntry g members =
     andThen (foldE (scanMember g members) members ([], [], [])) (\<lambda>(triggers, external, entries).
       if length triggers > 1 then Inl (GroupRejected (TooManyTriggers (length triggers)))
       else if length triggers = 1 then Inr (hd triggers, True)
       else if length external > 1 then Inl (GroupRejected (TooManyEntries (length external)))
       else if length external = 1 then Inr (hd external, False)
       else if length entries \<noteq> 1 then Inl (GroupRejected (NoSingleEntry (length entries)))
       else Inr (hd entries, False))"

fun visitMembers :: "int list \<Rightarrow> Edge list \<Rightarrow> int list \<Rightarrow> int list \<Rightarrow> int list \<times> int list" where
  "visitMembers members [] seen queue = (seen, queue)"
| "visitMembers members (e # es) seen queue =
     (if e_DstIdx e \<in> set members \<and> e_DstIdx e \<notin> set seen
      then visitMembers members es (seen @ [e_DstIdx e]) (queue @ [e_DstIdx e])
      else visitMembers members es seen queue)"

lemma visitMembers_measure:
  "length (snd (visitMembers members es seen queue)) + card (set members - set (fst (visitMembers members es seen queue)))
     = length queue + card (set members - set seen)"
proof (induction members es seen queue rule: visitMembers.induct)
  case (2 members e es seen queue)
  have "card (set members - set seen) = Suc (card (set members - set (seen @ [e_DstIdx e])))"
    if "e_DstIdx e \<in> set members" "e_DstIdx e \<notin> set seen"
  proof -
    have "set members - set seen = insert (e_DstIdx e) (set members - set (seen @ [e_DstIdx e]))" using that by auto
    then show ?thesis by (metis Diff_iff List.finite_set card_insert_disjoint finite_Diff in_set_conv_decomp)
  qed
  then show ?case using 2 by auto
qed simp

function membersLoop :: "Edge list list \<Rightarrow> int list \<Rightarrow> int list \<Rightarrow> int list \<Rightarrow> CompileError + int list" where
  "membersLoop outs members seen [] = Inr seen"
| "membersLoop outs members seen (cur # queue) = (case idx outs cur of
      None \<Rightarrow> Inl IndexPanic
    | Some es \<Rightarrow> membersLoop outs members (fst (visitMembers members es seen queue)) (snd (visitMembers members es seen queue)))"
  by pat_completeness auto
termination
proof (relation "measure (\<lambda>(outs, members, seen, queue). length queue + card (set members - set seen))")
  show "((outs, members, fst (visitMembers members es seen queue), snd (visitMembers members es seen queue)), outs, members, seen, cur # queue)
      \<in> measure (\<lambda>(outs, members, seen, queue). length queue + card (set members - set seen))"
    if "idx outs cur = Some es" for outs members seen cur queue es
    using visitMembers_measure [of members es seen queue] by (simp add: case_prod_unfold)
qed simp

definition assertEntryDominates :: "Graph \<Rightarrow> int \<Rightarrow> int list \<Rightarrow> CompileError + unit" where
  "assertEntryDominates g entry members =
     andThen (membersLoop (g_outEdges g) members [entry] [entry]) (\<lambda>seen.
       if length seen \<noteq> length members
       then andThen (atIdx (g_nodes g) entry) (\<lambda>n. Inl (GroupRejected (EntryMissesMembers (nm_Name n) (length seen) (length members))))
       else Inr ())"

section \<open>Error outputs\<close>

fun findNodeDef :: "NodeDef list \<Rightarrow> string \<Rightarrow> NodeDef option" where
  "findNodeDef [] name = None"
| "findNodeDef (nd # nds) name = (if nd_Name nd = name then Some nd else findNodeDef nds name)"

text \<open>The targets found so far and the keys already used.\<close>

definition errorTarget :: "Graph \<Rightarrow> WorkflowDef \<Rightarrow> string \<Rightarrow> int list \<Rightarrow> Connection \<Rightarrow>
    BoundaryEndpoint list \<times> string list \<Rightarrow> CompileError + (BoundaryEndpoint list \<times> string list)" where
  "errorTarget g def name members target st = (case fmlookup (g_index g) (co_Node target) of
      None \<Rightarrow> Inl (GroupRejected (ErrorTargetUnknown name (co_Node target)))
    | Some i \<Rightarrow>
        if i \<in> set members then Inl (GroupRejected (ErrorTargetMember name (co_Node target)))
        else andThen (atIdx (g_nodes g) i) (\<lambda>n.
          if nm_Kind n = NodeKindSupply then Inl (GroupRejected (ErrorTargetSupply name (co_Node target)))
          else let port = (if co_Input target \<noteq> '''' then co_Input target else DefaultInputPort);
                   key = itoa i @ [CHR 0x00] @ port
               in if key \<in> set (snd st) then Inl (GroupRejected (ErrorTargetTwice name (co_Node target) port))
                  else andThen (validateEdgeTarget (case findNodeDef (wd_Nodes def) (co_Node target) of None \<Rightarrow> None | Some nd \<Rightarrow> declaredInputPorts nd)
                                  name (co_Node target) (co_Input target))
                         (\<lambda>_. Inr (fst st @ [\<lparr>be_NodeIdx = i, be_Port = port\<rparr>], snd st @ [key]))))"

definition resolveGroupErrorOutputs :: "Graph \<Rightarrow> WorkflowDef \<Rightarrow> GroupDef \<Rightarrow> int list \<Rightarrow> CompileError + BoundaryEndpoint list" where
  "resolveGroupErrorOutputs g def gd members =
     (if gd_ErrorOutputs gd = [] then Inr []
      else andThen (foldE (errorTarget g def (gd_Name gd) members) (gd_ErrorOutputs gd) ([], [])) (\<lambda>(out, dup).
        Inr (sort_key endpointKey out)))"

section \<open>One group\<close>

definition groupMetaOf :: "GroupDef \<Rightarrow> int list \<Rightarrow> int \<Rightarrow> bool \<Rightarrow> BoundaryEndpoint list \<Rightarrow> GroupMeta" where
  "groupMetaOf gd members entry trigger errorOutputs =
     \<lparr>gm_Name = gd_Name gd, gm_Members = members, gm_EntryIdx = entry, gm_UnitIdx = -1, gm_Trigger = trigger,
      gm_BoundaryInputs = [], gm_BoundaryOutputs = [], gm_RunnerSelector = gd_RunnerSelector gd,
      gm_OnError = gd_OnError gd, gm_ErrorOutputs = errorOutputs, gm_Retry = gd_Retry gd,
      gm_Timeout = gd_Timeout gd, gm_Mode = gd_Mode gd, gm_ActivationReplicas = gd_ActivationReplicas gd\<rparr>"

text \<open>The part after the members have joined the group.\<close>

definition finishGroup :: "Graph \<Rightarrow> WorkflowDef \<Rightarrow> GroupDef \<Rightarrow> int list \<Rightarrow> CompileError + (Graph \<times> GroupMeta)" where
  "finishGroup g def gd members =
     andThen (resolveGroupEntry g members) (\<lambda>(entry, trigger).
       andThen (assertEntryDominates g entry members) (\<lambda>_.
         andThen (resolveGroupErrorOutputs g def gd members) (\<lambda>errorOutputs.
           Inr (g, groupMetaOf gd members entry trigger errorOutputs))))"

definition compileOneGroup :: "Graph \<Rightarrow> WorkflowDef \<Rightarrow> GroupDef \<Rightarrow> int \<Rightarrow> CompileError + (Graph \<times> GroupMeta)" where
  "compileOneGroup g def gd groupIdx =
     (if gd_Members gd = [] then Inl (GroupRejected GroupNoMembers)
      else andThen (foldE (collectMember g) (gd_Members gd) []) (\<lambda>collected.
        let members = sort collected
        in finishGroup (fold (joinGroup groupIdx) members g) def gd members))"

section \<open>Reasoning about checks\<close>

text \<open>A check that never runs out of range and whose result, when it accepts,
  satisfies a predicate.\<close>

definition safeE :: "('a \<Rightarrow> bool) \<Rightarrow> CompileError + 'a \<Rightarrow> bool" where
  "safeE P r \<longleftrightarrow> (case r of Inl e \<Rightarrow> e \<noteq> IndexPanic | Inr x \<Rightarrow> P x)"

lemma safeE_simps [simp]: "safeE P (Inl e) \<longleftrightarrow> e \<noteq> IndexPanic" "safeE P (Inr x) \<longleftrightarrow> P x"
  by (simp_all add: safeE_def)

lemma safeE_andThen: "safeE P r \<Longrightarrow> (\<And>x. P x \<Longrightarrow> safeE Q (f x)) \<Longrightarrow> safeE Q (andThen r f)"
  by (cases r) auto

lemma safeE_mono: "safeE P r \<Longrightarrow> (\<And>x. P x \<Longrightarrow> Q x) \<Longrightarrow> safeE Q r"
  by (cases r) auto

lemma safeE_at: "0 \<le> i \<Longrightarrow> i < int (length xs) \<Longrightarrow> P (xs ! nat i) \<Longrightarrow> safeE P (atIdx xs i)"
  by (simp add: atIdx_def idx_def)

lemma safeE_foldE:
  assumes "I [] s" "\<And>x pre s. I pre s \<Longrightarrow> x \<in> set xs \<Longrightarrow> safeE (I (pre @ [x])) (f x s)"
  shows "safeE (I xs) (foldE f xs s)"
proof -
  have "safeE (I (pre @ ys)) (foldE f ys t)" if "I pre t" "set ys \<subseteq> set xs" for pre ys t
    using that
  proof (induction ys arbitrary: pre t)
    case (Cons y ys)
    have "safeE (I (pre @ [y])) (f y t)" using assms(2) Cons.prems by simp
    moreover have "safeE (I (pre @ y # ys)) (foldE f ys u)" if "I (pre @ [y]) u" for u
      using Cons.IH [OF that] Cons.prems(2) by simp
    ultimately show ?case unfolding foldE.simps by (rule safeE_andThen)
  qed simp
  from this [of "[]" s xs] assms(1) show ?thesis by simp
qed

section \<open>Members and entry\<close>

definition memberOK :: "Graph \<Rightarrow> int \<Rightarrow> bool" where
  "memberOK g m \<longleftrightarrow> 0 \<le> m \<and> m < NodeCount g \<and> nm_GroupIdx (g_nodes g ! nat m) = -1 \<and> nm_Kind (g_nodes g ! nat m) \<noteq> NodeKindSupply"

lemma collectMembers_safe:
  assumes "indexed g"
  shows "safeE (\<lambda>ms. distinct ms \<and> length ms = length names \<and> (\<forall>m\<in>set ms. memberOK g m)) (foldE (collectMember g) names [])"
proof (rule safeE_foldE [where I = "\<lambda>(pre :: string list) ms. distinct ms \<and> length ms = length pre \<and> (\<forall>m\<in>set ms. memberOK g m)"])
  fix name :: string and pre :: "string list" and ms assume I: "distinct ms \<and> length ms = length pre \<and> (\<forall>m\<in>set ms. memberOK g m)"
  show "safeE (\<lambda>ms'. distinct ms' \<and> length ms' = length (pre @ [name]) \<and> (\<forall>m\<in>set ms'. memberOK g m)) (collectMember g name ms)"
  proof (cases "fmlookup (g_index g) name")
    case (Some i)
    then have "0 \<le> i" "i < int (length (g_nodes g))" using assms unfolding indexed_def NodeCount_def by blast+
    then show ?thesis using Some I by (simp add: collectMember_def atIdx_def idx_def memberOK_def NodeCount_def)
  qed (simp add: collectMember_def)
qed simp

lemma joinGroups:
  assumes "\<forall>m\<in>set ms. 0 \<le> m \<and> m < NodeCount g"
  shows "\<exists>ns. fold (joinGroup gi) ms g = g\<lparr>g_nodes := ns\<rparr> \<and> length ns = length (g_nodes g)
    \<and> (\<forall>i<length ns. ns ! i = (if int i \<in> set ms then (g_nodes g ! i)\<lparr>nm_GroupIdx := gi\<rparr> else g_nodes g ! i))"
  using assms
proof (induction ms arbitrary: g)
  case Nil
  have "g = g\<lparr>g_nodes := g_nodes g\<rparr>" by simp
  then show ?case by (intro exI [of _ "g_nodes g"]) simp
next
  case (Cons m ms)
  let ?g = "joinGroup gi m g"
  have len: "length (g_nodes ?g) = length (g_nodes g)" by (simp add: joinGroup_def)
  have "\<forall>m'\<in>set ms. 0 \<le> m' \<and> m' < NodeCount ?g" using Cons.prems by (simp add: joinGroup_def NodeCount_def)
  from Cons.IH [OF this] obtain ns where ns: "fold (joinGroup gi) ms ?g = ?g\<lparr>g_nodes := ns\<rparr>" "length ns = length (g_nodes g)"
    "\<And>i. i < length ns \<Longrightarrow> ns ! i = (if int i \<in> set ms then (g_nodes ?g ! i)\<lparr>nm_GroupIdx := gi\<rparr> else g_nodes ?g ! i)"
    by (auto simp: len)
  have "ns ! i = (if int i \<in> set (m # ms) then (g_nodes g ! i)\<lparr>nm_GroupIdx := gi\<rparr> else g_nodes g ! i)" if "i < length ns" for i
    using ns(3) [OF that] that ns(2) Cons.prems by (cases "int i = m") (auto simp: joinGroup_def nth_list_update)
  moreover have "?g\<lparr>g_nodes := ns\<rparr> = g\<lparr>g_nodes := ns\<rparr>" by (simp add: joinGroup_def)
  ultimately show ?case using ns(1,2) by (intro exI [of _ ns]) simp
qed

definition entersFrom :: "Graph \<Rightarrow> int list \<Rightarrow> int \<Rightarrow> bool" where
  "entersFrom g members i \<longleftrightarrow> (\<exists>e\<in>set (g_inEdges g ! nat i). e_SrcIdx e \<notin> set members)"

lemma scanMembers:
  assumes "\<forall>m\<in>set xs. 0 \<le> m \<and> m < int (length (g_nodes g))" "length (g_inEdges g) = length (g_nodes g)"
  shows "foldE (scanMember g members) xs (ts, ex, en) =
    Inr (ts @ filter (\<lambda>m. nm_Kind (g_nodes g ! nat m) = NodeKindTrigger) xs, ex @ filter (entersFrom g members) xs,
         en @ filter (\<lambda>m. \<not> (\<exists>e\<in>set (g_inEdges g ! nat m). e_SrcIdx e \<in> set members)) xs)"
  using assms
proof (induction xs arbitrary: ts ex en)
  case (Cons x xs)
  then show ?case by (auto simp: scanMember_def atIdx_def idx_def entersFrom_def)
qed simp

lemma single_filter:
  assumes "length (filter P xs) = 1"
  shows "hd (filter P xs) \<in> set xs" "P (hd (filter P xs))" "x \<in> set xs \<Longrightarrow> P x \<Longrightarrow> x = hd (filter P xs)"
proof -
  obtain a where a: "filter P xs = [a]" using assms by (auto simp: length_Suc_conv)
  then have "set (filter P xs) = {a}" by simp
  then have "{x \<in> set xs. P x} = {a}" by simp
  then show "hd (filter P xs) \<in> set xs" "P (hd (filter P xs))" "x \<in> set xs \<Longrightarrow> P x \<Longrightarrow> x = hd (filter P xs)" using a by auto
qed

lemma resolveGroupEntry_safe:
  assumes r: "\<forall>m\<in>set members. 0 \<le> m \<and> m < int (length (g_nodes g))" and l: "length (g_inEdges g) = length (g_nodes g)"
  shows "safeE (\<lambda>(entry, trigger). entry \<in> set members
      \<and> (trigger \<longleftrightarrow> (\<exists>m\<in>set members. nm_Kind (g_nodes g ! nat m) = NodeKindTrigger))
      \<and> (\<not> trigger \<longrightarrow> (\<forall>m\<in>set members. entersFrom g members m \<longrightarrow> m = entry))) (resolveGroupEntry g members)"
proof -
  define rooted where "rooted = (\<lambda>m. \<not> (\<exists>e\<in>set (g_inEdges g ! nat m). e_SrcIdx e \<in> set members))"
  let ?T = "filter (\<lambda>m. nm_Kind (g_nodes g ! nat m) = NodeKindTrigger) members" and ?E = "filter (entersFrom g members) members"
    and ?N = "filter rooted members"
  have hd: "hd (filter P members) \<in> set members \<and> P (hd (filter P members))" if "length (filter P members) = 1" for P
    using single_filter [OF that] by blast
  have none: "\<not> (\<exists>m\<in>set members. P m)" if "filter P members = []" for P using that by (simp add: filter_empty_conv)
  have one: "\<forall>m\<in>set members. P m \<longrightarrow> m = hd (filter P members)" if "length (filter P members) = 1" for P
    using single_filter(3) [OF that] by blast
  have run: "resolveGroupEntry g members =
      (if length ?T > 1 then Inl (GroupRejected (TooManyTriggers (length ?T))) else if length ?T = 1 then Inr (hd ?T, True)
       else if length ?E > 1 then Inl (GroupRejected (TooManyEntries (length ?E))) else if length ?E = 1 then Inr (hd ?E, False)
       else if length ?N \<noteq> 1 then Inl (GroupRejected (NoSingleEntry (length ?N))) else Inr (hd ?N, False))"
    unfolding resolveGroupEntry_def scanMembers [OF r l] by (simp add: rooted_def)
  have few: "1 < length xs \<or> length xs = 1 \<or> xs = []" for xs :: "int list" by (cases xs) auto
  consider "length ?T > 1" | "length ?T = 1" | "?T = []" "length ?E > 1" | "?T = []" "length ?E = 1" | "?T = []" "?E = []"
    using few [of ?T] few [of ?E] by blast
  then show ?thesis
  proof cases
    case 2
    then show ?thesis unfolding run using hd [OF 2] by auto
  next
    case 4
    then show ?thesis unfolding run using hd [OF 4(2)] one [OF 4(2)] none [OF 4(1)] by auto
  next
    case 5
    then show ?thesis unfolding run using hd [of rooted] none [OF 5(1)] none [OF 5(2)] by (cases "length ?N = 1") simp_all
  qed (simp_all add: run)
qed

definition insideRel :: "Graph \<Rightarrow> int set \<Rightarrow> (int \<times> int) set" where
  "insideRel g M = {(u, v) \<in> nodeRel g. v \<in> M}"

lemma visitMembers_spec:
  assumes "distinct seen"
  shows "\<exists>new. visitMembers members es seen queue = (seen @ new, queue @ new) \<and> distinct (seen @ new)
    \<and> set new = e_DstIdx ` set es \<inter> set members - set seen"
  using assms
proof (induction members es seen queue rule: visitMembers.induct)
  case (2 members e es seen queue)
  show ?case
  proof (cases "e_DstIdx e \<in> set members \<and> e_DstIdx e \<notin> set seen")
    case True
    then obtain new where "visitMembers members es (seen @ [e_DstIdx e]) (queue @ [e_DstIdx e]) = ((seen @ [e_DstIdx e]) @ new, (queue @ [e_DstIdx e]) @ new)"
      "distinct ((seen @ [e_DstIdx e]) @ new)" "set new = e_DstIdx ` set es \<inter> set members - set (seen @ [e_DstIdx e])"
      using 2 by fastforce
    then show ?thesis using True by (intro exI [of _ "e_DstIdx e # new"]) auto
  next
    case False
    then show ?thesis using 2 by auto
  qed
qed simp

lemma membersLoop_exact:
  assumes "targetsIn n outs" "distinct seen" "\<forall>v\<in>set seen. 0 \<le> v \<and> v < int n"
    and "searching {(u, v) \<in> outRel outs. v \<in> set members} {entry} (set seen) queue"
  shows "\<exists>seen'. membersLoop outs members seen queue = Inr seen' \<and> distinct seen'
    \<and> set seen' = {(u, v) \<in> outRel outs. v \<in> set members}\<^sup>* `` {entry}"
  using assms
proof (induction outs members seen queue rule: membersLoop.induct)
  case (1 outs members seen)
  then show ?case using searching_end by fastforce
next
  case (2 outs members seen cur queue)
  let ?R = "{(u, v) \<in> outRel outs. v \<in> set members}"
  have "cur \<in> set seen" using 2(5) by (simp add: searching_def)
  then have r: "0 \<le> cur" "cur < int (length outs)" using 2(2,4) by (auto simp: targetsIn_def)
  let ?es = "outs ! nat cur"
  have at: "idx outs cur = Some ?es" using r by (simp add: idx_def)
  obtain new where new: "visitMembers members ?es seen queue = (seen @ new, queue @ new)" "distinct (seen @ new)"
    "set new = e_DstIdx ` set ?es \<inter> set members - set seen" using visitMembers_spec [OF 2(3)] by blast
  have "set new = ?R `` {cur} - set seen" using new(3) outRel_at [OF r] by auto
  from searching_step [OF 2(5) this] have "searching ?R {entry} (set (seen @ new)) (queue @ new)" by simp
  moreover have "\<forall>v\<in>set (seen @ new). 0 \<le> v \<and> v < int n" using 2(4) new(3) targetsIn_at [OF 2(2) r] by auto
  ultimately show ?case using 2(1) [OF at] 2(2) new(1,2) at by simp
qed

lemma assertEntryDominates_safe:
  assumes wf: "edgesWF g" and ms: "distinct members" "\<forall>m\<in>set members. 0 \<le> m \<and> m < NodeCount g" and e: "entry \<in> set members"
  shows "safeE (\<lambda>_. set members \<subseteq> (insideRel g (set members))\<^sup>* `` {entry}) (assertEntryDominates g entry members)"
proof -
  let ?R = "{(u, v) \<in> outRel (g_outEdges g). v \<in> set members}"
  have R: "?R = insideRel g (set members)" by (simp add: insideRel_def outRel_nodeRel)
  have "\<forall>v\<in>set [entry]. 0 \<le> v \<and> v < int (length (g_nodes g))" "searching ?R {entry} (set [entry]) [entry]"
    using ms(2) e by (simp_all add: searching_start NodeCount_def)
  from membersLoop_exact [OF edgesWF_targets [OF wf] _ this] obtain seen where s: "membersLoop (g_outEdges g) members [entry] [entry] = Inr seen" "distinct seen" "set seen = ?R\<^sup>* `` {entry}"
    by auto
  have "v \<in> set members" if "(u, v) \<in> ?R\<^sup>*" "u \<in> set members" for u v using that by (induction rule: rtrancl_induct) auto
  then have sub: "set seen \<subseteq> set members" using s(3) e by auto
  have "set seen = set members" if "length seen = length members"
    using that sub s(2) ms(1) by (metis card_subset_eq distinct_card List.finite_set)
  then have "set members \<subseteq> ?R\<^sup>* `` {entry}" if "length seen = length members" using that s(3) by simp
  then show ?thesis using s(1) ms(2) e unfolding R by (auto simp: assertEntryDominates_def atIdx_def idx_def NodeCount_def)
qed

lemma resolveGroupErrorOutputs_safe:
  assumes "indexed g"
  shows "safeE (\<lambda>out. \<forall>d\<in>set out. 0 \<le> be_NodeIdx d \<and> be_NodeIdx d < NodeCount g \<and> be_NodeIdx d \<notin> set members
      \<and> nm_Kind (g_nodes g ! nat (be_NodeIdx d)) \<noteq> NodeKindSupply) (resolveGroupErrorOutputs g def gd members)"
proof -
  define ok :: "BoundaryEndpoint \<Rightarrow> bool" where "ok = (\<lambda>d. 0 \<le> be_NodeIdx d \<and> be_NodeIdx d < NodeCount g \<and> be_NodeIdx d \<notin> set members
      \<and> nm_Kind (g_nodes g ! nat (be_NodeIdx d)) \<noteq> NodeKindSupply)"
  have v: "validateEdgeTarget p a b l \<noteq> Inl IndexPanic" for p a b l by (simp add: validateEdgeTarget_def split: option.split)
  have "safeE (\<lambda>st. \<forall>d\<in>set (fst st). ok d) (errorTarget g def name members c st)" if I: "\<forall>d\<in>set (fst st). ok d" for name c st
  proof (cases "fmlookup (g_index g) (co_Node c)")
    case (Some i)
    then have i: "0 \<le> i" "i < NodeCount g" using assms unfolding indexed_def by blast+
    have e: "safeE (\<lambda>st. \<forall>d\<in>set (fst st). ok d) (andThen (validateEdgeTarget p a b l) (\<lambda>_. Inr (fst st @ [\<lparr>be_NodeIdx = i, be_Port = port\<rparr>], k)))"
      if "i \<notin> set members" "nm_Kind (g_nodes g ! nat i) \<noteq> NodeKindSupply" for p a b l port k
      using v [of p a b l] that i I by (cases "validateEdgeTarget p a b l") (auto simp: ok_def)
    show ?thesis using Some i e by (auto simp: errorTarget_def atIdx_def idx_def NodeCount_def Let_def)
  qed (simp add: errorTarget_def)
  then have "safeE (\<lambda>st. \<forall>d\<in>set (fst st). ok d) (foldE (errorTarget g def name members) cs ([], []))" for name cs
    using safeE_foldE [where I = "\<lambda>_ st. \<forall>d\<in>set (fst st). ok d" and f = "errorTarget g def name members" and xs = cs and s = "([], [])"] by simp
  then have "safeE (\<lambda>out. \<forall>d\<in>set out. ok d) (andThen (foldE (errorTarget g def (gd_Name gd) members) (gd_ErrorOutputs gd) ([], []))
      (\<lambda>(out, dup). Inr (sort_key endpointKey out)))"
    by (rule safeE_andThen) auto
  then show ?thesis by (simp add: resolveGroupErrorOutputs_def ok_def)
qed

section \<open>A compiled group fits the graph\<close>

definition groupFits :: "Graph \<Rightarrow> GroupMeta \<Rightarrow> bool" where
  "groupFits g gm \<longleftrightarrow>
     gm_Members gm \<noteq> [] \<and> distinct (gm_Members gm) \<and> sorted (gm_Members gm) \<and> gm_EntryIdx gm \<in> set (gm_Members gm)
     \<and> set (gm_Members gm) \<subseteq> (insideRel g (set (gm_Members gm)))\<^sup>* `` {gm_EntryIdx gm}
     \<and> (\<not> gm_Trigger gm \<longrightarrow> (\<forall>m\<in>set (gm_Members gm). entersFrom g (gm_Members gm) m \<longrightarrow> m = gm_EntryIdx gm))
     \<and> (\<forall>d\<in>set (gm_ErrorOutputs gm). be_NodeIdx d \<notin> set (gm_Members gm))"

lemma groupsOK_append:
  assumes ok: "groupsOK g" and ns: "length ns = length (g_nodes g)"
    "\<And>i. i < length ns \<Longrightarrow> ns ! i = (if int i \<in> set (gm_Members gm) then (g_nodes g ! i)\<lparr>nm_GroupIdx := int (length (g_groups g))\<rparr> else g_nodes g ! i)"
    and ms: "\<forall>m\<in>set (gm_Members gm). memberOK g m"
    and out: "\<forall>d\<in>set (gm_ErrorOutputs gm). 0 \<le> be_NodeIdx d \<and> be_NodeIdx d < NodeCount g \<and> nm_Kind (ns ! nat (be_NodeIdx d)) \<noteq> NodeKindSupply"
  shows "groupsOK (g\<lparr>g_nodes := ns, g_groups := g_groups g @ [gm]\<rparr>)"
proof -
  let ?k = "length (g_groups g)"
  have kind: "nm_Kind (ns ! i) = nm_Kind (g_nodes g ! i)" if "i < length ns" for i using ns(2) [OF that] by simp
  have new: "ns ! nat m = (g_nodes g ! nat m)\<lparr>nm_GroupIdx := int ?k\<rparr> \<and> nat m < length ns" if "m \<in> set (gm_Members gm)" for m
    using ms that ns by (auto simp: memberOK_def NodeCount_def nat_less_iff)
  have old: "0 \<le> m" "m < NodeCount g" "nm_GroupIdx (g_nodes g ! nat m) = int gi" "nm_Kind (g_nodes g ! nat m) \<noteq> NodeKindSupply"
    if "gi < ?k" "m \<in> set (gm_Members (g_groups g ! gi))" for gi m using ok that unfolding groupsOK_def by blast+
  have keep: "m \<notin> set (gm_Members gm)" if "gi < ?k" "m \<in> set (gm_Members (g_groups g ! gi))" for gi m
    using old(3) [OF that] ms by (auto simp: memberOK_def)
  have "nm_GroupIdx (ns ! i) = -1 \<or> (\<exists>gi<Suc ?k. nm_GroupIdx (ns ! i) = int gi \<and> int i \<in> set (gm_Members ((g_groups g @ [gm]) ! gi)))"
    if i: "i < length ns" for i
  proof (cases "int i \<in> set (gm_Members gm)")
    case True
    then show ?thesis using ns(2) [OF i] by (intro disjI2 exI [of _ ?k]) simp
  next
    case False
    then have "ns ! i = g_nodes g ! i" using ns(2) [OF i] by simp
    moreover have "nm_GroupIdx (g_nodes g ! i) = -1 \<or> (\<exists>gi<?k. nm_GroupIdx (g_nodes g ! i) = int gi \<and> int i \<in> set (gm_Members (g_groups g ! gi)))"
      using ok i ns(1) unfolding groupsOK_def by simp
    ultimately show ?thesis by (auto simp: nth_append intro: less_SucI)
  qed
  moreover have "0 \<le> m \<and> m < int (length ns) \<and> nm_GroupIdx (ns ! nat m) = int gi \<and> nm_Kind (ns ! nat m) \<noteq> NodeKindSupply"
    if "gi < Suc ?k" "m \<in> set (gm_Members ((g_groups g @ [gm]) ! gi))" for gi m
  proof (cases "gi = ?k")
    case True
    then show ?thesis using that(2) ms new [of m] ns(1) by (auto simp: memberOK_def NodeCount_def)
  next
    case False
    then have gi: "gi < ?k" "m \<in> set (gm_Members (g_groups g ! gi))" using that by (simp_all add: nth_append)
    then have "nat m < length ns" using old(1,2) [OF gi] ns(1) by (simp add: NodeCount_def nat_less_iff)
    then show ?thesis using old [OF gi] keep [OF gi] ns by (simp add: NodeCount_def)
  qed
  moreover have "0 \<le> be_NodeIdx d \<and> be_NodeIdx d < int (length ns) \<and> nm_Kind (ns ! nat (be_NodeIdx d)) \<noteq> NodeKindSupply"
    if "gi < Suc ?k" "d \<in> set (gm_ErrorOutputs ((g_groups g @ [gm]) ! gi))" for gi d
  proof (cases "gi = ?k")
    case True
    then show ?thesis using that(2) out ns(1) by (simp add: NodeCount_def)
  next
    case False
    then have gi: "gi < ?k" "d \<in> set (gm_ErrorOutputs (g_groups g ! gi))" using that by (simp_all add: nth_append)
    then have "0 \<le> be_NodeIdx d \<and> be_NodeIdx d < NodeCount g \<and> nm_Kind (g_nodes g ! nat (be_NodeIdx d)) \<noteq> NodeKindSupply"
      using ok unfolding groupsOK_def by blast
    then show ?thesis using kind [of "nat (be_NodeIdx d)"] ns(1) by (simp add: NodeCount_def nat_less_iff)
  qed
  ultimately show ?thesis unfolding groupsOK_def by (simp add: NodeCount_def)
qed

text \<open>What the compilation of a group keeps of the graph.\<close>

definition onlyGrouped :: "Graph \<Rightarrow> Graph \<Rightarrow> bool" where
  "onlyGrouped g g' \<longleftrightarrow> (\<exists>ns. g' = g\<lparr>g_nodes := ns\<rparr> \<and> map nm_Kind ns = map nm_Kind (g_nodes g))"

lemma onlyGrouped_wf:
  assumes "onlyGrouped g g'"
  shows "edgesWF g' = edgesWF g" "indexed g' = indexed g" "NodeCount g' = NodeCount g" "g_outEdges g' = g_outEdges g" "g_inEdges g' = g_inEdges g"
    "length (g_nodes g') = length (g_nodes g)"
proof -
  obtain ns where ns: "g' = g\<lparr>g_nodes := ns\<rparr>" "map nm_Kind ns = map nm_Kind (g_nodes g)" using assms by (auto simp: onlyGrouped_def)
  have "length ns = length (g_nodes g)" using map_eq_imp_length_eq [OF ns(2)] .
  then show "edgesWF g' = edgesWF g" "indexed g' = indexed g" "NodeCount g' = NodeCount g" "g_outEdges g' = g_outEdges g" "g_inEdges g' = g_inEdges g"
    "length (g_nodes g') = length (g_nodes g)"
    by (simp_all add: ns(1) edgesWF_def indexed_def NodeCount_def)
qed

lemma finishGroup_safe:
  assumes wf: "edgesWF g" "indexed g" and ms: "members \<noteq> []" "distinct members" "sorted members" "\<forall>m\<in>set members. 0 \<le> m \<and> m < NodeCount g"
  shows "safeE (\<lambda>(g', gm). g' = g \<and> gm_Members gm = members \<and> groupFits g gm
      \<and> (\<forall>d\<in>set (gm_ErrorOutputs gm). 0 \<le> be_NodeIdx d \<and> be_NodeIdx d < NodeCount g \<and> nm_Kind (g_nodes g ! nat (be_NodeIdx d)) \<noteq> NodeKindSupply))
    (finishGroup g def gd members)" (is "safeE ?Q _")
proof -
  have r: "\<forall>m\<in>set members. 0 \<le> m \<and> m < int (length (g_nodes g))" "length (g_inEdges g) = length (g_nodes g)"
    using ms(4) wf(1) by (simp_all add: NodeCount_def edgesWF_def listsWF_def)
  let ?out = "\<lambda>out. \<forall>d\<in>set out. 0 \<le> be_NodeIdx d \<and> be_NodeIdx d < NodeCount g \<and> be_NodeIdx d \<notin> set members
      \<and> nm_Kind (g_nodes g ! nat (be_NodeIdx d)) \<noteq> NodeKindSupply"
  have "safeE ?Q (andThen (assertEntryDominates g entry members) (\<lambda>_. andThen (resolveGroupErrorOutputs g def gd members) (\<lambda>errorOutputs.
           Inr (g, groupMetaOf gd members entry trigger errorOutputs))))"
    if e: "entry \<in> set members" "\<not> trigger \<longrightarrow> (\<forall>m\<in>set members. entersFrom g members m \<longrightarrow> m = entry)" for entry trigger
  proof -
    have fit: "?Q (g, groupMetaOf gd members entry trigger errorOutputs)"
      if "set members \<subseteq> (insideRel g (set members))\<^sup>* `` {entry}" "?out errorOutputs" for errorOutputs
      using that e ms(1-3) by (simp add: groupFits_def groupMetaOf_def)
    have "safeE ?Q (andThen (resolveGroupErrorOutputs g def gd members) (\<lambda>errorOutputs. Inr (g, groupMetaOf gd members entry trigger errorOutputs)))"
      if "set members \<subseteq> (insideRel g (set members))\<^sup>* `` {entry}"
      by (rule safeE_andThen [OF resolveGroupErrorOutputs_safe [OF wf(2)]]) (simp only: safeE_simps fit [OF that])
    then show ?thesis by (rule safeE_andThen [OF assertEntryDominates_safe [OF wf(1) ms(2,4) e(1)]])
  qed
  note rest = this
  show ?thesis
    unfolding finishGroup_def
  proof (rule safeE_andThen [OF resolveGroupEntry_safe [OF r]])
    fix x assume "case x of (entry, trigger) \<Rightarrow> entry \<in> set members
      \<and> (trigger \<longleftrightarrow> (\<exists>m\<in>set members. nm_Kind (g_nodes g ! nat m) = NodeKindTrigger))
      \<and> (\<not> trigger \<longrightarrow> (\<forall>m\<in>set members. entersFrom g members m \<longrightarrow> m = entry))"
    then show "safeE ?Q (case x of (entry, trigger) \<Rightarrow> andThen (assertEntryDominates g entry members)
        (\<lambda>_. andThen (resolveGroupErrorOutputs g def gd members) (\<lambda>errorOutputs. Inr (g, groupMetaOf gd members entry trigger errorOutputs))))"
      using rest [of "fst x" "snd x"] unfolding case_prod_unfold by blast
  qed
qed

lemma compileOneGroup_safe:
  assumes wf: "edgesWF g" and ix: "indexed g" and ok: "groupsOK g"
  shows "safeE (\<lambda>(g', gm). onlyGrouped g g' \<and> groupFits g' gm \<and> groupsOK (g'\<lparr>g_groups := g_groups g @ [gm]\<rparr>))
    (compileOneGroup g def gd (int (length (g_groups g))))" (is "safeE ?Q _")
proof (cases "gd_Members gd = []")
  case False
  let ?k = "int (length (g_groups g))"
  have "safeE ?Q (finishGroup (fold (joinGroup ?k) (sort collected) g) def gd (sort collected))"
    if c: "distinct collected \<and> length collected = length (gd_Members gd) \<and> (\<forall>m\<in>set collected. memberOK g m)" for collected
  proof -
    define members where "members = sort collected"
    have "length members = length (gd_Members gd)" using c by (simp add: members_def)
    then have ms: "members \<noteq> []" "distinct members" "sorted members" "\<forall>m\<in>set members. memberOK g m"
      using c False unfolding members_def by (auto simp del: length_sort)
    then have r: "\<forall>m\<in>set members. 0 \<le> m \<and> m < NodeCount g" by (simp add: memberOK_def)
    from joinGroups [OF this, of ?k] obtain ns where ns: "fold (joinGroup ?k) members g = g\<lparr>g_nodes := ns\<rparr>" "length ns = length (g_nodes g)"
      "\<And>i. i < length ns \<Longrightarrow> ns ! i = (if int i \<in> set members then (g_nodes g ! i)\<lparr>nm_GroupIdx := ?k\<rparr> else g_nodes g ! i)"
      by blast
    have "map nm_Kind ns = map nm_Kind (g_nodes g)" using ns(2,3) by (intro nth_equalityI) simp_all
    then have og: "onlyGrouped g (g\<lparr>g_nodes := ns\<rparr>)" by (auto simp: onlyGrouped_def)
    note w = onlyGrouped_wf [OF og]
    have "safeE (\<lambda>(g', gm). g' = g\<lparr>g_nodes := ns\<rparr> \<and> gm_Members gm = members \<and> groupFits (g\<lparr>g_nodes := ns\<rparr>) gm
        \<and> (\<forall>d\<in>set (gm_ErrorOutputs gm). 0 \<le> be_NodeIdx d \<and> be_NodeIdx d < NodeCount (g\<lparr>g_nodes := ns\<rparr>)
             \<and> nm_Kind (g_nodes (g\<lparr>g_nodes := ns\<rparr>) ! nat (be_NodeIdx d)) \<noteq> NodeKindSupply))
      (finishGroup (g\<lparr>g_nodes := ns\<rparr>) def gd members)"
      by (rule finishGroup_safe) (use wf ix w ms r in simp_all)
    moreover have "groupsOK (g\<lparr>g_nodes := ns, g_groups := g_groups g @ [gm]\<rparr>)"
      if "gm_Members gm = members" "\<forall>d\<in>set (gm_ErrorOutputs gm). 0 \<le> be_NodeIdx d \<and> be_NodeIdx d < NodeCount g \<and> nm_Kind (ns ! nat (be_NodeIdx d)) \<noteq> NodeKindSupply" for gm
      by (rule groupsOK_append [OF ok ns(2)]) (use ns(3) ms(4) that in simp_all)
    ultimately show ?thesis
      unfolding members_def [symmetric] ns(1) using og w(3) by (elim safeE_mono) auto
  qed
  then have "safeE ?Q (andThen (foldE (collectMember g) (gd_Members gd) [])
      (\<lambda>collected. finishGroup (fold (joinGroup ?k) (sort collected) g) def gd (sort collected)))"
    by (rule safeE_andThen [OF collectMembers_safe [OF ix]])
  then show ?thesis using False by (simp add: compileOneGroup_def Let_def)
qed (simp add: compileOneGroup_def)

text \<open>C12. Compiling a group on a well-formed graph never runs out of range.  When it
  accepts, the graph stays well-formed with the group added, nothing but the node
  records has changed, whose kinds are as before, and the group is one the scheduler
  can run as a unit: its members are distinct dataflow nodes of no other group, its entry is one
  of them and reaches every member by edges inside the group, its error targets lie
  outside, and unless the group starts from a trigger every edge that enters it from
  outside leads to the entry.\<close>

theorem compileOneGroup_wf:
  assumes "edgesWF g" "indexed g" "groupsOK g"
  shows "case compileOneGroup g def gd (int (length (g_groups g))) of
      Inl err \<Rightarrow> err \<noteq> IndexPanic
    | Inr (g', gm) \<Rightarrow> edgesWF g' \<and> indexed g' \<and> groupsOK (g'\<lparr>g_groups := g_groups g @ [gm]\<rparr>) \<and> onlyGrouped g g' \<and> groupFits g' gm"
proof (cases "compileOneGroup g def gd (int (length (g_groups g)))")
  case (Inl err)
  then show ?thesis using compileOneGroup_safe [OF assms, of def gd] by simp
next
  case (Inr r)
  then show ?thesis using compileOneGroup_safe [OF assms, of def gd] assms(1,2) onlyGrouped_wf(1,2) [of g "fst r"] by (cases r) simp
qed

section \<open>From the edge pass to the units\<close>

text \<open>The graphs the group pass can reach: \<open>compileGroups\<close> appends each group it
  compiles, whichever declarations its further checks let through.\<close>

inductive groupPass :: "WorkflowDef \<Rightarrow> Graph \<Rightarrow> Graph \<Rightarrow> bool" for "def" where
  no_group: "groupPass def g g"
| next_group: "groupPass def g g1 \<Longrightarrow> compileOneGroup g1 def gd (int (length (g_groups g1))) = Inr (g2, gm) \<Longrightarrow>
    groupPass def g (g2\<lparr>g_groups := g_groups g1 @ [gm]\<rparr>)"

definition unitsReady :: "Graph \<Rightarrow> bool" where
  "unitsReady g \<longleftrightarrow> edgesWF g \<and> indexed g \<and> groupsOK g \<and> supplyFree g"

lemma supplyFree_kinds:
  assumes "edgesWF g" "supplyFree g" "g_outEdges g' = g_outEdges g" "map nm_Kind (g_nodes g') = map nm_Kind (g_nodes g)"
  shows "supplyFree g'"
proof -
  have len: "length (g_nodes g') = length (g_nodes g)" using map_eq_imp_length_eq [OF assms(4)] .
  have kind: "nm_Kind (g_nodes g' ! i) = nm_Kind (g_nodes g ! i)" if "i < length (g_nodes g)" for i
    using assms(4) that len by (metis nth_map)
  have "nat (e_SrcIdx e) < length (g_nodes g) \<and> nat (e_DstIdx e) < length (g_nodes g)" if "e \<in> set (concat (g_outEdges g))" for e
    using edgesWF_range [OF assms(1) that] by (simp add: NodeCount_def nat_less_iff)
  then show ?thesis using assms(2,3) kind unfolding supplyFree_def by metis
qed

lemma unitsReady_group:
  assumes "unitsReady g" "compileOneGroup g def gd (int (length (g_groups g))) = Inr (g', gm)"
  shows "unitsReady (g'\<lparr>g_groups := g_groups g @ [gm]\<rparr>)"
proof -
  have r: "edgesWF g" "indexed g" "groupsOK g" "supplyFree g" using assms(1) by (simp_all add: unitsReady_def)
  from compileOneGroup_safe [OF r(1-3), of def gd] assms(2)
  have g': "onlyGrouped g g'" "groupsOK (g'\<lparr>g_groups := g_groups g @ [gm]\<rparr>)" by simp_all
  obtain ns where "g' = g\<lparr>g_nodes := ns\<rparr>" "map nm_Kind ns = map nm_Kind (g_nodes g)" using g'(1) by (auto simp: onlyGrouped_def)
  then have "supplyFree g'" using supplyFree_kinds [OF r(1,4)] by simp
  then show ?thesis using g'(2) r(1,2) onlyGrouped_wf [OF g'(1)]
    by (simp add: unitsReady_def supplyFree_def edgesWF_def indexed_def NodeCount_def)
qed

lemma unitsReady_pass: "groupPass def g g' \<Longrightarrow> unitsReady g \<Longrightarrow> unitsReady g'"
  by (induction rule: groupPass.induct) (auto intro: unitsReady_group)

lemma unitsReady_edges:
  assumes "registered def g" "g_groups g = []" "\<forall>n\<in>set (g_nodes g). nm_GroupIdx n = -1" "buildEdges def g = Inr (g', deps)"
  shows "unitsReady g'"
proof -
  have b: "building def g (declaredEdges g def) g'" using buildEdges_building [OF assms(1)] assms(4) by simp
  then have len: "length (g_nodes g') = length (g_nodes g)" by (metis building_def map_eq_imp_length_eq)
  have "nm_GroupIdx (g_nodes g' ! i) = -1" if "i < length (g_nodes g')" for i
    using b assms(3) len that by (metis building_def nth_map nth_mem)
  then have "groupsOK g'" using b assms(2) by (simp add: groupsOK_def building_def)
  moreover have "indexed g'" using b unfolding building_def indexed_def NodeCount_def by blast
  moreover have "supplyFree g'"
    unfolding supplyFree_def
  proof (intro ballI)
    fix e assume "e \<in> set (concat (g_outEdges g'))"
    moreover have "mset (concat (g_outEdges g')) = declaredEdges g def" using b by (simp add: building_def)
    ultimately have "e \<in># declaredEdges g def" by (metis set_mset_mset)
    then have "dataNode g (e_SrcIdx e)" "dataNode g (e_DstIdx e)" using b by (auto simp: building_def)
    then show "nm_Kind (g_nodes g' ! nat (e_SrcIdx e)) \<noteq> NodeKindSupply \<and> nm_Kind (g_nodes g' ! nat (e_DstIdx e)) \<noteq> NodeKindSupply"
      using building_kind [OF b] len by (auto simp: dataNode_def)
  qed
  ultimately show ?thesis using b by (simp add: unitsReady_def building_def)
qed

text \<open>C11. The passes compose.  For a definition whose nodes are registered, after the
  edge pass and any number of compiled groups, the unit pass never panics.  Its units
  are the dataflow nodes outside every group, in node order, followed by the groups;
  every dataflow node is in the one unit that holds it and a supply node in none.
  The edges between the units are exactly the node edges that cross two units and
  one error edge per declared error output of a group; the incoming lists and the
  in-degrees agree with them, and the boundary lists of a group are exactly its
  crossing edges.  The graph is rejected exactly when cycles are not allowed and the
  units form one.\<close>

theorem compiled_units_exact:
  assumes "registered def g" "g_groups g = []" "\<forall>n\<in>set (g_nodes g). nm_GroupIdx n = -1"
    and "buildEdges def g = Inr (g1, deps)" "groupPass def g1 g2"
  shows "\<exists>g' r. buildUnits g2 = Some (g', r) \<and> g_nodes g' = g_nodes g2 \<and> g_units g' = unitsOf g2 \<and> housed g'
     \<and> listsWF ue_SrcUnit ue_DstUnit (length (g_units g')) (g_unitOutEdges g') (g_unitInEdges g') (g_unitInDegree g')
     \<and> mset (concat (g_unitOutEdges g')) = unitEdgesOf g' \<and> (\<forall>gm\<in>set (g_groups g'). bordered (unitEdgesOf g') gm)
     \<and> (r = Inr () \<longleftrightarrow> g_allowCycles g2 \<or> acyclic (unitRel g'))"
proof -
  have "unitsReady g2" by (rule unitsReady_pass [OF assms(5) unitsReady_edges [OF assms(1-4)]])
  then show ?thesis using buildUnits_ok by (simp add: unitsReady_def)
qed

section \<open>A workflow with a group\<close>

definition samplePair :: GroupDef where
  "samplePair = \<lparr>gd_Name = ''pair'', gd_Members = [''b'', ''a''], gd_RunnerSelector = None, gd_OnError = ''error_output'',
     gd_ErrorOutputs = [\<lparr>co_Node = ''c'', co_Input = ''''\<rparr>], gd_Retry = None, gd_Timeout = 0, gd_Mode = '''', gd_ActivationReplicas = 0\<rparr>"

definition sampleGrouped :: Graph where
  "sampleGrouped = (case projr (compileOneGroup (sampleBuilt False) (sampleDef False) samplePair 0) of
     (g, gm) \<Rightarrow> g\<lparr>g_groups := g_groups (sampleBuilt False) @ [gm]\<rparr>)"

lemma sample_ready: "edgesWF (sampleBuilt False)" "indexed (sampleBuilt False)" "groupsOK (sampleBuilt False)" "g_groups (sampleBuilt False) = []"
  by code_simp+

theorem compileOneGroup_wf_witness:
  "edgesWF (sampleBuilt False) \<and> indexed (sampleBuilt False) \<and> groupsOK (sampleBuilt False)
   \<and> (case compileOneGroup (sampleBuilt False) (sampleDef False) samplePair 0 of
        Inl err \<Rightarrow> False
      | Inr (g', gm) \<Rightarrow> gm_Members gm = [0, 1] \<and> gm_EntryIdx gm = 0 \<and> map nm_GroupIdx (g_nodes g') = [0, 0, -1] \<and> groupFits g' gm)"
proof -
  have "case compileOneGroup (sampleBuilt False) (sampleDef False) samplePair 0 of
        Inl err \<Rightarrow> False | Inr (g', gm) \<Rightarrow> gm_Members gm = [0, 1] \<and> gm_EntryIdx gm = 0 \<and> map nm_GroupIdx (g_nodes g') = [0, 0, -1]"
    by code_simp
  then show ?thesis using compileOneGroup_wf [OF sample_ready(1-3), of "sampleDef False" samplePair] sample_ready
    by (auto split: sum.splits)
qed

lemma sampleGrouped_pass: "groupPass (sampleDef False) (sampleBuilt False) sampleGrouped"
proof -
  have "\<not> isl (compileOneGroup (sampleBuilt False) (sampleDef False) samplePair 0)" by code_simp
  then obtain g gm where c: "compileOneGroup (sampleBuilt False) (sampleDef False) samplePair 0 = Inr (g, gm)"
    by (cases "compileOneGroup (sampleBuilt False) (sampleDef False) samplePair 0") auto
  then have "groupPass (sampleDef False) (sampleBuilt False) (g\<lparr>g_groups := g_groups (sampleBuilt False) @ [gm]\<rparr>)"
    by (intro groupPass.next_group [OF groupPass.no_group, of _ _ samplePair]) (simp add: sample_ready(4))
  then show ?thesis by (simp add: sampleGrouped_def c)
qed

theorem compiled_units_exact_witness:
  "registered (sampleDef False) sampleRegistered \<and> groupPass (sampleDef False) (sampleBuilt False) sampleGrouped
   \<and> (\<exists>g'. buildUnits sampleGrouped = Some (g', Inr ()) \<and> g_nodeUnit g' = [1, 1, 0] \<and> g_unitInDegree g' = [2, 0] \<and> housed g'
        \<and> acyclic (unitRel g'))"
proof -
  have reg: "registered (sampleDef False) sampleRegistered" "g_groups sampleRegistered = []"
    "\<forall>n\<in>set (g_nodes sampleRegistered). nm_GroupIdx n = -1" "\<not> isl (buildEdges (sampleDef False) sampleRegistered)"
    by code_simp+
  then obtain deps where "buildEdges (sampleDef False) sampleRegistered = Inr (sampleBuilt False, deps)"
    by (cases "buildEdges (sampleDef False) sampleRegistered") (auto simp: sampleBuilt_def)
  from compiled_units_exact [OF reg(1-3) this sampleGrouped_pass]
  obtain g' r where g': "buildUnits sampleGrouped = Some (g', r)" "housed g'" "r = Inr () \<longleftrightarrow> g_allowCycles sampleGrouped \<or> acyclic (unitRel g')"
    by blast
  have "map_option (\<lambda>(g, r). (g_nodeUnit g, g_unitInDegree g, r)) (buildUnits sampleGrouped) = Some ([1, 1, 0], [2, 0], Inr ())"
    "\<not> g_allowCycles sampleGrouped" by code_simp+
  then show ?thesis using g' reg(1) sampleGrouped_pass by auto
qed

end
