(* ===== verification/Spec2Isabelle.thy ===== *)
theory Spec2Isabelle
  imports StoreRuns GroupCompile
begin

text \<open>
  A verification development for the xflow workflow engine (package
  \<open>github.com/xbcio/xflow\<close>).

  \<^bold>\<open>The program.\<close>  A workflow definition is compiled into a graph
  (\<open>src/engine/graph\<close>): nodes, data edges, co-location groups, and the durable units
  that are scheduled, a node or a whole group each.  The engine (\<open>src/engine\<close>) runs an
  execution of a graph over a state store.  The store keeps the execution, its node
  records and leases, the outbox of intents still to be delivered, arrival counters,
  signals, keyed submissions, admission results, batches of children and the slots of
  a workflow's concurrency limit, and changes them in atomic steps.  The local store
  (\<open>src/backend/providers/local\<close>) is the reference implementation of that interface:
  one record under a lock.

  \<^bold>\<open>How the code is modelled.\<close>  A struct is a record with the source's field names
  (prefixed), an enumeration a datatype, a Go map a finite map, a slice a list,
  \<open>time.Time\<close> and \<open>time.Duration\<close> integers of nanoseconds, a Go \<open>int\<close> an integer where
  the code only counts and compares.  SHA-256 works on 32-bit words.  An operation of the store is
  its critical section, a function from the record to the answer and the new record;
  \<open>now\<close> is the clock reading of the section.  A loop over a map, whose order Go leaves
  open, takes the order as an argument.  An error return is a value of a sum type; an
  index out of range, a panic, is \<^term>\<open>None\<close> or the error \<open>IndexPanic\<close>, and in the
  store a second close of a channel sets a flag.  Every loop is a total function: a
  fold, or a recursion with a termination proof by a measure; no fuel is used and no
  bound is assumed.

  \<^bold>\<open>Theories and sources.\<close>
  \<^item> \<open>Prelude\<close>: Go values, finite maps, string keys; the lemmas the components share.
  \<^item> \<open>GraphModel\<close> (graph.go, unit.go): the compiled graph and its accessors.
  \<^item> \<open>GraphOrder\<close> (compile.go, unit.go, merge_cancel.go): Kahn's algorithm and the
    closure a merge cancels.  The loops end; the cycle check accepts exactly the
    acyclic graphs; the closure is exactly the set of ancestors in topological order.
    The generic lists of outgoing and incoming edges with in-degrees are here too.
  \<^item> \<open>GraphCompile\<close> (compile.go, input_ports.go, merge_cancel.go): the edge pass,
    declared ports and effective policies; the edges are exactly the declared ones.
  \<^item> \<open>GraphUnits\<close> (unit.go): units and the edges between them, exact for a graph whose
    groups are consistent.
  \<^item> \<open>GraphReach\<close> (nodes_refs.go, body_outer_refs.go): one invariant for the
    breadth-first searches; reachability, dominance and the references of a body are
    decided exactly.
  \<^item> \<open>GroupCompile\<close> (group_compile.go): one group; what it accepts fits the graph, and
    the passes compose, so that the unit pass cannot panic.
  \<^item> \<open>EngineTypes\<close> (types.go, atomic.go and the types package): the data and requests of
    the store interface.
  \<^item> \<open>MemoryState\<close> (memory_state.go): the store's record, keys and event channels.
  \<^item> \<open>OutboxStore\<close> (atomic_state.go): intents, delivery leases, failures, dead letters.
  \<^item> \<open>Sha256\<close>, \<open>ConcurrencySlots\<close> (concurrency.go, memory_state.go): the workflow key,
    slots, the waiting line, admission, release and promotion.
  \<^item> \<open>ExecutionLifecycle\<close>, \<open>LifecycleProps\<close> (memory_state.go, execution_pause.go,
    store_mirror.go): creation, status writes, the end of an execution, pause, rollback.
  \<^item> \<open>Fencing\<close>: the contract of a fenced lease, a locale; node leases and group leases
    are its interpretations.
  \<^item> \<open>NodeLeases\<close>, \<open>Signals\<close> (memory_state.go): node records, leases, expiry, suspension
    and delivery of signals.
  \<^item> \<open>NodeCommit\<close> (atomic_state.go): commit, arrivals, advance.
  \<^item> \<open>GroupState\<close> (group_state.go), \<open>Idempotency\<close> (idempotency.go), \<open>Seeding\<close>
    (execution_seed.go, entry_admission.go), \<open>Expansion\<close> (expand_state.go,
    subworkflow_state.go): the remaining operations of the store.
  \<^item> \<open>IntentFrames\<close>, \<open>StoreSteps\<close>, \<open>Ledgers\<close>: what each critical section keeps, and which
    of them touch the records of admissions and replays.
  \<^item> \<open>StoreRuns\<close>: the store as a transition system with one rule per critical section.
    The creation of an execution is its locked section, then the insert of the durable
    row without the lock, then the release of the held intents or the rollback; other
    operations run in between, and the state has the creations in flight.  The
    operations with their parts in sequence are runs of the system.

  \<^bold>\<open>What is shown.\<close>  For the store: a commit is accepted only from the holder of the
  current lease and once; a stale token does nothing; arrivals decide a unit in every
  order as specified, and the commit that folds them in is equivalent to the separate
  advance; delivery leases exclude and expire; a dead letter survives replay; signals
  and waiters meet in either order; a key makes one execution; a refused admission
  charges no slot; batches collect the first result of every child.  Over all runs of
  critical sections: a reachable store is consistent and has not panicked, an execution
  whose create is over is not forgotten and stays ended once it has ended, an admission
  key keeps its first writer, and a dead letter is replayed once per time it dies.  The
  rules for creations carry the conditions under which the engine calls them: a fresh
  identifier, a status that is not an end, and a positive limit.  The limit of a
  workflow may change from one submission to the next; the bounds shown are the least
  and the greatest limit that were declared.  For the compiler: every pass is exact and none panics, from
  the declared connections to the units.

  \<^bold>\<open>Parameters.\<close>  The answer of the SQL insert behind the mirror, iteration orders of
  maps, the arrangement an unstable sort starts from, clock readings, and the references found in a body are arguments.

  \<^bold>\<open>Not modelled.\<close>  The distributed store: its transitions are Lua scripts and SQL that
  run in servers outside the Go code.  The engine's loops, the control plane, the API
  server, the runners and the node handlers: goroutines, timers and network calls over
  the operations above; retry delays are float64 arithmetic.  The parts of the
  compiler that scan expression text with regular expressions or decode JSON.  The
  SQL and object stores, observability, the web console and generated protocol code.
  The distributed store is mentioned in the findings where its scripts document a rule
  that the local store does not follow.
\<close>

end
